(* ===== verification/Prelude.thy ===== *)
theory Prelude
  imports Main "HOL-Library.Word"
begin

text \<open>
  Shared ground of the development: the machine types and the outcome type of the
  Rust sources, the part of Rust's standard library that the modelled code calls
  (decimal printing and integer parsing, searching in and splitting of \<open>str\<close>
  values, UTF-8 validation, big- and little-endian conversions), and the lemmas about
  them that the component theories use.

  A Rust \<open>str\<close> is its UTF-8 byte sequence, as in the language; \<open>str_ok\<close> is the
  type's own invariant.  A fallible or panicking operation returns a value of
  \<open>('e, 'a) res\<close>: the right injection is the result, the left one an \<open>Err\<close> of the
  source's error type, a \<open>Panic\<close>, or \<open>OutOfFuel\<close> where a recursion of the source that
  is not structural is cut off; the component theories show that the last one does
  not occur.
\<close>

unbundle bit_operations_syntax

section \<open>Machine types and outcomes\<close>

type_synonym u8 = "8 word"
type_synonym u16 = "16 word"
type_synonym u32 = "32 word"
type_synonym u64 = "64 word"

type_synonym str = "u8 list"

datatype 'e fault = Err 'e | Panic | OutOfFuel

type_synonym ('e, 'a) res = "'e fault + 'a"

named_theorems codec \<open>equations that run the encoder and the decoder on abstract input\<close>
named_theorems frame \<open>what an operation leaves unchanged\<close>
named_theorems progress \<open>how far an operation moves a cursor\<close>

text \<open>The question-mark operator: stop at the first fault.\<close>

definition bindR :: "'e + 'a \<Rightarrow> ('a \<Rightarrow> 'e + 'b) \<Rightarrow> 'e + 'b" where
  "bindR r f = (case r of Inl e \<Rightarrow> Inl e | Inr x \<Rightarrow> f x)"

lemma bindR_simps [simp]:
  "bindR (Inl e) f = Inl e"
  "bindR (Inr x) f = f x"
  by (simp_all add: bindR_def)

lemma bindR_eq_Inr [simp]: "bindR r f = Inr y \<longleftrightarrow> (\<exists>x. r = Inr x \<and> f x = Inr y)"
  by (cases r) auto

lemma bindR_eq_Inl: "bindR r f = Inl e \<longleftrightarrow> r = Inl e \<or> (\<exists>x. r = Inr x \<and> f x = Inl e)"
  by (cases r) auto

lemma bindR_assoc: "bindR (bindR r f) g = bindR r (\<lambda>x. bindR (f x) g)"
  by (cases r) auto

lemma bindR_Inr_right [simp]: "bindR r Inr = r"
  by (cases r) auto

definition mapR :: "('a \<Rightarrow> 'b) \<Rightarrow> 'e + 'a \<Rightarrow> 'e + 'b" where
  "mapR f r = bindR r (\<lambda>x. Inr (f x))"

lemma mapR_simps [simp]:
  "mapR f (Inl e) = Inl e"
  "mapR f (Inr x) = Inr (f x)"
  by (simp_all add: mapR_def)

lemma mapR_eq_Inr [simp]: "mapR f r = Inr y \<longleftrightarrow> (\<exists>x. r = Inr x \<and> y = f x)"
  by (cases r) auto

lemma mapR_eq_Inl [simp]: "mapR f r = Inl e \<longleftrightarrow> r = Inl e"
  by (cases r) auto

text \<open>\<open>Option::ok_or\<close>.\<close>

definition ok_or :: "'a option \<Rightarrow> 'e \<Rightarrow> ('e, 'a) res" where
  "ok_or x e = (case x of None \<Rightarrow> Inl (Err e) | Some y \<Rightarrow> Inr y)"

lemma ok_or_simps [simp]:
  "ok_or None e = Inl (Err e)"
  "ok_or (Some y) e = Inr y"
  by (simp_all add: ok_or_def)

text \<open>
  \<open>regular\<close>: the outcome is a value or an error of the source, neither a panic nor an
  exhausted recursion bound.
\<close>

fun regular :: "('e, 'a) res \<Rightarrow> bool" where
  "regular (Inr x) = True"
| "regular (Inl (Err e)) = True"
| "regular (Inl Panic) = False"
| "regular (Inl OutOfFuel) = False"

lemma regular_bindR [intro]:
  "regular r \<Longrightarrow> (\<And>x. r = Inr x \<Longrightarrow> regular (f x)) \<Longrightarrow> regular (bindR r f)"
  by (cases r) (auto simp: bindR_def elim: regular.elims)

lemma regular_mapR [simp]: "regular (mapR f r) \<longleftrightarrow> regular r"
  by (cases r) (auto simp: mapR_def bindR_def elim: regular.elims)

lemma regular_ok_or [simp]: "regular (ok_or x e)"
  by (cases x) auto

text \<open>
  \<open>for x in xs { f(x)?; }\<close> with the state passed on, and the concatenation of the pieces
  such a loop produces.
\<close>

fun iterR :: "('s \<Rightarrow> 'x \<Rightarrow> 'e + 's) \<Rightarrow> 's \<Rightarrow> 'x list \<Rightarrow> 'e + 's" where
  "iterR f s [] = Inr s"
| "iterR f s (x # xs) = bindR (f s x) (\<lambda>s. iterR f s xs)"

lemma iterR_cong [fundef_cong]:
  "xs = ys \<Longrightarrow> s = t \<Longrightarrow> (\<And>s x. x \<in> set ys \<Longrightarrow> f s x = g s x) \<Longrightarrow> iterR f s xs = iterR g t ys"
proof (induction xs arbitrary: ys s t)
  case (Cons x xs)
  then have "iterR f s xs = iterR g s xs" for s by (intro Cons.IH) auto
  with Cons.prems show ?case by (auto simp: bindR_def split: sum.split)
qed auto

fun concatR :: "('x \<Rightarrow> 'e + 'a list) \<Rightarrow> 'x list \<Rightarrow> 'e + 'a list" where
  "concatR f [] = Inr []"
| "concatR f (x # xs) = bindR (f x) (\<lambda>a. mapR ((@) a) (concatR f xs))"

lemma concatR_cong [fundef_cong]:
  "xs = ys \<Longrightarrow> (\<And>x. x \<in> set ys \<Longrightarrow> f x = g x) \<Longrightarrow> concatR f xs = concatR g ys"
  by (induction xs arbitrary: ys) auto

lemma concatR_map: "concatR g (map f xs) = concatR (\<lambda>x. g (f x)) xs"
  by (induction xs) auto

section \<open>Byte strings\<close>

definition lit :: "string \<Rightarrow> str" where
  "lit s = map of_char s"

lemma lit_simps:
  "lit [] = []"
  "lit (c # cs) = of_char c # lit cs"
  by (simp_all add: lit_def)

text \<open>\<open>str::find\<close>, \<open>str::rfind\<close>, \<open>split_once\<close> and \<open>rsplit_once\<close> with an ASCII character.\<close>

definition find_char :: "u8 \<Rightarrow> str \<Rightarrow> nat option" where
  "find_char c s = (if c \<in> set s then Some (length (takeWhile (\<lambda>x. x \<noteq> c) s)) else None)"

definition rfind_char :: "u8 \<Rightarrow> str \<Rightarrow> nat option" where
  "rfind_char c s =
     (if c \<in> set s then Some (length s - Suc (length (takeWhile (\<lambda>x. x \<noteq> c) (rev s)))) else None)"

definition split_once :: "u8 \<Rightarrow> str \<Rightarrow> (str \<times> str) option" where
  "split_once c s = map_option (\<lambda>i. (take i s, drop (Suc i) s)) (find_char c s)"

definition rsplit_once :: "u8 \<Rightarrow> str \<Rightarrow> (str \<times> str) option" where
  "rsplit_once c s = map_option (\<lambda>i. (take i s, drop (Suc i) s)) (rfind_char c s)"

lemma find_char_None: "find_char c s = None \<longleftrightarrow> c \<notin> set s"
  by (simp add: find_char_def)

lemma find_char_absent [simp]: "c \<notin> set s \<Longrightarrow> find_char c s = None"
  by (simp add: find_char_def)

lemma find_char_Some:
  "find_char c s = Some i \<longleftrightarrow> (\<exists>p q. s = p @ c # q \<and> c \<notin> set p \<and> i = length p)"
proof
  assume *: "find_char c s = Some i"
  then have "c \<in> set s" by (simp add: find_char_def split: if_splits)
  then obtain p q where "s = p @ c # q" "c \<notin> set p" by (meson split_list_first)
  moreover from this * have "i = length p"
    by (auto simp: find_char_def takeWhile_append)
  ultimately show "\<exists>p q. s = p @ c # q \<and> c \<notin> set p \<and> i = length p" by blast
next
  assume "\<exists>p q. s = p @ c # q \<and> c \<notin> set p \<and> i = length p"
  then show "find_char c s = Some i"
    by (auto simp: find_char_def takeWhile_append)
qed

lemma find_char_first [simp]: "c \<notin> set p \<Longrightarrow> find_char c (p @ c # q) = Some (length p)"
  using find_char_Some by blast

lemma find_char_append_left:
  "c \<in> set p \<Longrightarrow> find_char c (p @ q) = find_char c p"
  by (auto simp: find_char_def takeWhile_append)

lemma rfind_char_None: "rfind_char c s = None \<longleftrightarrow> c \<notin> set s"
  by (simp add: rfind_char_def)

lemma rfind_char_absent [simp]: "c \<notin> set s \<Longrightarrow> rfind_char c s = None"
  by (simp add: rfind_char_def)

lemma rfind_char_last [simp]: "c \<notin> set q \<Longrightarrow> rfind_char c (p @ c # q) = Some (length p)"
proof -
  assume "c \<notin> set q"
  then have "takeWhile (\<lambda>x. x \<noteq> c) (rev q @ c # rev p) = rev q"
    by (auto simp: takeWhile_append)
  then show ?thesis by (simp add: rfind_char_def)
qed

lemma rfind_char_SomeD:
  assumes "rfind_char c s = Some i"
  shows "\<exists>p q. s = p @ c # q \<and> c \<notin> set q \<and> i = length p"
proof -
  from assms have "c \<in> set s" by (simp add: rfind_char_def split: if_splits)
  then obtain p q where pq: "s = p @ c # q" "c \<notin> set q" by (meson split_list_last)
  with assms have "i = length p" by simp
  with pq show ?thesis by blast
qed

lemma split_once_first [simp]: "c \<notin> set p \<Longrightarrow> split_once c (p @ c # q) = Some (p, q)"
  by (simp add: split_once_def)

lemma split_once_absent [simp]: "c \<notin> set s \<Longrightarrow> split_once c s = None"
  by (simp add: split_once_def)

lemma rsplit_once_last [simp]: "c \<notin> set q \<Longrightarrow> rsplit_once c (p @ c # q) = Some (p, q)"
  by (simp add: rsplit_once_def)

lemma rsplit_once_absent [simp]: "c \<notin> set s \<Longrightarrow> rsplit_once c s = None"
  by (simp add: rsplit_once_def)

section \<open>Decimal integers\<close>

definition is_ascii_digit :: "u8 \<Rightarrow> bool" where
  "is_ascii_digit b \<longleftrightarrow> 48 \<le> b \<and> b \<le> 57"

text \<open>\<open>Display\<close> of an unsigned integer.\<close>

fun decimal :: "nat \<Rightarrow> str" where
  "decimal n = (if n < 10 then [of_nat (48 + n)] else decimal (n div 10) @ [of_nat (48 + n mod 10)])"

declare decimal.simps [simp del]

datatype int_error_kind = IntEmpty | InvalidDigit | PosOverflow | NegOverflow

text \<open>
  \<open>from_str\<close> of the unsigned integer types, digit by digit: at each digit the source
  first rejects a non-digit, then an overflow of the multiplication by ten, then an
  overflow of the addition.
\<close>

fun parse_digits :: "nat \<Rightarrow> nat \<Rightarrow> str \<Rightarrow> int_error_kind + nat" where
  "parse_digits mx acc [] = Inr acc"
| "parse_digits mx acc (c # cs) =
     (if \<not> is_ascii_digit c then Inl InvalidDigit
      else if acc * 10 > mx then Inl PosOverflow
      else if acc * 10 + (unat c - 48) > mx then Inl PosOverflow
      else parse_digits mx (acc * 10 + (unat c - 48)) cs)"

definition parse_uint :: "nat \<Rightarrow> str \<Rightarrow> int_error_kind + nat" where
  "parse_uint mx s =
     (if s = [] then Inl IntEmpty
      else if s = [43] \<or> s = [45] then Inl InvalidDigit
      else if hd s = 43 then parse_digits mx 0 (tl s)
      else parse_digits mx 0 s)"

abbreviation parse_u8 :: "str \<Rightarrow> int_error_kind + nat" where
  "parse_u8 \<equiv> parse_uint 255"

abbreviation parse_u16 :: "str \<Rightarrow> int_error_kind + nat" where
  "parse_u16 \<equiv> parse_uint 65535"

text \<open>\<open>Result::ok\<close>.\<close>

definition ok :: "'e + 'a \<Rightarrow> 'a option" where
  "ok r = (case r of Inl _ \<Rightarrow> None | Inr x \<Rightarrow> Some x)"

lemma ok_simps [simp]: "ok (Inl e) = None" "ok (Inr x) = Some x"
  by (simp_all add: ok_def)

lemma ok_eq_Some [simp]: "ok r = Some x \<longleftrightarrow> r = Inr x"
  by (cases r) auto

lemma ok_eq_None: "ok r = None \<longleftrightarrow> (\<exists>e. r = Inl e)"
  by (cases r) auto


lemma unat_digit: "d < 10 \<Longrightarrow> unat (of_nat (48 + d) :: u8) = 48 + d"
  by (simp add: unat_of_nat take_bit_eq_mod del: of_nat_add)

lemma is_ascii_digit_of_nat: "d < 10 \<Longrightarrow> is_ascii_digit (of_nat (48 + d))"
  unfolding is_ascii_digit_def word_le_nat_alt unat_digit by simp

lemma decimal_digits: "list_all is_ascii_digit (decimal n)"
proof (induction n rule: decimal.induct)
  case (1 n)
  show ?case
  proof (cases "n < 10")
    case True
    then show ?thesis
      using is_ascii_digit_of_nat [of n] by (subst decimal.simps) (simp del: of_nat_add)
  next
    case False
    with 1 is_ascii_digit_of_nat [of "n mod 10"] show ?thesis
      by (subst decimal.simps) (simp del: of_nat_add)
  qed
qed

lemma decimal_not_Nil [simp]: "decimal n \<noteq> []"
  by (subst decimal.simps) simp

lemma decimal_Nil_iff [simp]: "[] = decimal n \<longleftrightarrow> False"
  using decimal_not_Nil [of n] by metis

lemma digit_neq:
  "is_ascii_digit b \<Longrightarrow> b \<noteq> 43" "is_ascii_digit b \<Longrightarrow> b \<noteq> 45" "is_ascii_digit b \<Longrightarrow> b \<noteq> 46"
  "is_ascii_digit b \<Longrightarrow> b \<noteq> 58" "is_ascii_digit b \<Longrightarrow> b \<noteq> 64" "is_ascii_digit b \<Longrightarrow> b \<noteq> 95"
  by (auto simp: is_ascii_digit_def)

lemma decimal_digit: "b \<in> set (decimal n) \<Longrightarrow> is_ascii_digit b"
  using decimal_digits [of n] by (simp add: list_all_iff)

lemma decimal_no [simp]:
  "43 \<notin> set (decimal n)" "45 \<notin> set (decimal n)" "46 \<notin> set (decimal n)"
  "58 \<notin> set (decimal n)" "64 \<notin> set (decimal n)" "95 \<notin> set (decimal n)"
  by (auto dest!: decimal_digit simp: is_ascii_digit_def)

lemma parse_digits_append:
  "parse_digits mx acc (xs @ ys) = bindR (parse_digits mx acc xs) (\<lambda>a. parse_digits mx a ys)"
  by (induction xs arbitrary: acc) auto

lemma parse_digits_decimal:
  "parse_digits mx 0 (decimal n) = (if n \<le> mx then Inr n else Inl PosOverflow)"
proof (induction n rule: decimal.induct)
  case (1 n)
  show ?case
  proof (cases "n < 10")
    case True
    then show ?thesis
      using is_ascii_digit_of_nat [of n] unat_digit [of n]
      by (subst decimal.simps) (simp del: of_nat_add)
  next
    case False
    have d: "n mod 10 < 10" by simp
    note dig = is_ascii_digit_of_nat [OF d] unat_digit [OF d]
    have n: "n div 10 * 10 + n mod 10 = n" by simp
    show ?thesis
      using False 1 dig n by (subst decimal.simps) (auto simp: parse_digits_append simp del: of_nat_add)
  qed
qed

lemma parse_uint_decimal [simp]:
  "parse_uint mx (decimal n) = (if n \<le> mx then Inr n else Inl PosOverflow)"
proof -
  have "hd (decimal n) \<in> set (decimal n)" by simp
  then have "hd (decimal n) \<noteq> 43" using decimal_no(1) [of n] by metis
  moreover have "decimal n \<noteq> [43]" "decimal n \<noteq> [45]"
    using decimal_no(1,2) [of n] by (metis list.set_intros(1))+
  ultimately show ?thesis by (simp add: parse_uint_def parse_digits_decimal)
qed

lemma parse_digits_bound: "acc \<le> mx \<Longrightarrow> parse_digits mx acc s = Inr n \<Longrightarrow> n \<le> mx"
  by (induction s arbitrary: acc) (auto split: if_splits simp: not_less)

lemma parse_uint_bound: "parse_uint mx s = Inr n \<Longrightarrow> n \<le> mx"
  using parse_digits_bound [of 0 mx] by (auto simp: parse_uint_def split: if_splits)

section \<open>UTF-8 validation\<close>

text \<open>
  \<open>core::str::from_utf8\<close>: the well-formed byte sequences of the Unicode standard, by
  the range of the leading byte.
\<close>

definition utf8_cont :: "u8 \<Rightarrow> bool" where
  "utf8_cont b \<longleftrightarrow> 0x80 \<le> b \<and> b \<le> 0xBF"

definition utf8_second3 :: "u8 \<Rightarrow> u8 \<Rightarrow> bool" where
  "utf8_second3 a b \<longleftrightarrow>
     (if a = 0xE0 then 0xA0 \<le> b \<and> b \<le> 0xBF
      else if a = 0xED then 0x80 \<le> b \<and> b \<le> 0x9F
      else utf8_cont b)"

definition utf8_second4 :: "u8 \<Rightarrow> u8 \<Rightarrow> bool" where
  "utf8_second4 a b \<longleftrightarrow>
     (if a = 0xF0 then 0x90 \<le> b \<and> b \<le> 0xBF
      else if a = 0xF4 then 0x80 \<le> b \<and> b \<le> 0x8F
      else utf8_cont b)"

fun utf8_valid :: "u8 list \<Rightarrow> bool" where
  "utf8_valid [] = True"
| "utf8_valid (a # r) =
     (if a < 0x80 then utf8_valid r
      else if 0xC2 \<le> a \<and> a \<le> 0xDF then
        (case r of b # r' \<Rightarrow> utf8_cont b \<and> utf8_valid r' | _ \<Rightarrow> False)
      else if 0xE0 \<le> a \<and> a \<le> 0xEF then
        (case r of b # c # r' \<Rightarrow> utf8_second3 a b \<and> utf8_cont c \<and> utf8_valid r' | _ \<Rightarrow> False)
      else if 0xF0 \<le> a \<and> a \<le> 0xF4 then
        (case r of b # c # d # r' \<Rightarrow>
           utf8_second4 a b \<and> utf8_cont c \<and> utf8_cont d \<and> utf8_valid r' | _ \<Rightarrow> False)
      else False)"

abbreviation str_ok :: "str \<Rightarrow> bool" where
  "str_ok \<equiv> utf8_valid"

lemma utf8_cont_ascii [simp]: "b < 0x80 \<Longrightarrow> \<not> utf8_cont b"
  by (simp add: utf8_cont_def word_le_nat_alt word_less_nat_alt)

lemma utf8_second_ascii [simp]:
  "b < 0x80 \<Longrightarrow> \<not> utf8_second3 a b" "b < 0x80 \<Longrightarrow> \<not> utf8_second4 a b"
  by (auto simp: utf8_second3_def utf8_second4_def utf8_cont_def word_le_nat_alt word_less_nat_alt)

lemma list_cases4:
  obtains "r = []" | b where "r = [b]" | b c where "r = [b, c]" | b c d r' where "r = b # c # d # r'"
  by (metis list.exhaust)

lemma utf8_valid_append: "utf8_valid xs \<Longrightarrow> utf8_valid (xs @ ys) \<longleftrightarrow> utf8_valid ys"
proof (induction xs rule: utf8_valid.induct)
  case 1
  then show ?case by simp
next
  case (2 x r)
  then show ?case
    by (cases r rule: list_cases4)
      (auto simp del: utf8_valid.simps(2) simp: utf8_valid.simps(2) [of x] split: if_splits)
qed

lemma utf8_valid_ascii_split:
  "a < 0x80 \<Longrightarrow> utf8_valid (xs @ a # ys) \<longleftrightarrow> utf8_valid xs \<and> utf8_valid ys"
proof (induction xs rule: utf8_valid.induct)
  case 1
  then show ?case by simp
next
  case (2 x r)
  then show ?case
    by (cases r rule: list_cases4)
      (auto simp del: utf8_valid.simps(2) simp: utf8_valid.simps(2) [of x] split: if_splits list.splits)
qed

lemma utf8_valid_ascii: "list_all (\<lambda>b. b < 0x80) xs \<Longrightarrow> utf8_valid xs"
  by (induction xs) auto

lemma utf8_valid_hd: "utf8_valid (b # bs) \<Longrightarrow> \<not> utf8_cont b"
  by (auto simp: utf8_cont_def word_le_nat_alt word_less_nat_alt split: if_splits)

lemma decimal_ascii: "list_all (\<lambda>b. b < 0x80) (decimal n)"
  using decimal_digits [of n] by (auto simp: list_all_iff is_ascii_digit_def word_le_nat_alt word_less_nat_alt)

lemma utf8_valid_decimal [simp]: "utf8_valid (decimal n)"
  by (rule utf8_valid_ascii [OF decimal_ascii])

section \<open>Methods on a mutable receiver\<close>

text \<open>A method that takes \<open>&mut self\<close> and can fail: the outcome and the receiver after the call, also when
  the call failed.\<close>

type_synonym ('s, 'e, 'a) meth = "'s \<Rightarrow> ('e, 'a) res \<times> 's"

definition bindS :: "('s, 'e, 'a) meth \<Rightarrow> ('a \<Rightarrow> ('s, 'e, 'b) meth) \<Rightarrow> ('s, 'e, 'b) meth" where
  "bindS m f s = (case m s of (Inl e, s') \<Rightarrow> (Inl e, s') | (Inr x, s') \<Rightarrow> f x s')"

definition liftS :: "('e, 'a) res \<Rightarrow> ('s, 'e, 'a) meth" where
  "liftS r s = (r, s)"

definition returnS :: "'a \<Rightarrow> ('s, 'e, 'a) meth" where
  "returnS x s = (Inr x, s)"

definition getS :: "('s, 'e, 's) meth" where
  "getS s = (Inr s, s)"

definition modifyS :: "('s \<Rightarrow> 's) \<Rightarrow> ('s, 'e, unit) meth" where
  "modifyS f s = (Inr (), f s)"

lemma bindS_Inr: "m s = (Inr x, s') \<Longrightarrow> bindS m f s = f x s'"
  by (simp add: bindS_def)

lemma bindS_Inl: "m s = (Inl e, s') \<Longrightarrow> bindS m f s = (Inl e, s')"
  by (simp add: bindS_def)

lemma bindS_simps [simp]:
  "bindS (returnS x) f = f x"
  "bindS (liftS (Inr x)) f = f x"
  "bindS (liftS (Inl e)) f = liftS (Inl e)"
  by (simp_all add: fun_eq_iff bindS_def liftS_def returnS_def)

lemma bindS_Pair [simp]:
  "bindS (Pair (Inr x)) f = f x"
  "bindS (Pair (Inl e)) f = Pair (Inl e)"
  by (simp_all add: fun_eq_iff bindS_def)

lemma bindS_assoc [simp]: "bindS (bindS m f) g = bindS m (\<lambda>x. bindS (f x) g)"
  by (rule ext) (auto simp: bindS_def split: prod.splits sum.splits)

lemma bindS_getS [simp]: "bindS getS f s = f s s"
  by (simp add: bindS_def getS_def)

lemma bindS_modifyS [simp]: "bindS (modifyS g) f s = f () (g s)"
  by (simp add: bindS_def modifyS_def)

lemma meth_simps [simp]:
  "liftS r s = (r, s)"
  "returnS x s = (Inr x, s)"
  "modifyS g s = (Inr (), g s)"
  by (simp_all add: liftS_def returnS_def modifyS_def)

lemma bindS_eq_Inr:
  "bindS m f s = (Inr y, s'') \<longleftrightarrow> (\<exists>x s'. m s = (Inr x, s') \<and> f x s' = (Inr y, s''))"
  by (auto simp: bindS_def split: prod.splits sum.splits)

text \<open>\<open>map_err(f)\<close>.\<close>

definition mapE :: "('d \<Rightarrow> 'e) \<Rightarrow> ('d, 'a) res \<Rightarrow> ('e, 'a) res" where
  "mapE f r = (case r of Inr x \<Rightarrow> Inr x | Inl (Err e) \<Rightarrow> Inl (Err (f e)) | Inl Panic \<Rightarrow> Inl Panic | Inl OutOfFuel \<Rightarrow> Inl OutOfFuel)"

lemma mapE_simps [simp]:
  "mapE f (Inr x) = Inr x"
  "mapE f (Inl (Err e)) = Inl (Err (f e))"
  "mapE f (Inl Panic) = Inl Panic"
  "mapE f (Inl OutOfFuel) = Inl OutOfFuel"
  by (simp_all add: mapE_def)

lemma mapE_eq_Inr [simp]: "mapE f r = Inr x \<longleftrightarrow> r = Inr x"
  by (auto simp: mapE_def split: sum.splits fault.splits)

section \<open>Byte order\<close>

definition u16_to_be_bytes :: "u16 \<Rightarrow> u8 list" where
  "u16_to_be_bytes w = [ucast (drop_bit 8 w), ucast w]"

definition u16_from_be_bytes :: "u8 \<Rightarrow> u8 \<Rightarrow> u16" where
  "u16_from_be_bytes a b = push_bit 8 (ucast a) OR ucast b"

definition u32_to_be_bytes :: "u32 \<Rightarrow> u8 list" where
  "u32_to_be_bytes w =
     [ucast (drop_bit 24 w), ucast (drop_bit 16 w), ucast (drop_bit 8 w), ucast w]"

definition u32_from_be_bytes :: "u8 \<Rightarrow> u8 \<Rightarrow> u8 \<Rightarrow> u8 \<Rightarrow> u32" where
  "u32_from_be_bytes a b c d =
     push_bit 24 (ucast a) OR push_bit 16 (ucast b) OR push_bit 8 (ucast c) OR ucast d"

lemma u16_be_roundtrip [simp]: "u16_from_be_bytes (ucast (drop_bit 8 w)) (ucast w) = w"
  by (rule bit_word_eqI) (auto simp: u16_from_be_bytes_def bit_simps)

lemma u32_be_roundtrip [simp]:
  "u32_from_be_bytes (ucast (drop_bit 24 w)) (ucast (drop_bit 16 w)) (ucast (drop_bit 8 w)) (ucast w) = w"
proof (rule bit_word_eqI)
  fix n :: nat
  assume "n < LENGTH(32)"
  then consider "n < 8" | "8 \<le> n" "n < 16" | "16 \<le> n" "n < 24" | "24 \<le> n" "n < 32"
    by fastforce
  then show "bit (u32_from_be_bytes (ucast (drop_bit 24 w)) (ucast (drop_bit 16 w))
      (ucast (drop_bit 8 w)) (ucast w)) n \<longleftrightarrow> bit w n"
    by cases (auto simp: u32_from_be_bytes_def bit_simps)
qed

lemma and_mask4: "(x AND 0xF :: 'a::len word) = take_bit 4 x"
  by (simp add: take_bit_eq_mask mask_eq_exp_minus_1)

lemma and_mask8: "(x AND 0xFF :: 'a::len word) = take_bit 8 x"
  by (simp add: take_bit_eq_mask mask_eq_exp_minus_1)

section \<open>A self-delimiting coding\<close>

text \<open>Used for sample instances of message coding: optional byte strings, and integers in unary.\<close>

definition put_opt :: "u8 list option \<Rightarrow> u8 list" where
  "put_opt x = (case x of None \<Rightarrow> [0] | Some b \<Rightarrow> 1 # concat (map (\<lambda>c. [1, c]) b) @ [0])"

fun get_bytes :: "u8 list \<Rightarrow> (u8 list \<times> u8 list) option" where
  "get_bytes (t # r) =
     (if t = 0 then Some ([], r)
      else case r of [] \<Rightarrow> None | c # r' \<Rightarrow> map_option (apfst ((#) c)) (get_bytes r'))"
| "get_bytes [] = None"

definition get_opt :: "u8 list \<Rightarrow> (u8 list option \<times> u8 list) option" where
  "get_opt x =
     (case x of [] \<Rightarrow> None | t # r \<Rightarrow> if t = 0 then Some (None, r) else map_option (apfst Some) (get_bytes r))"

lemma get_bytes_put: "get_bytes (concat (map (\<lambda>c. [1, c]) b) @ 0 # r) = Some (b, r)"
  by (induction b) auto

lemma get_opt_put [simp]: "get_opt (put_opt x @ r) = Some (x, r)"
  by (auto simp: get_opt_def put_opt_def get_bytes_put split: option.split)

definition put_int :: "int option \<Rightarrow> u8 list" where
  "put_int x = (case x of None \<Rightarrow> [0] | Some i \<Rightarrow> (if i < 0 then 1 else 2) # replicate (nat \<bar>i\<bar>) 0)"

definition get_int :: "u8 list \<Rightarrow> int option" where
  "get_int x =
     (case x of [] \<Rightarrow> None | t # r \<Rightarrow> if t = 0 then None else Some (if t = 1 then - int (length r) else int (length r)))"

lemma get_int_put [simp]: "get_int (put_int x) = x"
  by (auto simp: put_int_def get_int_def split: option.split)

end
