(* ===== verification/Jid.thy ===== *)
theory Jid
  imports Prelude
begin

text \<open>
  WhatsApp identifiers: \<open>rust-backend/wacore/binary/src/jid.rs\<close>.  The servers, the JID
  structure, the two parsers (\<open>parse_jid_fast\<close> and the fallback of \<open>from_str\<close>), the
  renderers, and the comparison and normalisation helpers.

  The JID type is polymorphic in the type of its user part, so that the encoder can
  see user parts as located strings; everything here is about \<open>str jid\<close>.  Integers are
  printed by the external crate \<open>itoa\<close>, a parameter of the renderers; what they rely on
  is \<open>itoa_ok\<close>.
\<close>

section \<open>Servers\<close>

datatype server = Pn | Lid | Group | Broadcast | Newsletter | Hosted | HostedLid
  | Messenger | Interop | Bot | Legacy | Call

fun server_as_str :: "server \<Rightarrow> str" where
  "server_as_str Pn = lit ''s.whatsapp.net''"
| "server_as_str Lid = lit ''lid''"
| "server_as_str Group = lit ''g.us''"
| "server_as_str Broadcast = lit ''broadcast''"
| "server_as_str Newsletter = lit ''newsletter''"
| "server_as_str Hosted = lit ''hosted''"
| "server_as_str HostedLid = lit ''hosted.lid''"
| "server_as_str Messenger = lit ''msgr''"
| "server_as_str Interop = lit ''interop''"
| "server_as_str Bot = lit ''bot''"
| "server_as_str Legacy = lit ''c.us''"
| "server_as_str Call = lit ''call''"

definition is_pn_family :: "server \<Rightarrow> bool" where
  "is_pn_family s \<longleftrightarrow> s = Pn \<or> s = Hosted"

definition is_lid_family :: "server \<Rightarrow> bool" where
  "is_lid_family s \<longleftrightarrow> s = Lid \<or> s = HostedLid"

definition renders_agent :: "server \<Rightarrow> bool" where
  "renders_agent s \<longleftrightarrow> \<not> (s = Pn \<or> s = Lid \<or> s = Hosted \<or> s = HostedLid)"

definition carries_phone_number :: "server \<Rightarrow> bool" where
  "carries_phone_number s \<longleftrightarrow> s = Pn \<or> s = Hosted \<or> s = Legacy \<or> s = Messenger \<or> s = Interop"

datatype jid_error = InvalidFormat str | ParseError int_error_kind

definition server_try_from :: "str \<Rightarrow> jid_error + server" where
  "server_try_from s =
     (if s = lit ''s.whatsapp.net'' then Inr Pn
      else if s = lit ''lid'' then Inr Lid
      else if s = lit ''g.us'' then Inr Group
      else if s = lit ''broadcast'' then Inr Broadcast
      else if s = lit ''newsletter'' then Inr Newsletter
      else if s = lit ''hosted'' then Inr Hosted
      else if s = lit ''hosted.lid'' then Inr HostedLid
      else if s = lit ''msgr'' then Inr Messenger
      else if s = lit ''interop'' then Inr Interop
      else if s = lit ''bot'' then Inr Bot
      else if s = lit ''c.us'' then Inr Legacy
      else if s = lit ''call'' then Inr Call
      else Inl (InvalidFormat (lit ''unknown server: '' @ s)))"

abbreviation DEFAULT_USER_SERVER :: str where "DEFAULT_USER_SERVER \<equiv> lit ''s.whatsapp.net''"
abbreviation HIDDEN_USER_SERVER :: str where "HIDDEN_USER_SERVER \<equiv> lit ''lid''"
abbreviation INTEROP_SERVER :: str where "INTEROP_SERVER \<equiv> lit ''interop''"
abbreviation MESSENGER_SERVER :: str where "MESSENGER_SERVER \<equiv> lit ''msgr''"
abbreviation STATUS_BROADCAST_USER :: str where "STATUS_BROADCAST_USER \<equiv> lit ''status''"

section \<open>JIDs\<close>

datatype 's jid = Jid (jid_user: 's) (jid_server: server) (jid_agent: u8) (jid_device: u16)
  (jid_integrator: u16)

definition jid_default :: "str jid" where
  "jid_default = Jid [] Pn 0 0 0"

definition jid_new :: "str \<Rightarrow> server \<Rightarrow> str jid" where
  "jid_new u s = Jid u s 0 0 0"

definition jid_pn :: "str \<Rightarrow> str jid" where
  "jid_pn u = Jid u Pn 0 0 0"

definition jid_lid :: "str \<Rightarrow> str jid" where
  "jid_lid u = Jid u Lid 0 0 0"

definition jid_status_broadcast :: "str jid" where
  "jid_status_broadcast = Jid STATUS_BROADCAST_USER Broadcast 0 0 0"

definition jid_group :: "str \<Rightarrow> str jid" where
  "jid_group i = Jid i Group 0 0 0"

definition jid_newsletter :: "str \<Rightarrow> str jid" where
  "jid_newsletter i = Jid i Newsletter 0 0 0"

definition jid_pn_device :: "str \<Rightarrow> u16 \<Rightarrow> str jid" where
  "jid_pn_device u d = Jid u Pn 0 d 0"

definition jid_lid_device :: "str \<Rightarrow> u16 \<Rightarrow> str jid" where
  "jid_lid_device u d = Jid u Lid 0 d 0"

definition is_ad :: "'s jid \<Rightarrow> bool" where
  "is_ad j \<longleftrightarrow> 0 < jid_device j \<and>
     (jid_server j = Pn \<or> jid_server j = Lid \<or> jid_server j = Hosted \<or> jid_server j = HostedLid)"

definition is_interop :: "'s jid \<Rightarrow> bool" where
  "is_interop j \<longleftrightarrow> jid_server j = Interop \<and> 0 < jid_integrator j"

definition is_messenger :: "'s jid \<Rightarrow> bool" where
  "is_messenger j \<longleftrightarrow> jid_server j = Messenger \<and> 0 < jid_device j"

definition is_group :: "'s jid \<Rightarrow> bool" where
  "is_group j \<longleftrightarrow> jid_server j = Group"

definition is_broadcast_list :: "str jid \<Rightarrow> bool" where
  "is_broadcast_list j \<longleftrightarrow> jid_server j = Broadcast \<and> jid_user j \<noteq> STATUS_BROADCAST_USER"

definition is_status_broadcast :: "str jid \<Rightarrow> bool" where
  "is_status_broadcast j \<longleftrightarrow> jid_server j = Broadcast \<and> jid_user j = STATUS_BROADCAST_USER"

definition starts_with :: "str \<Rightarrow> str \<Rightarrow> bool" where
  "starts_with s p \<longleftrightarrow> take (length p) s = p"

definition is_bot :: "str jid \<Rightarrow> bool" where
  "is_bot j \<longleftrightarrow>
     (jid_server j = Pn \<and> jid_device j = 0 \<and>
        (starts_with (jid_user j) (lit ''1313555'') \<or> starts_with (jid_user j) (lit ''131655500''))) \<or>
     jid_server j = Bot"

definition is_newsletter :: "'s jid \<Rightarrow> bool" where
  "is_newsletter j \<longleftrightarrow> jid_server j = Newsletter"

definition is_hosted :: "'s jid \<Rightarrow> bool" where
  "is_hosted j \<longleftrightarrow> jid_device j = 99 \<or> jid_server j = Hosted \<or> jid_server j = HostedLid"

definition is_same_user_as :: "str jid \<Rightarrow> str jid \<Rightarrow> bool" where
  "is_same_user_as a b \<longleftrightarrow> jid_user a = jid_user b"

definition user_base :: "str jid \<Rightarrow> str" where
  "user_base j = (case split_once 58 (jid_user j) of Some (base, _) \<Rightarrow> base | None \<Rightarrow> jid_user j)"

definition with_device :: "str jid \<Rightarrow> u16 \<Rightarrow> str jid" where
  "with_device j d = Jid (jid_user j) (jid_server j) (jid_agent j) d (jid_integrator j)"

definition to_non_ad :: "str jid \<Rightarrow> str jid" where
  "to_non_ad j = Jid (jid_user j) (jid_server j) 0 0 (jid_integrator j)"

definition into_non_ad :: "str jid \<Rightarrow> str jid" where
  "into_non_ad j = Jid (jid_user j) (jid_server j) 0 0 (jid_integrator j)"

definition is_same_chat_as :: "str jid \<Rightarrow> str jid \<Rightarrow> bool" where
  "is_same_chat_as a b \<longleftrightarrow>
     jid_user a = jid_user b \<and> jid_server a = jid_server b \<and>
     jid_integrator a = jid_integrator b \<and>
     (\<not> renders_agent (jid_server a) \<or> jid_agent a = jid_agent b)"

definition matches_user_or_lid :: "str jid \<Rightarrow> str jid \<Rightarrow> str jid option \<Rightarrow> bool" where
  "matches_user_or_lid j u l \<longleftrightarrow>
     is_same_user_as j u \<or> (case l of None \<Rightarrow> False | Some x \<Rightarrow> is_same_user_as j x)"

definition normalize_for_prekey_bundle :: "str jid \<Rightarrow> str jid" where
  "normalize_for_prekey_bundle j =
     (if jid_server j = Pn \<or> jid_server j = Lid
      then Jid (jid_user j) (jid_server j) 0 (jid_device j) (jid_integrator j)
      else j)"

definition device_eq :: "str jid \<Rightarrow> str jid \<Rightarrow> bool" where
  "device_eq a b \<longleftrightarrow>
     jid_user a = jid_user b \<and> jid_server a = jid_server b \<and> jid_device a = jid_device b"

definition device_key :: "str jid \<Rightarrow> str \<times> server \<times> u16" where
  "device_key j = (jid_user j, jid_server j, jid_device j)"

section \<open>Rendering\<close>

type_synonym itoa = "nat \<Rightarrow> str"

definition itoa_ok :: "itoa \<Rightarrow> bool" where
  "itoa_ok it \<longleftrightarrow> (\<forall>n. it n = decimal n)"

text \<open>The macro \<open>write_jid!\<close> in its infallible form: append to a growing buffer.\<close>

definition push_jid_to_string ::
    "itoa \<Rightarrow> str \<Rightarrow> server \<Rightarrow> u8 \<Rightarrow> u16 \<Rightarrow> str \<Rightarrow> str" where
  "push_jid_to_string it u s a d buf =
     (if u = [] then buf @ server_as_str s
      else
        let buf = buf @ u;
            buf = (if 0 < a \<and> renders_agent s then buf @ [46] @ it (unat a) else buf);
            buf = (if 0 < d then buf @ [58] @ it (unat d) else buf)
        in buf @ [64] @ server_as_str s)"

definition push_jid_to_compact ::
    "itoa \<Rightarrow> str \<Rightarrow> server \<Rightarrow> u8 \<Rightarrow> u16 \<Rightarrow> str \<Rightarrow> str" where
  "push_jid_to_compact it u s a d buf = push_jid_to_string it u s a d buf"

definition push_to :: "itoa \<Rightarrow> str jid \<Rightarrow> str \<Rightarrow> str" where
  "push_to it j buf =
     push_jid_to_string it (jid_user j) (jid_server j) (jid_agent j) (jid_device j) buf"

definition to_non_ad_string :: "itoa \<Rightarrow> str jid \<Rightarrow> str" where
  "to_non_ad_string it j = push_jid_to_string it (jid_user j) (jid_server j) 0 0 []"

definition push_ad_to :: "itoa \<Rightarrow> str jid \<Rightarrow> str \<Rightarrow> str" where
  "push_ad_to it j buf =
     (if jid_user j = [] then buf @ server_as_str (jid_server j)
      else buf @ jid_user j @ [46] @ it (unat (jid_agent j)) @ [58] @ it (unat (jid_device j))
             @ [64] @ server_as_str (jid_server j))"

definition to_ad_string :: "itoa \<Rightarrow> str jid \<Rightarrow> str" where
  "to_ad_string it j = push_ad_to it j []"

text \<open>
  The fallible form of \<open>write_jid!\<close>, over a \<open>fmt::Write\<close> given by its \<open>write_str\<close>;
  \<open>None\<close> is \<open>fmt::Error\<close>.
\<close>

definition write_jid_fallible ::
    "('w \<Rightarrow> str \<Rightarrow> 'w option) \<Rightarrow> itoa \<Rightarrow> str \<Rightarrow> server \<Rightarrow> u8 \<Rightarrow> u16 \<Rightarrow> 'w \<Rightarrow> 'w option" where
  "write_jid_fallible write_str it u s a d f =
     (if u = [] then write_str f (server_as_str s)
      else
        Option.bind (write_str f u) (\<lambda>f.
        Option.bind (if 0 < a \<and> renders_agent s
                     then Option.bind (write_str f [46]) (\<lambda>f. write_str f (it (unat a)))
                     else Some f) (\<lambda>f.
        Option.bind (if 0 < d
                     then Option.bind (write_str f [58]) (\<lambda>f. write_str f (it (unat d)))
                     else Some f) (\<lambda>f.
        Option.bind (write_str f [64]) (\<lambda>f. write_str f (server_as_str s))))))"

record jid_stack_writer =
  jsw_buf :: "u8 list"
  jsw_len :: nat

definition jsw_new :: jid_stack_writer where
  "jsw_new = \<lparr>jsw_buf = replicate 64 0, jsw_len = 0\<rparr>"

definition jsw_as_str :: "jid_stack_writer \<Rightarrow> (jid_error, str) res" where
  "jsw_as_str w =
     (let s = take (jsw_len w) (jsw_buf w) in if utf8_valid s then Inr s else Inl Panic)"

definition jsw_write_str :: "jid_stack_writer \<Rightarrow> str \<Rightarrow> jid_stack_writer option" where
  "jsw_write_str w s =
     (let end' = jsw_len w + length s in
      if end' > length (jsw_buf w) then None
      else Some (w\<lparr>jsw_buf := take (jsw_len w) (jsw_buf w) @ s @ drop end' (jsw_buf w),
                   jsw_len := end'\<rparr>))"

text \<open>
  \<open>Display for Jid\<close> on a formatter given by its \<open>write_str\<close>: one write from the stack
  buffer, or fragment by fragment when the JID does not fit.  The outer fault is the
  \<open>expect\<close> of \<open>as_str\<close>, the inner option \<open>fmt::Error\<close>.
\<close>

definition jid_fmt_to ::
    "('w \<Rightarrow> str \<Rightarrow> 'w option) \<Rightarrow> itoa \<Rightarrow> str jid \<Rightarrow> 'w \<Rightarrow> (jid_error, 'w option) res" where
  "jid_fmt_to write_str it j f =
     (case write_jid_fallible jsw_write_str it (jid_user j) (jid_server j) (jid_agent j)
             (jid_device j) jsw_new of
        Some w \<Rightarrow> bindR (jsw_as_str w) (\<lambda>s. Inr (write_str f s))
      | None \<Rightarrow>
          Inr (write_jid_fallible write_str it (jid_user j) (jid_server j) (jid_agent j) (jid_device j) f))"

text \<open>Formatting into a growing string, as \<open>to_string\<close> does; a \<open>fmt::Error\<close> would panic.\<close>

definition jid_fmt :: "itoa \<Rightarrow> str jid \<Rightarrow> str \<Rightarrow> (jid_error, str) res" where
  "jid_fmt it j f =
     bindR (jid_fmt_to (\<lambda>f s. Some (f @ s)) it j f) (\<lambda>r.
       case r of Some f' \<Rightarrow> Inr f' | None \<Rightarrow> Inl Panic)"

text \<open>The string every renderer is to produce.\<close>

definition to_string :: "itoa \<Rightarrow> str jid \<Rightarrow> str" where
  "to_string it j = push_to it j []"


section \<open>Parsing\<close>

record parsed_jid_parts =
  pj_user :: str
  pj_server :: str
  pj_agent :: u8
  pj_device :: u16
  pj_integrator :: u16

text \<open>The single pass over the bytes: positions of the first \<open>@\<close>, of the last colon and
  of the last dot before it.\<close>

fun scan_separators ::
    "nat \<Rightarrow> str \<Rightarrow> nat option \<Rightarrow> nat option \<Rightarrow> nat option \<Rightarrow> nat option \<times> nat option \<times> nat option" where
  "scan_separators i [] at colon dot = (at, colon, dot)"
| "scan_separators i (b # bs) at colon dot =
     (if b = 64 \<and> at = None then scan_separators (Suc i) bs (Some i) colon dot
      else if b = 58 \<and> at = None then scan_separators (Suc i) bs at (Some i) dot
      else if b = 46 \<and> at = None \<and> colon = None then scan_separators (Suc i) bs at colon (Some i)
      else scan_separators (Suc i) bs at colon dot)"

definition slice :: "str \<Rightarrow> nat \<Rightarrow> nat \<Rightarrow> str" where
  "slice s i j = take (j - i) (drop i s)"

definition parse_device_or_0 :: "str \<Rightarrow> u16" where
  "parse_device_or_0 s = (case parse_u16 s of Inr n \<Rightarrow> of_nat n | Inl _ \<Rightarrow> 0)"

definition parse_jid_fast :: "str \<Rightarrow> parsed_jid_parts option" where
  "parse_jid_fast s =
     (if s = [] then None
      else
        (case scan_separators 0 s None None None of
           (None, _, _) \<Rightarrow> None
         | (Some at, colon_pos, last_dot_pos) \<Rightarrow>
             let user_part = take at s; server = drop (Suc at) s in
             if user_part = [] then None
             else if server = HIDDEN_USER_SERVER then
               let (u, d) = (case colon_pos of
                               Some pos \<Rightarrow> if pos < at
                                           then (take pos s, parse_device_or_0 (slice s (Suc pos) at))
                                           else (user_part, 0)
                             | None \<Rightarrow> (user_part, 0))
               in Some \<lparr>pj_user = u, pj_server = server, pj_agent = 0, pj_device = d, pj_integrator = 0\<rparr>
             else if server = DEFAULT_USER_SERVER then
               (case colon_pos of
                  Some pos \<Rightarrow>
                    Some \<lparr>pj_user = take pos s, pj_server = server, pj_agent = 0,
                          pj_device = parse_device_or_0 (slice s (Suc pos) at), pj_integrator = 0\<rparr>
                | None \<Rightarrow>
                    (case (case last_dot_pos of
                             None \<Rightarrow> None
                           | Some dot_pos \<Rightarrow>
                               (case parse_u16 (slice s (Suc dot_pos) at) of
                                  Inr v \<Rightarrow> Some (dot_pos, v) | Inl _ \<Rightarrow> None)) of
                       Some (dot_pos, v) \<Rightarrow>
                         Some \<lparr>pj_user = take dot_pos s, pj_server = server, pj_agent = 0,
                               pj_device = of_nat v, pj_integrator = 0\<rparr>
                     | None \<Rightarrow>
                         Some \<lparr>pj_user = user_part, pj_server = server, pj_agent = 0,
                               pj_device = 0, pj_integrator = 0\<rparr>))
             else
               let (user_before_colon, d) =
                     (case colon_pos of
                        Some pos \<Rightarrow> (take pos s, parse_device_or_0 (slice s (Suc pos) at))
                      | None \<Rightarrow> (user_part, 0));
                   (final_user, a) =
                     (case rfind_char 46 user_before_colon of
                        Some dot_pos \<Rightarrow>
                          (case parse_u16 (drop (Suc dot_pos) user_before_colon) of
                             Inr agent_val \<Rightarrow>
                               if agent_val \<le> 255 then (take dot_pos user_before_colon, of_nat agent_val)
                               else (user_before_colon, 0)
                           | Inl _ \<Rightarrow> (user_before_colon, 0))
                      | None \<Rightarrow> (user_before_colon, 0))
               in Some \<lparr>pj_user = final_user, pj_server = server, pj_agent = a,
                        pj_device = d, pj_integrator = 0\<rparr>))"

text \<open>The full parser behind the fast path.\<close>

definition from_str_fallback :: "str \<Rightarrow> jid_error + str jid" where
  "from_str_fallback s =
     (let (user_part, server) = (case split_once 64 s of Some us \<Rightarrow> us | None \<Rightarrow> ([], s)) in
      if user_part = [] \<and> ok (server_try_from server) = None
      then Inl (InvalidFormat (lit ''unknown server '' @ [39] @ server @ [39]))
      else if server = HIDDEN_USER_SERVER then
        bindR (case rsplit_once 58 user_part of
                 Some (u, d_str) \<Rightarrow>
                   (case parse_u16 d_str of Inr d \<Rightarrow> Inr (u, of_nat d) | Inl e \<Rightarrow> Inl (ParseError e))
               | None \<Rightarrow> Inr (user_part, 0)) (\<lambda>(u, d).
        bindR (server_try_from server) (\<lambda>sv. Inr (Jid u sv 0 d 0)))
      else
        bindR (case rsplit_once 58 user_part of
                 Some (u, d_str) \<Rightarrow>
                   (case parse_u16 d_str of Inr d \<Rightarrow> Inr (u, of_nat d) | Inl e \<Rightarrow> Inl (ParseError e))
               | None \<Rightarrow> Inr (user_part, 0)) (\<lambda>(u, d).
        bindR (if server \<noteq> DEFAULT_USER_SERVER \<and> server \<noteq> HIDDEN_USER_SERVER then
                 (case rsplit_once 46 u of
                    Some (u', last_part) \<Rightarrow>
                      (case parse_u16 last_part of
                         Inr num_val \<Rightarrow>
                           if num_val > 255
                           then Inl (InvalidFormat (lit ''Agent component out of range: '' @ decimal num_val))
                           else Inr (u', of_nat num_val)
                       | Inl _ \<Rightarrow> Inr (u, 0))
                  | None \<Rightarrow> Inr (u, 0))
               else Inr (u, 0)) (\<lambda>(u, a).
        bindR (server_try_from server) (\<lambda>sv. Inr (Jid u sv a d 0)))))"

definition from_str :: "str \<Rightarrow> jid_error + str jid" where
  "from_str s =
     (case parse_jid_fast s of
        Some parts \<Rightarrow>
          bindR (server_try_from (pj_server parts)) (\<lambda>sv.
            Inr (Jid (pj_user parts) sv (pj_agent parts) (pj_device parts) (pj_integrator parts)))
      | None \<Rightarrow> from_str_fallback s)"

section \<open>Privacy-aware rendering\<close>

text \<open>
  \<open>observe_token\<close> is a hash keyed by a random per-process key; it is a parameter.  The
  format specifier \<open>{:016x}\<close> prints sixteen lower-case hexadecimal digits.  \<open>tracing_pii\<close> is whether
  the crate is built with that feature.
\<close>

definition hex_digit :: "nat \<Rightarrow> u8" where
  "hex_digit n = of_nat (if n < 10 then 48 + n else 87 + n)"

definition hex16 :: "u64 \<Rightarrow> str" where
  "hex16 w = map (\<lambda>i. hex_digit (unat (drop_bit (4 * i) w) mod 16)) (rev [0..<16])"

definition observed_user :: "(str \<Rightarrow> u64) \<Rightarrow> str jid \<Rightarrow> str option" where
  "observed_user observe_token j =
     (if carries_phone_number (jid_server j)
      then Some (lit ''pn#'' @ hex16 (observe_token (jid_user j)))
      else if jid_server j = Group \<or> jid_server j = Broadcast then
        (case find_char 45 (jid_user j) of
           Some i \<Rightarrow>
             if i > 0 \<and> list_all is_ascii_digit (take i (jid_user j))
             then Some (lit ''pn#'' @ hex16 (observe_token (take i (jid_user j))) @ drop i (jid_user j))
             else None
         | None \<Rightarrow> None)
      else None)"

definition observed_jid_fmt :: "bool \<Rightarrow> itoa \<Rightarrow> (str \<Rightarrow> u64) \<Rightarrow> str jid \<Rightarrow> str" where
  "observed_jid_fmt tracing_pii it observe_token j =
     (if jid_user j = [] \<or> tracing_pii then to_string it j
      else
        (case observed_user observe_token j of
           None \<Rightarrow> to_string it j
         | Some u \<Rightarrow>
             u @ (if 0 < jid_agent j \<and> renders_agent (jid_server j)
                  then [46] @ decimal (unat (jid_agent j)) else [])
               @ (if 0 < jid_device j then [58] @ decimal (unat (jid_device j)) else [])
               @ [64] @ server_as_str (jid_server j)))"

definition observe_str :: "bool \<Rightarrow> itoa \<Rightarrow> (str \<Rightarrow> u64) \<Rightarrow> str \<Rightarrow> str" where
  "observe_str tracing_pii it observe_token s =
     (if tracing_pii then s
      else
        (case from_str s of
           Inr j \<Rightarrow> observed_jid_fmt tracing_pii it observe_token j
         | Inl _ \<Rightarrow> lit ''?#'' @ hex16 (observe_token s)))"

section \<open>Lemmas\<close>

text \<open>The literals of this file as bytes, computed once.\<close>

lemma jid_literals [simp]:
  "lit ''s.whatsapp.net'' = [115, 46, 119, 104, 97, 116, 115, 97, 112, 112, 46, 110, 101, 116]"
  "lit ''lid'' = [108, 105, 100]"
  "lit ''g.us'' = [103, 46, 117, 115]"
  "lit ''broadcast'' = [98, 114, 111, 97, 100, 99, 97, 115, 116]"
  "lit ''newsletter'' = [110, 101, 119, 115, 108, 101, 116, 116, 101, 114]"
  "lit ''hosted'' = [104, 111, 115, 116, 101, 100]"
  "lit ''hosted.lid'' = [104, 111, 115, 116, 101, 100, 46, 108, 105, 100]"
  "lit ''msgr'' = [109, 115, 103, 114]"
  "lit ''interop'' = [105, 110, 116, 101, 114, 111, 112]"
  "lit ''bot'' = [98, 111, 116]"
  "lit ''c.us'' = [99, 46, 117, 115]"
  "lit ''call'' = [99, 97, 108, 108]"
  "lit ''status'' = [115, 116, 97, 116, 117, 115]"
  "lit ''1313555'' = [49, 51, 49, 51, 53, 53, 53]"
  "lit ''131655500'' = [49, 51, 49, 54, 53, 53, 53, 48, 48]"
  by (simp_all add: lit_simps)

lemma server_try_from_as_str [simp]: "server_try_from (server_as_str s) = Inr s"
  by (cases s) (simp_all add: server_try_from_def)

lemma server_try_from_Inr: "server_try_from t = Inr s \<longleftrightarrow> t = server_as_str s"
proof
  assume "server_try_from t = Inr s"
  then show "t = server_as_str s"
    by (auto simp: server_try_from_def split: if_splits)
next
  assume "t = server_as_str s"
  then show "server_try_from t = Inr s" by simp
qed

lemma server_as_str_inj [simp]: "server_as_str s = server_as_str t \<longleftrightarrow> s = t"
  using server_try_from_as_str by (metis sum.inject(2))

lemma server_as_str_no_sep [simp]:
  "64 \<notin> set (server_as_str s)" "58 \<notin> set (server_as_str s)"
  by (cases s; simp)+

lemma server_as_str_not_Nil [simp]: "server_as_str s \<noteq> []"
  by (cases s) simp_all

lemma utf8_valid_server [simp]: "utf8_valid (server_as_str s)"
  by (cases s) simp_all


subsection \<open>Renderers\<close>

text \<open>
  A \<open>fmt::Write\<close> as its clients see it: \<open>rel w c\<close> says that \<open>w\<close> has taken in the text \<open>c\<close>,
  and a successful \<open>write_str\<close> takes in its argument.
\<close>

locale fmt_write =
  fixes write_str :: "'w \<Rightarrow> str \<Rightarrow> 'w option"
    and rel :: "'w \<Rightarrow> str \<Rightarrow> bool"
  assumes write_rel: "rel w c \<Longrightarrow> write_str w s = Some w' \<Longrightarrow> rel w' (c @ s)"
begin

lemma write_opt:
  assumes "rel w c" "(if P then Option.bind (write_str w s) (\<lambda>v. write_str v t) else Some w) = Some w'"
  shows "rel w' (if P then c @ s @ t else c)"
proof (cases P)
  case True
  with assms(2) obtain v where v: "write_str w s = Some v" "write_str v t = Some w'"
    by (auto simp: bind_eq_Some_conv)
  from write_rel [OF write_rel [OF assms(1) v(1)] v(2)] show ?thesis using True by simp
next
  case False
  with assms show ?thesis by simp
qed

lemma write_jid_contents:
  assumes w: "rel w c" and run: "write_jid_fallible write_str it u s a d w = Some w'"
  shows "rel w' (push_jid_to_string it u s a d c)"
proof (cases "u = []")
  case True
  with assms write_rel show ?thesis
    by (simp add: write_jid_fallible_def push_jid_to_string_def)
next
  case False
  with run obtain w1 w2 w3 where
    w1: "write_str w u = Some w1" and
    w2: "(if 0 < a \<and> renders_agent s then Option.bind (write_str w1 [46]) (\<lambda>f. write_str f (it (unat a)))
          else Some w1) = Some w2" and
    w3: "(if 0 < d then Option.bind (write_str w2 [58]) (\<lambda>f. write_str f (it (unat d)))
          else Some w2) = Some w3" and
    w4: "(if True then Option.bind (write_str w3 [64]) (\<lambda>f. write_str f (server_as_str s))
          else Some w3) = Some w'"
    by (auto simp: write_jid_fallible_def bind_eq_Some_conv)
  show ?thesis
    using write_opt [OF write_opt [OF write_opt [OF write_rel [OF w w1] w2] w3] w4] False
    by (auto simp: push_jid_to_string_def Let_def split: if_splits)
qed

end

lemma jsw_write_strD:
  assumes "jsw_write_str w s = Some w'" and "jsw_len w \<le> length (jsw_buf w)"
  shows "jsw_len w' \<le> length (jsw_buf w')"
    and "take (jsw_len w') (jsw_buf w') = take (jsw_len w) (jsw_buf w) @ s"
  using assms by (auto simp: jsw_write_str_def Let_def split: if_splits)

interpretation jsw: fmt_write jsw_write_str
  "\<lambda>w c. jsw_len w \<le> length (jsw_buf w) \<and> take (jsw_len w) (jsw_buf w) = c"
  by unfold_locales (use jsw_write_strD in blast)

interpretation string_write: fmt_write "\<lambda>f s. Some (f @ s)" "\<lambda>f c. f = c"
  by unfold_locales auto

lemma push_jid_append: "push_jid_to_string it u s a d buf = buf @ push_jid_to_string it u s a d []"
  by (simp add: push_jid_to_string_def Let_def)

lemma write_jid_string:
  "write_jid_fallible (\<lambda>f s. Some (f @ s)) it u s a d f = Some (push_jid_to_string it u s a d f)"
  by (simp add: write_jid_fallible_def push_jid_to_string_def Let_def)

lemma to_string_alt:
  "to_string it j =
     (if jid_user j = [] then server_as_str (jid_server j)
      else jid_user j
        @ (if 0 < jid_agent j \<and> renders_agent (jid_server j) then 46 # it (unat (jid_agent j)) else [])
        @ (if 0 < jid_device j then 58 # it (unat (jid_device j)) else [])
        @ 64 # server_as_str (jid_server j))"
  by (simp add: to_string_def push_to_def push_jid_to_string_def Let_def)

lemma utf8_valid_to_string:
  "itoa_ok it \<Longrightarrow> utf8_valid (jid_user j) \<Longrightarrow> utf8_valid (to_string it j)"
  by (auto simp: to_string_alt utf8_valid_append itoa_ok_def)

lemma stack_rendering:
  assumes "write_jid_fallible jsw_write_str it (jid_user j) (jid_server j) (jid_agent j)
             (jid_device j) jsw_new = Some w" and "utf8_valid (to_string it j)"
  shows "jsw_as_str w = Inr (to_string it j)"
  using jsw.write_jid_contents [OF _ assms(1), of "[]"] assms(2)
  by (simp add: to_string_def push_to_def jsw_new_def jsw_as_str_def)

lemma jid_fmt_to_string:
  assumes "itoa_ok it" "utf8_valid (jid_user j)"
  shows "jid_fmt it j f = Inr (f @ to_string it j)"
  using stack_rendering [of it j, OF _ utf8_valid_to_string [OF assms]]
  by (simp add: jid_fmt_def jid_fmt_to_def write_jid_string to_string_def push_to_def
      push_jid_append [of it _ _ _ _ f] split: option.split)

subsection \<open>The scanning pass\<close>

lemma rfind_char_Nil [simp]: "rfind_char c [] = None"
  by simp

lemma rfind_char_Cons:
  "rfind_char c (x # xs) =
     (case rfind_char c xs of Some k \<Rightarrow> Some (Suc k) | None \<Rightarrow> if x = c then Some 0 else None)"
proof (cases "c \<in> set xs")
  case True
  then obtain p q where "xs = p @ c # q" "c \<notin> set q" by (meson split_list_last)
  then show ?thesis using rfind_char_last [of c q "x # p"] by simp
next
  case False
  then have "rfind_char c xs = None" "x \<noteq> c \<Longrightarrow> rfind_char c (x # xs) = None" by auto
  then show ?thesis using False rfind_char_last [of c xs "[]"] by auto
qed

lemma scan_after_at: "scan_separators i xs (Some a) c d = (Some a, c, d)"
  by (induction xs arbitrary: i) auto

lemma scan_no_at:
  "64 \<notin> set xs \<Longrightarrow>
   scan_separators i xs None c d =
     (None, (case rfind_char 58 xs of Some k \<Rightarrow> Some (i + k) | None \<Rightarrow> c),
      (if c = None then (case rfind_char 46 (takeWhile (\<lambda>x. x \<noteq> 58) xs) of
                           Some k \<Rightarrow> Some (i + k) | None \<Rightarrow> d) else d))"
proof (induction xs arbitrary: i c d)
  case Nil
  then show ?case by simp
next
  case (Cons x xs)
  then have "x \<noteq> 64" "64 \<notin> set xs" by auto
  with Cons.IH [of "Suc i"] show ?case
    by (simp add: rfind_char_Cons split: option.split)
qed

lemma scan_append:
  "scan_separators i (xs @ ys) a c d =
     (case scan_separators i xs a c d of (a', c', d') \<Rightarrow> scan_separators (i + length xs) ys a' c' d')"
  by (induction xs arbitrary: i a c d) auto

lemma scan_at:
  "64 \<notin> set xs \<Longrightarrow>
   scan_separators 0 (xs @ 64 # ys) None None None =
     (Some (length xs), rfind_char 58 xs, rfind_char 46 (takeWhile (\<lambda>x. x \<noteq> 58) xs))"
  by (auto simp: scan_append scan_no_at scan_after_at split: option.splits)

lemma scan_server_only: "64 \<notin> set s \<Longrightarrow> parse_jid_fast s = None"
  by (simp add: parse_jid_fast_def scan_no_at)


text \<open>
  The fast parser on \<open>X @ 64 # srv\<close>, said with \<open>rsplit_once\<close> on the user part instead
  of positions in the whole string.
\<close>

definition split_device :: "str \<Rightarrow> str \<times> u16" where
  "split_device X =
     (case rsplit_once 58 X of Some (u, ds) \<Rightarrow> (u, parse_device_or_0 ds) | None \<Rightarrow> (X, 0))"

definition split_numeric :: "nat \<Rightarrow> str \<Rightarrow> str \<times> nat" where
  "split_numeric mx X =
     (case rsplit_once 46 X of
        Some (u, ds) \<Rightarrow> (case parse_u16 ds of Inr v \<Rightarrow> if v \<le> mx then (u, v) else (X, 0) | Inl _ \<Rightarrow> (X, 0))
      | None \<Rightarrow> (X, 0))"

definition fast_parts :: "str \<Rightarrow> str \<Rightarrow> str \<times> u8 \<times> u16" where
  "fast_parts X srv =
     (if srv = HIDDEN_USER_SERVER then case split_device X of (u, d) \<Rightarrow> (u, 0, d)
      else if srv = DEFAULT_USER_SERVER then
        (if 58 \<in> set X then case split_device X of (u, d) \<Rightarrow> (u, 0, d)
         else case split_numeric 65535 X of (u, v) \<Rightarrow> (u, 0, of_nat v))
      else case split_device X of (u, d) \<Rightarrow>
             (case split_numeric 255 u of (u', v) \<Rightarrow> (u', of_nat v, d)))"

lemma rfind_char_less: "rfind_char c X = Some i \<Longrightarrow> i < length X"
  by (auto dest: rfind_char_SomeD)

lemma rsplit_once_rfind:
  "rsplit_once c X = (case rfind_char c X of Some i \<Rightarrow> Some (take i X, drop (Suc i) X) | None \<Rightarrow> None)"
  by (auto simp: rsplit_once_def split: option.split)

lemma slice_append [simp]: "slice (X @ Y) i (length X) = drop i X"
  by (simp add: slice_def)

lemma takeWhile_neq_absent: "c \<notin> set X \<Longrightarrow> takeWhile (\<lambda>x. x \<noteq> c) X = X"
  by (auto simp: takeWhile_eq_all_conv)

lemma parse_jid_fast_at:
  assumes "64 \<notin> set X" "X \<noteq> []"
  shows "parse_jid_fast (X @ 64 # srv) =
    (case fast_parts X srv of (u, a, d) \<Rightarrow>
       Some \<lparr>pj_user = u, pj_server = srv, pj_agent = a, pj_device = d, pj_integrator = 0\<rparr>)"
proof (cases "rfind_char 58 X")
  case None
  then have "58 \<notin> set X" by (simp add: rfind_char_None)
  then have scan: "scan_separators 0 (X @ 64 # srv) None None None =
      (Some (length X), None, rfind_char 46 X)"
    using scan_at [OF assms(1), of srv] None by (simp add: takeWhile_neq_absent)
  show ?thesis
  proof (cases "rfind_char 46 X")
    case None
    with scan \<open>58 \<notin> set X\<close> assms show ?thesis
      by (simp add: parse_jid_fast_def fast_parts_def split_device_def split_numeric_def rsplit_once_rfind)
  next
    case (Some k)
    then have "k < length X" by (rule rfind_char_less)
    with Some scan \<open>58 \<notin> set X\<close> assms show ?thesis
      by (cases "parse_u16 (drop (Suc k) X)")
        (simp_all add: parse_jid_fast_def fast_parts_def split_device_def split_numeric_def
          rsplit_once_rfind parse_uint_bound)
  qed
next
  case (Some i)
  then have i: "i < length X" "58 \<in> set X"
    using rfind_char_less by (auto dest: rfind_char_SomeD)
  obtain D where scan: "scan_separators 0 (X @ 64 # srv) None None None = (Some (length X), Some i, D)"
    using scan_at [OF assms(1), of srv] Some by simp
  show ?thesis
  proof (cases "rfind_char 46 (take i X)")
    case None
    with scan Some i assms show ?thesis
      by (simp add: parse_jid_fast_def fast_parts_def split_device_def split_numeric_def rsplit_once_rfind)
  next
    case (Some k)
    with scan \<open>rfind_char 58 X = Some i\<close> i assms show ?thesis
      by (cases "parse_u16 (drop (Suc k) (take i X))")
        (simp_all add: parse_jid_fast_def fast_parts_def split_device_def split_numeric_def
          rsplit_once_rfind)
  qed
qed

subsection \<open>Parsing what was rendered\<close>

definition displayed :: "str jid \<Rightarrow> str jid" where
  "displayed j =
     (if jid_user j = [] then Jid [] (jid_server j) 0 0 0
      else Jid (jid_user j) (jid_server j) (if renders_agent (jid_server j) then jid_agent j else 0)
             (jid_device j) 0)"

definition numeric_suffix :: "nat \<Rightarrow> str \<Rightarrow> bool" where
  "numeric_suffix mx u \<longleftrightarrow>
     (case rsplit_once 46 u of
        None \<Rightarrow> False
      | Some (_, ds) \<Rightarrow> (case parse_u16 ds of Inr v \<Rightarrow> v \<le> mx | Inl _ \<Rightarrow> False))"

definition display_safe :: "str jid \<Rightarrow> bool" where
  "display_safe j \<longleftrightarrow>
     64 \<notin> set (jid_user j) \<and> 58 \<notin> set (jid_user j) \<and>
     (jid_server j = Lid
      \<or> (jid_server j = Pn \<and> (0 < jid_device j \<or> \<not> numeric_suffix 65535 (jid_user j)))
      \<or> (jid_server j \<noteq> Pn \<and>
          ((0 < jid_agent j \<and> renders_agent (jid_server j)) \<or> \<not> numeric_suffix 255 (jid_user j))))"

lemma unat_u16_le: "unat (d :: u16) \<le> 65535"
  using unsigned_less [of d, where 'a = nat] by simp


lemma unat_u8_le: "unat (a :: u8) \<le> 255"
  using unsigned_less [of a, where 'a = nat] by simp

lemma itoa_okD: "itoa_ok it \<Longrightarrow> it n = decimal n"
  by (simp add: itoa_ok_def)

lemma from_str_server_only: "from_str (server_as_str sv) = Inr (Jid [] sv 0 0 0)"
  by (simp add: from_str_def scan_server_only from_str_fallback_def)
    (metis server_try_from_as_str)

lemma from_str_at:
  assumes "64 \<notin> set X" "X \<noteq> []"
  shows "from_str (X @ 64 # srv) =
    (case fast_parts X srv of (u, a, d) \<Rightarrow>
       bindR (server_try_from srv) (\<lambda>sv. Inr (Jid u sv a d 0)))"
  using assms by (simp add: from_str_def parse_jid_fast_at split: prod.split)

lemma numeric_suffix_split: "\<not> numeric_suffix mx u \<Longrightarrow> split_numeric mx u = (u, 0)"
  by (auto simp: numeric_suffix_def split_numeric_def split: option.splits sum.splits)

lemma split_numeric_decimal: "n \<le> mx \<Longrightarrow> mx \<le> 65535 \<Longrightarrow> split_numeric mx (u @ 46 # decimal n) = (u, n)"
  by (simp add: split_numeric_def)

lemma split_device_decimal: "split_device (u @ 58 # decimal (unat d)) = (u, d)"
  by (simp add: split_device_def parse_device_or_0_def unat_u16_le)

lemma split_device_none: "58 \<notin> set u \<Longrightarrow> split_device u = (u, 0)"
  by (simp add: split_device_def)

definition agent_part :: "str jid \<Rightarrow> str" where
  "agent_part j = (if 0 < jid_agent j \<and> renders_agent (jid_server j) then 46 # decimal (unat (jid_agent j)) else [])"

definition device_part :: "str jid \<Rightarrow> str" where
  "device_part j = (if 0 < jid_device j then 58 # decimal (unat (jid_device j)) else [])"

lemma part_seps [simp]: "64 \<notin> set (agent_part j)" "58 \<notin> set (agent_part j)" "64 \<notin> set (device_part j)"
  by (auto simp: agent_part_def device_part_def)

lemma to_string_parts:
  "itoa_ok it \<Longrightarrow> jid_user j \<noteq> [] \<Longrightarrow>
   to_string it j = (jid_user j @ agent_part j @ device_part j) @ 64 # server_as_str (jid_server j)"
  by (simp add: to_string_alt agent_part_def device_part_def itoa_okD)

lemma server_str_lid: "server_as_str sv = HIDDEN_USER_SERVER \<longleftrightarrow> sv = Lid"
  using server_as_str_inj [of sv Lid] by simp

lemma server_str_pn: "server_as_str sv = DEFAULT_USER_SERVER \<longleftrightarrow> sv = Pn"
  using server_as_str_inj [of sv Pn] by simp

lemma split_agent:
  assumes "(0 < jid_agent j \<and> renders_agent (jid_server j)) \<or> \<not> numeric_suffix 255 (jid_user j)"
  shows "split_numeric 255 (jid_user j @ agent_part j) =
    (jid_user j, if renders_agent (jid_server j) then unat (jid_agent j) else 0)"
  using assms by (auto simp: agent_part_def unat_u8_le split_numeric_decimal numeric_suffix_split word_gt_0)

lemma fast_parts_displayed:
  assumes dev: "split_device (jid_user j @ agent_part j @ device_part j) = (jid_user j @ agent_part j, jid_device j)"
    and no58: "58 \<notin> set (jid_user j @ agent_part j)"
    and safe: "display_safe j"
  shows "fast_parts (jid_user j @ agent_part j @ device_part j) (server_as_str (jid_server j)) =
      (jid_user j, if renders_agent (jid_server j) then jid_agent j else 0, jid_device j)"
proof -
  consider "jid_server j = Lid" | "jid_server j = Pn" | "jid_server j \<noteq> Lid" "jid_server j \<noteq> Pn" by blast
  then show ?thesis
  proof cases
    case 1
    with dev show ?thesis
      unfolding fast_parts_def server_str_lid by (simp add: agent_part_def renders_agent_def)
  next
    case 2
    then have A: "agent_part j = []" by (simp add: agent_part_def renders_agent_def)
    show ?thesis
    proof (cases "0 < jid_device j")
      case True
      then have "58 \<in> set (jid_user j @ agent_part j @ device_part j)" by (simp add: device_part_def)
      with 2 dev A show ?thesis
        unfolding fast_parts_def server_str_lid server_str_pn by (simp add: renders_agent_def)
    next
      case False
      with 2 safe no58 A show ?thesis
        unfolding fast_parts_def server_str_lid server_str_pn
        by (simp add: renders_agent_def device_part_def display_safe_def numeric_suffix_split word_gt_0)
    qed
  next
    case 3
    with safe have "split_numeric 255 (jid_user j @ agent_part j) =
        (jid_user j, if renders_agent (jid_server j) then unat (jid_agent j) else 0)"
      by (intro split_agent) (simp add: display_safe_def)
    with 3 dev show ?thesis
      unfolding fast_parts_def server_str_lid server_str_pn by simp
  qed
qed

lemma roundtrip:
  assumes "itoa_ok it" and "display_safe j"
  shows "from_str (to_string it j) = Inr (displayed j)"
proof (cases "jid_user j = []")
  case True
  then show ?thesis by (simp add: to_string_alt displayed_def from_str_server_only)
next
  case False
  let ?u = "jid_user j" and ?sv = "jid_server j"
  have no58: "58 \<notin> set (?u @ agent_part j)" and no64: "64 \<notin> set (?u @ agent_part j @ device_part j)"
    using assms(2) by (auto simp: display_safe_def)
  have dev: "split_device (?u @ agent_part j @ device_part j) = (?u @ agent_part j, jid_device j)"
    using split_device_none [OF no58] split_device_decimal [of "?u @ agent_part j" "jid_device j"]
    by (auto simp: device_part_def word_gt_0 simp flip: append_assoc)
  have "fast_parts (?u @ agent_part j @ device_part j) (server_as_str ?sv) =
      (?u, if renders_agent ?sv then jid_agent j else 0, jid_device j)"
    using assms(2) fast_parts_displayed [OF dev no58] by simp
  moreover have "?u @ agent_part j @ device_part j \<noteq> []" using False by simp
  ultimately show ?thesis
    unfolding to_string_parts [OF assms(1) False]
    using from_str_at [OF no64, of "server_as_str ?sv"] False by (simp add: displayed_def)
qed

text \<open>C29: for a JID that is safe to display, parsing the display form gives back the JID,
  with the parts the display form does not carry (the integrator, the agent of a server that hides
  it, everything but the server when there is no user) at zero.  Safe to display means: the user contains neither
  \<open>@\<close> nor \<open>:\<close>, and unless the server is \<open>lid\<close> the user does not end in a dot and a number that the parser would
  take for a device (server \<open>s.whatsapp.net\<close>, device 0) or an agent (other servers, when no agent is shown).\<close>

theorem jid_display_roundtrip:
  assumes "itoa_ok it" and "display_safe j"
  shows "from_str (to_string it j) = Inr (displayed j)"
  using assms by (rule roundtrip)


lemma itoa_ok_decimal: "itoa_ok decimal"
  by (simp add: itoa_ok_def)

theorem jid_display_roundtrip_witness:
  "from_str (to_string decimal (Jid [49, 50] Bot 5 10 7)) = Inr (Jid [49, 50] Bot 5 10 0)"
  using jid_display_roundtrip [OF itoa_ok_decimal, of "Jid [49, 50] Bot 5 10 7"]
  by (simp add: display_safe_def displayed_def renders_agent_def)

subsection \<open>The fast path against the full parser\<close>

text \<open>What the fast path takes for granted of the part before \<open>@\<close>.\<close>

definition well_formed_user :: "str \<Rightarrow> str \<Rightarrow> bool" where
  "well_formed_user X srv \<longleftrightarrow>
     X \<noteq> [] \<and> 64 \<notin> set X \<and>
     (case rsplit_once 58 X of None \<Rightarrow> True | Some (_, ds) \<Rightarrow> ok (parse_u16 ds) \<noteq> None) \<and>
     (srv = DEFAULT_USER_SERVER \<longrightarrow> 58 \<in> set X \<or> \<not> numeric_suffix 65535 X) \<and>
     (srv \<noteq> DEFAULT_USER_SERVER \<and> srv \<noteq> HIDDEN_USER_SERVER \<longrightarrow>
        numeric_suffix 65535 (fst (split_device X)) \<longrightarrow> numeric_suffix 255 (fst (split_device X)))"

lemma fallback_device:
  assumes "case rsplit_once 58 X of None \<Rightarrow> True | Some (_, ds) \<Rightarrow> ok (parse_u16 ds) \<noteq> None"
  shows "(case rsplit_once 58 X of
            Some (u, d_str) \<Rightarrow>
              (case parse_u16 d_str of Inr d \<Rightarrow> Inr (u, of_nat d) | Inl e \<Rightarrow> Inl (ParseError e))
          | None \<Rightarrow> Inr (X, 0)) = (Inr (split_device X) :: jid_error + _)"
  using assms
  by (auto simp: split_device_def parse_device_or_0_def split: option.splits sum.splits)

lemma fallback_agent:
  assumes "numeric_suffix 65535 u \<longrightarrow> numeric_suffix 255 u"
  shows "(case rsplit_once 46 u of
            Some (u', last_part) \<Rightarrow>
              (case parse_u16 last_part of
                 Inr num_val \<Rightarrow>
                   if num_val > 255
                   then Inl (InvalidFormat (lit ''Agent component out of range: '' @ decimal num_val))
                   else Inr (u', of_nat num_val)
               | Inl _ \<Rightarrow> Inr (u, 0))
          | None \<Rightarrow> Inr (u, 0)) =
    (Inr (case split_numeric 255 u of (u', v) \<Rightarrow> (u', of_nat v)) :: jid_error + _)"
  using assms parse_uint_bound [of 65535 "snd (the (rsplit_once 46 u))"]
  by (cases "parse_u16 (snd (the (rsplit_once 46 u)))")
    (auto simp: numeric_suffix_def split_numeric_def split: option.splits)

text \<open>On a user part whose device suffix is a number and whose agent
  suffix is in range, the fast path of \<open>Jid::from_str\<close> gives the result of the full
  parser behind it.\<close>

theorem fast_path_agrees:
  assumes "well_formed_user X srv"
  shows "from_str (X @ 64 # srv) = from_str_fallback (X @ 64 # srv)"
proof -
  have X: "X \<noteq> []" "64 \<notin> set X" using assms by (auto simp: well_formed_user_def)
  have dev: "(case rsplit_once 58 X of
            Some (u, d_str) \<Rightarrow>
              (case parse_u16 d_str of Inr d \<Rightarrow> Inr (u, of_nat d) | Inl e \<Rightarrow> Inl (ParseError e))
          | None \<Rightarrow> Inr (X, 0)) = (Inr (split_device X) :: jid_error + _)"
    using assms by (intro fallback_device) (simp add: well_formed_user_def)
  obtain u d where ud: "split_device X = (u, d)" by (cases "split_device X")
  consider "srv = HIDDEN_USER_SERVER" | "srv = DEFAULT_USER_SERVER"
    | "srv \<noteq> HIDDEN_USER_SERVER" "srv \<noteq> DEFAULT_USER_SERVER" by blast
  then show ?thesis
  proof cases
    case 1
    then show ?thesis
      using X ud unfolding from_str_at [OF X(2,1)] from_str_fallback_def
      by (simp add: dev fast_parts_def)
  next
    case 2
    with assms have "58 \<notin> set X \<Longrightarrow> \<not> numeric_suffix 65535 X"
      by (simp add: well_formed_user_def)
    with 2 show ?thesis
      using X ud unfolding from_str_at [OF X(2,1)] from_str_fallback_def
      by (cases "58 \<in> set X") (simp_all add: dev fast_parts_def numeric_suffix_split split_device_none)
  next
    case 3
    with assms have "numeric_suffix 65535 u \<longrightarrow> numeric_suffix 255 u"
      using ud by (simp add: well_formed_user_def)
    note agent = fallback_agent [OF this]
    show ?thesis
      using 3 X ud unfolding from_str_at [OF X(2,1)] from_str_fallback_def
      by (simp add: dev agent fast_parts_def split: prod.split)
  qed
qed

text \<open>C40: a device suffix that is not a number in range is an
  error of the full parser, and is read as device 0 by \<open>Jid::from_str\<close>, whatever the
  server.\<close>

theorem fast_path_hides_device_error:
  assumes "rsplit_once 58 X = Some (u, ds)" and "parse_u16 ds = Inl e" and "64 \<notin> set X"
  shows "(\<exists>j. from_str (X @ 64 # server_as_str sv) = Inr j \<and> jid_server j = sv \<and> jid_device j = 0) \<and>
    from_str_fallback (X @ 64 # server_as_str sv) = Inl (ParseError e)"
proof -
  have X: "58 \<in> set X" "X \<noteq> []"
    using assms(1) by (auto simp: rsplit_once_def rfind_char_def split: if_splits)
  have "split_device X = (u, 0)"
    using assms by (simp add: split_device_def parse_device_or_0_def)
  then have "\<exists>w a. fast_parts X (server_as_str sv) = (w, a, 0)"
    using X by (simp add: fast_parts_def split: prod.split)
  then show ?thesis
    using X assms by (auto simp: from_str_at from_str_fallback_def)
qed

theorem fast_path_hides_device_error_witness:
  "rsplit_once 58 [49, 58, 120] = Some ([49], [120]) \<and> parse_u16 [120] = Inl InvalidDigit \<and>
   from_str_fallback ([49, 58, 120] @ 64 # server_as_str Lid) = Inl (ParseError InvalidDigit)"
proof -
  have h: "rsplit_once 58 [49, 58, 120] = Some ([49], [120])" "parse_u16 [120] = Inl InvalidDigit"
    by (simp_all add: rsplit_once_def rfind_char_def parse_uint_def is_ascii_digit_def)
  with fast_path_hides_device_error [OF h, of Lid] show ?thesis by simp
qed

subsection \<open>Chats and privacy\<close>

lemma display_inj:
  assumes "itoa_ok it" "display_safe a" "display_safe b" "to_string it a = to_string it b"
  shows "displayed a = displayed b"
  using roundtrip [OF assms(1,2)] roundtrip [OF assms(1,3)] assms(4) by simp

lemma jid_with_device [simp]:
  "jid_user (with_device j d) = jid_user j" "jid_server (with_device j d) = jid_server j"
  "jid_agent (with_device j d) = jid_agent j" "jid_device (with_device j d) = d"
  "jid_integrator (with_device j d) = jid_integrator j"
  by (simp_all add: with_device_def)

text \<open>C39: two JIDs with non-empty users that are safe to display once the device is
  dropped (no \<open>@\<close> or \<open>:\<close> in the user, and no dot and number at its end that reads as device or agent) are the same chat
  exactly when they agree on the integrator and have the same display form without device.\<close>

theorem same_chat_iff_same_display:
  assumes "itoa_ok it" and "display_safe (with_device a 0)" and "display_safe (with_device b 0)"
    and "jid_user a \<noteq> []" and "jid_user b \<noteq> []"
  shows "is_same_chat_as a b \<longleftrightarrow>
    jid_integrator a = jid_integrator b \<and> to_string it (with_device a 0) = to_string it (with_device b 0)"
proof
  assume "is_same_chat_as a b"
  then show "jid_integrator a = jid_integrator b \<and>
      to_string it (with_device a 0) = to_string it (with_device b 0)"
    by (auto simp: is_same_chat_as_def to_string_alt)
next
  assume r: "jid_integrator a = jid_integrator b \<and>
      to_string it (with_device a 0) = to_string it (with_device b 0)"
  with display_inj [OF assms(1-3)] have "displayed (with_device a 0) = displayed (with_device b 0)"
    by simp
  with r assms(4,5) show "is_same_chat_as a b"
    by (auto simp: displayed_def is_same_chat_as_def split: if_splits)
qed

theorem same_chat_iff_same_display_witness:
  "is_same_chat_as (Jid [49, 50] Lid 3 4 0) (Jid [49, 50] Lid 0 9 0) \<and>
   to_string decimal (with_device (Jid [49, 50] Lid 3 4 0) 0) =
     to_string decimal (with_device (Jid [49, 50] Lid 0 9 0) 0)"
proof -
  have "is_same_chat_as (Jid [49, 50] Lid 3 4 0) (Jid [49, 50] Lid 0 9 0)"
    by (simp add: is_same_chat_as_def renders_agent_def)
  with same_chat_iff_same_display [OF itoa_ok_decimal, of "Jid [49, 50] Lid 3 4 0" "Jid [49, 50] Lid 0 9 0"]
  show ?thesis by (simp add: display_safe_def)
qed

text \<open>C30: built without the feature \<open>tracing-pii\<close>, what is logged of a JID of a phone-number server depends on
  the number only through its keyed token, and the same holds for the creator's number in a
  legacy group or broadcast JID.\<close>

theorem observed_hides_phone_number:
  assumes "observe_token p = observe_token q" and "p \<noteq> []" and "q \<noteq> []"
  shows "(carries_phone_number sv \<longrightarrow>
      observed_jid_fmt False it observe_token (Jid p sv a d i) = observed_jid_fmt False it observe_token (Jid q sv a d i)) \<and>
    (list_all is_ascii_digit p \<and> list_all is_ascii_digit q \<and> sv \<in> {Group, Broadcast} \<longrightarrow>
      observed_jid_fmt False it observe_token (Jid (p @ 45 # t) sv a d i) =
      observed_jid_fmt False it observe_token (Jid (q @ 45 # t) sv a d i))"
proof -
  have no45: "list_all is_ascii_digit r \<Longrightarrow> 45 \<notin> set r" for r
    by (auto simp: list_all_iff is_ascii_digit_def)
  show ?thesis
    using assms by (auto simp: observed_jid_fmt_def observed_user_def no45 carries_phone_number_def)
qed

theorem observed_hides_phone_number_witness:
  "observed_jid_fmt False decimal (\<lambda>s. of_nat (length s)) (Jid [49, 50] Pn 0 4 0) =
     observed_jid_fmt False decimal (\<lambda>s. of_nat (length s)) (Jid [51, 52] Pn 0 4 0) \<and>
   observed_jid_fmt False decimal (\<lambda>s. of_nat (length s)) (Jid ([49, 50] @ 45 # [53]) Group 0 0 0) =
     observed_jid_fmt False decimal (\<lambda>s. of_nat (length s)) (Jid ([51, 52] @ 45 # [53]) Group 0 0 0)"
  using observed_hides_phone_number [where p = "[49, 50]" and q = "[51, 52]" and sv = Pn and a = 0
      and d = 4 and i = 0 and it = decimal and observe_token = "\<lambda>s. of_nat (length s)"]
    observed_hides_phone_number [where p = "[49, 50]" and q = "[51, 52]" and sv = Group and a = 0
      and d = 0 and i = 0 and t = "[53]" and it = decimal and observe_token = "\<lambda>s. of_nat (length s)"]
  by (simp add: carries_phone_number_def is_ascii_digit_def word_le_nat_alt)

text \<open>\<open>Display\<close>, with its stack buffer and its fallback, never panics and appends
  the string of \<open>push_to\<close>; the non-AD form is the display form of \<open>to_non_ad\<close>.\<close>

theorem jid_renderers_agree:
  assumes "itoa_ok it" and "str_ok (jid_user j)"
  shows "jid_fmt it j f = Inr (push_to it j f) \<and>
    to_non_ad_string it j = to_string it (to_non_ad j) \<and>
    push_to it j f = f @ to_string it j"
  using assms
  by (simp add: jid_fmt_to_string to_string_def push_to_def to_non_ad_string_def to_non_ad_def
      push_jid_append [of it _ _ _ _ f])

end
