(* ===== verification/Token.thy ===== *)
theory Token
  imports Prelude
begin

text \<open>
  The token dictionaries (\<open>binary/src/token.rs\<close>, \<open>binary/build.rs\<close>).  The build script
  reads the word lists of \<open>tokens.json\<close>, refuses a word that occurs twice, and generates
  the two index arrays and a compile-time map from words to tokens.  The word lists and the
  generated map are parameters of the model, collected in the record \<open>tables\<close>; \<open>tables_ok\<close>
  says that the map answers as the list of entries the build script emits, and the shape
  of the word lists (236 single-byte words with the empty word first, at most four
  dictionaries of at most 256 words).  The map is a macro of the crate \<open>hashify\<close>.
\<close>

section \<open>Constants\<close>

abbreviation LIST_EMPTY :: u8 where "LIST_EMPTY \<equiv> 0"
abbreviation DICTIONARY_0 :: u8 where "DICTIONARY_0 \<equiv> 236"
abbreviation DICTIONARY_3 :: u8 where "DICTIONARY_3 \<equiv> 239"
abbreviation INTEROP_JID :: u8 where "INTEROP_JID \<equiv> 245"
abbreviation FB_JID :: u8 where "FB_JID \<equiv> 246"
abbreviation AD_JID :: u8 where "AD_JID \<equiv> 247"
abbreviation LIST_8 :: u8 where "LIST_8 \<equiv> 248"
abbreviation LIST_16 :: u8 where "LIST_16 \<equiv> 249"
abbreviation JID_PAIR :: u8 where "JID_PAIR \<equiv> 250"
abbreviation HEX_8 :: u8 where "HEX_8 \<equiv> 251"
abbreviation BINARY_8 :: u8 where "BINARY_8 \<equiv> 252"
abbreviation BINARY_20 :: u8 where "BINARY_20 \<equiv> 253"
abbreviation BINARY_32 :: u8 where "BINARY_32 \<equiv> 254"
abbreviation NIBBLE_8 :: u8 where "NIBBLE_8 \<equiv> 255"

abbreviation PACKED_MAX :: nat where "PACKED_MAX \<equiv> 127"

section \<open>The generated tables\<close>

datatype token_kind = Single u8 | Double u8 u8

record tables =
  single_byte_tokens :: "str list"
  double_byte_tokens :: "str list list"
  hashify_lookup :: "str \<Rightarrow> token_kind option"

text \<open>One iteration of the build script: empty words are skipped, a duplicate stops the build.\<close>

definition add_token ::
    "(str \<times> token_kind) list \<Rightarrow> str \<Rightarrow> token_kind \<Rightarrow> (unit, (str \<times> token_kind) list) res" where
  "add_token vals w k =
     (if w = [] then Inr vals
      else if w \<in> fst ` set vals then Inl Panic
      else Inr (vals @ [(w, k)]))"

fun add_tokens ::
    "(str \<times> token_kind) list \<Rightarrow> (str \<times> token_kind) list \<Rightarrow> (unit, (str \<times> token_kind) list) res" where
  "add_tokens vals [] = Inr vals"
| "add_tokens vals ((w, k) # es) = bindR (add_token vals w k) (\<lambda>vals. add_tokens vals es)"

definition single_entries :: "str list \<Rightarrow> (str \<times> token_kind) list" where
  "single_entries ws = map (\<lambda>(i, w). (w, Single (of_nat i))) (enumerate 0 ws)"

definition double_entries :: "str list list \<Rightarrow> (str \<times> token_kind) list" where
  "double_entries ds =
     concat (map (\<lambda>(d, ws). map (\<lambda>(i, w). (w, Double (of_nat d) (of_nat i))) (enumerate 0 ws))
       (enumerate 0 ds))"

definition build_values ::
    "str list \<Rightarrow> str list list \<Rightarrow> (unit, (str \<times> token_kind) list) res" where
  "build_values single double =
     bindR (add_tokens [] (single_entries single)) (\<lambda>vals. add_tokens vals (double_entries double))"

definition index_of_token :: "tables \<Rightarrow> str \<Rightarrow> token_kind option" where
  "index_of_token T w = hashify_lookup T w"

definition get_single_token :: "tables \<Rightarrow> u8 \<Rightarrow> str option" where
  "get_single_token T i =
     (if unat i < length (single_byte_tokens T) then Some (single_byte_tokens T ! unat i) else None)"

definition get_double_token :: "tables \<Rightarrow> u8 \<Rightarrow> u8 \<Rightarrow> str option" where
  "get_double_token T d i =
     (if unat d < length (double_byte_tokens T) then
        let ws = double_byte_tokens T ! unat d in
        if unat i < length ws then Some (ws ! unat i) else None
      else None)"

definition tables_ok :: "tables \<Rightarrow> bool" where
  "tables_ok T \<longleftrightarrow>
     (\<exists>vals. build_values (single_byte_tokens T) (double_byte_tokens T) = Inr vals \<and>
        hashify_lookup T = map_of vals) \<and>
     length (single_byte_tokens T) \<le> 236 \<and>
     (single_byte_tokens T = [] \<or> hd (single_byte_tokens T) = []) \<and>
     length (double_byte_tokens T) \<le> 4 \<and>
     list_all (\<lambda>ws. length ws \<le> 256) (double_byte_tokens T) \<and>
     list_all str_ok (single_byte_tokens T) \<and>
     list_all (list_all str_ok) (double_byte_tokens T)"

section \<open>Lemmas\<close>

lemma add_token_Inr:
  "add_token vals w k = Inr vals' \<Longrightarrow> set vals' \<subseteq> insert (w, k) (set vals)"
  by (auto simp: add_token_def split: if_splits)

lemma add_token_nonempty:
  "add_token vals w k = Inr vals' \<Longrightarrow> [] \<notin> fst ` set vals \<Longrightarrow> [] \<notin> fst ` set vals'"
  by (auto simp: add_token_def split: if_splits)

lemma add_tokens_Inr:
  "add_tokens vals es = Inr vals' \<Longrightarrow> [] \<notin> fst ` set vals \<Longrightarrow>
   set vals' \<subseteq> set vals \<union> set es \<and> [] \<notin> fst ` set vals'"
proof (induction vals es rule: add_tokens.induct)
  case (2 vals w k es)
  then obtain v where v: "add_token vals w k = Inr v" "add_tokens v es = Inr vals'" by auto
  from 2(1) [OF v(2)] add_token_nonempty [OF v(1) 2(3)] add_token_Inr [OF v(1)]
  show ?case by auto
qed auto

lemma build_values_Inr:
  assumes "build_values s d = Inr vals"
  shows "set vals \<subseteq> set (single_entries s) \<union> set (double_entries d)" and "[] \<notin> fst ` set vals"
proof -
  from assms obtain v where v: "add_tokens [] (single_entries s) = Inr v"
      "add_tokens v (double_entries d) = Inr vals"
    by (auto simp: build_values_def)
  show "set vals \<subseteq> set (single_entries s) \<union> set (double_entries d)" "[] \<notin> fst ` set vals"
    using add_tokens_Inr [OF v(1)] add_tokens_Inr [OF v(2)] by auto
qed

lemma single_entries_mem:
  "(w, k) \<in> set (single_entries ws) \<longleftrightarrow> (\<exists>i < length ws. w = ws ! i \<and> k = Single (of_nat i))"
  by (auto simp: single_entries_def in_set_enumerate_eq)

lemma double_entries_mem:
  "(w, k) \<in> set (double_entries ds) \<longleftrightarrow>
     (\<exists>d < length ds. \<exists>i < length (ds ! d). w = ds ! d ! i \<and> k = Double (of_nat d) (of_nat i))"
  by (fastforce simp: double_entries_def in_set_enumerate_eq)

lemma lookup_entries:
  assumes "tables_ok T" "index_of_token T w = Some k"
  shows "w \<noteq> [] \<and> ((w, k) \<in> set (single_entries (single_byte_tokens T)) \<or>
    (w, k) \<in> set (double_entries (double_byte_tokens T)))"
proof -
  from assms obtain vals where v: "build_values (single_byte_tokens T) (double_byte_tokens T) = Inr vals"
    and l: "map_of vals w = Some k" by (auto simp: tables_ok_def index_of_token_def)
  from map_of_SomeD [OF l] have "(w, k) \<in> set vals" .
  with build_values_Inr [OF v] show ?thesis by force
qed

lemma lookup_empty: "tables_ok T \<Longrightarrow> index_of_token T [] = None"
  using lookup_entries [of T "[]"] by (cases "index_of_token T []") auto

lemma lookup_single:
  assumes "tables_ok T" "index_of_token T w = Some (Single t)"
  shows "get_single_token T t = Some w" and "0 < t" and "t < 236"
proof -
  from lookup_entries [OF assms] obtain i where i: "i < length (single_byte_tokens T)"
      "w = single_byte_tokens T ! i" "t = of_nat i" "w \<noteq> []"
    by (auto simp: single_entries_mem double_entries_mem)
  moreover have b: "length (single_byte_tokens T) \<le> 236" using assms(1) by (simp add: tables_ok_def)
  moreover have "i \<noteq> 0" using assms(1) i by (cases "single_byte_tokens T"; cases i) (auto simp: tables_ok_def)
  ultimately have u: "unat t = i" by (simp add: unat_of_nat take_bit_eq_mod)
  show "get_single_token T t = Some w" using u i by (simp add: get_single_token_def)
  show "0 < t" using u \<open>i \<noteq> 0\<close> by (simp add: word_less_nat_alt)
  show "t < 236" using u i b by (simp add: word_less_nat_alt)
qed

lemma lookup_double:
  assumes "tables_ok T" "index_of_token T w = Some (Double d t)"
  shows "get_double_token T d t = Some w" and "unat d < 4"
proof -
  let ?ds = "double_byte_tokens T"
  from lookup_entries [OF assms] obtain j i where i: "j < length ?ds" "i < length (?ds ! j)"
      "w = ?ds ! j ! i" "d = of_nat j" "t = of_nat i"
    by (auto simp: single_entries_mem double_entries_mem)
  moreover have b: "length ?ds \<le> 4" "length (?ds ! j) \<le> 256"
    using assms(1) i(1) by (auto simp: tables_ok_def list_all_length)
  ultimately have "unat d = j" "unat t = i"
    by (simp_all add: unat_of_nat take_bit_eq_mod)
  with i b show "get_double_token T d t = Some w" "unat d < 4"
    by (simp_all add: get_double_token_def)
qed

lemma get_single_ok: "tables_ok T \<Longrightarrow> get_single_token T i = Some w \<Longrightarrow> str_ok w"
  by (auto simp: tables_ok_def get_single_token_def list_all_length split: if_splits)

lemma get_double_ok: "tables_ok T \<Longrightarrow> get_double_token T d i = Some w \<Longrightarrow> str_ok w"
  by (auto simp: tables_ok_def get_double_token_def list_all_length Let_def split: if_splits)

lemma get_single_high: "tables_ok T \<Longrightarrow> 236 \<le> i \<Longrightarrow> get_single_token T i = None"
  by (auto simp: tables_ok_def get_single_token_def word_le_nat_alt)

section \<open>Properties\<close>

text \<open>The word a token stands for is the one it was looked up from, so decoding a
  token gives back the word; token bytes are never zero and stay below the reserved tags.\<close>

theorem token_tables_invert:
  assumes "tables_ok T" and "index_of_token T w = Some k"
  shows "case k of
      Single t \<Rightarrow> get_single_token T t = Some w \<and> LIST_EMPTY < t \<and> t < DICTIONARY_0
    | Double d t \<Rightarrow> get_double_token T d t = Some w \<and> DICTIONARY_0 + d \<le> DICTIONARY_3"
proof (cases k)
  case (Single t)
  with assms lookup_single [of T w t] show ?thesis by simp
next
  case (Double d t)
  with assms have g: "get_double_token T d t = Some w" "unat d < 4"
    using lookup_double [of T w d t] by auto
  then have "unat (236 + d) = 236 + unat d" by (simp add: unat_word_ariths)
  with g Double show ?thesis by (simp add: word_le_nat_alt)
qed

text \<open>A small instance: the build script accepts it and the laws hold.\<close>

definition sample_tables :: tables where
  "sample_tables =
     (let s = [[], lit ''s.whatsapp.net'', lit ''type'', lit ''to''];
          d = [[lit ''read-self'', lit ''active''], [lit ''reject'']]
      in \<lparr>single_byte_tokens = s, double_byte_tokens = d,
          hashify_lookup = map_of (case build_values s d of Inr v \<Rightarrow> v | Inl _ \<Rightarrow> [])\<rparr>)"

lemma token_literals [simp]:
  "lit ''s.whatsapp.net'' = [115, 46, 119, 104, 97, 116, 115, 97, 112, 112, 46, 110, 101, 116]"
  "lit ''type'' = [116, 121, 112, 101]" "lit ''to'' = [116, 111]"
  "lit ''read-self'' = [114, 101, 97, 100, 45, 115, 101, 108, 102]"
  "lit ''active'' = [97, 99, 116, 105, 118, 101]" "lit ''reject'' = [114, 101, 106, 101, 99, 116]"
  by (simp_all add: lit_simps)

lemma sample_values:
  "build_values (single_byte_tokens sample_tables) (double_byte_tokens sample_tables) =
     Inr [(lit ''s.whatsapp.net'', Single 1), (lit ''type'', Single 2), (lit ''to'', Single 3),
          (lit ''read-self'', Double 0 0), (lit ''active'', Double 0 1), (lit ''reject'', Double 1 0)]"
  by (simp add: sample_tables_def build_values_def single_entries_def double_entries_def add_token_def)

lemma sample_tables_ok: "tables_ok sample_tables"
proof -
  have "hashify_lookup sample_tables =
      map_of (case build_values (single_byte_tokens sample_tables) (double_byte_tokens sample_tables) of
        Inr v \<Rightarrow> v | Inl _ \<Rightarrow> [])"
    by (simp add: sample_tables_def Let_def)
  then have "\<exists>vals. build_values (single_byte_tokens sample_tables) (double_byte_tokens sample_tables) = Inr vals \<and>
      hashify_lookup sample_tables = map_of vals"
    using sample_values by simp
  then show ?thesis
    unfolding tables_ok_def by (simp add: sample_tables_def Let_def)
qed

end
