(* ===== verification/Node.thy ===== *)
theory Node
  imports Jid Token
begin

text \<open>
  Stanzas (\<open>binary/src/node.rs\<close>): attribute values, attribute lists, nodes, and the
  accessors the rest of the program uses.  The source has every type twice, owned
  (\<open>Node\<close>, \<open>Attrs\<close>, \<open>NodeValue\<close>, \<open>NodeContent\<close>) and borrowed (\<open>NodeRef\<close>, \<open>AttrsRef\<close>,
  \<open>ValueRef\<close>, \<open>NodeContentRef\<close>); the two differ in who owns the memory and are one type
  here, parametric in the strings.
\<close>

section \<open>Types\<close>

datatype 's node_value = VString 's | VJid "'s jid"

datatype 's node =
  Node (node_tag: 's) (node_attrs: "('s \<times> 's node_value) list") (node_content: "'s node_content option")
and 's node_content = CBytes "u8 list" | CString 's | CNodes "'s node list"

type_synonym 's attrs = "('s \<times> 's node_value) list"

section \<open>Attribute values\<close>

definition node_value_default :: "str node_value" where
  "node_value_default = VString []"

fun node_value_as_str :: "itoa \<Rightarrow> str node_value \<Rightarrow> str" where
  "node_value_as_str it (VString s) = s"
| "node_value_as_str it (VJid j) = to_string it j"

fun node_value_to_jid :: "str node_value \<Rightarrow> str jid option" where
  "node_value_to_jid (VJid j) = Some j"
| "node_value_to_jid (VString s) = ok (from_str s)"

fun value_as_jid :: "str node_value \<Rightarrow> str jid option" where
  "value_as_jid (VJid j) = Some j"
| "value_as_jid (VString _) = None"

definition node_value_from_bool :: "bool \<Rightarrow> str node_value" where
  "node_value_from_bool b = VString (if b then lit ''true'' else lit ''false'')"

definition node_value_from_uint :: "itoa \<Rightarrow> nat \<Rightarrow> str node_value" where
  "node_value_from_uint it n = VString (it n)"

text \<open>Comparison with a string, without building the display form.\<close>

record eq_check =
  eqc_target :: str
  eqc_pos :: nat
  eqc_matches :: bool

definition eqc_write_str :: "eq_check \<Rightarrow> str \<Rightarrow> eq_check option" where
  "eqc_write_str c s =
     (if \<not> eqc_matches c then Some c
      else
        let end' = eqc_pos c + length s;
            bad = (end' > length (eqc_target c) \<or> slice (eqc_target c) (eqc_pos c) end' \<noteq> s)
        in Some (c\<lparr>eqc_matches := (if bad then False else eqc_matches c), eqc_pos := end'\<rparr>))"

fun node_value_eq_str :: "itoa \<Rightarrow> str node_value \<Rightarrow> str \<Rightarrow> (jid_error, bool) res" where
  "node_value_eq_str it (VString s) other = Inr (s = other)"
| "node_value_eq_str it (VJid j) other =
     bindR (jid_fmt_to eqc_write_str it j \<lparr>eqc_target = other, eqc_pos = 0, eqc_matches = True\<rparr>)
       (\<lambda>r. case r of
              Some c \<Rightarrow> Inr (eqc_matches c \<and> eqc_pos c = length other)
            | None \<Rightarrow> Inl Panic)"

section \<open>Attribute lists\<close>

definition attrs_get :: "str attrs \<Rightarrow> str \<Rightarrow> str node_value option" where
  "attrs_get as k = map_option snd (find (\<lambda>(k', _). k' = k) as)"

definition contains_key :: "str attrs \<Rightarrow> str \<Rightarrow> bool" where
  "contains_key as k \<longleftrightarrow> list_ex (\<lambda>(k', _). k' = k) as"

fun attrs_insert :: "str attrs \<Rightarrow> str \<Rightarrow> str node_value \<Rightarrow> str attrs" where
  "attrs_insert [] k v = [(k, v)]"
| "attrs_insert ((k', v') # as) k v = (if k' = k then (k', v) # as else (k', v') # attrs_insert as k v)"

definition attrs_push :: "str attrs \<Rightarrow> str \<Rightarrow> str node_value \<Rightarrow> str attrs" where
  "attrs_push as k v = as @ [(k, v)]"

definition attrs_keys :: "str attrs \<Rightarrow> str list" where
  "attrs_keys as = map fst as"

section \<open>Nodes\<close>

definition node_children :: "str node \<Rightarrow> str node list option" where
  "node_children n = (case node_content n of Some (CNodes ns) \<Rightarrow> Some ns | _ \<Rightarrow> None)"

definition get_attr :: "str node \<Rightarrow> str \<Rightarrow> str node_value option" where
  "get_attr n k = attrs_get (node_attrs n) k"

definition get_optional_child :: "str node \<Rightarrow> str \<Rightarrow> str node option" where
  "get_optional_child n t =
     Option.bind (node_children n) (find (\<lambda>c. node_tag c = t))"

fun get_optional_child_by_tag :: "str node \<Rightarrow> str list \<Rightarrow> str node option" where
  "get_optional_child_by_tag n [] = Some n"
| "get_optional_child_by_tag n (t # ts) =
     (case node_children n of
        Some cs \<Rightarrow>
          (case find (\<lambda>c. node_tag c = t) cs of
             Some c \<Rightarrow> get_optional_child_by_tag c ts
           | None \<Rightarrow> None)
      | None \<Rightarrow> None)"

definition get_children_by_tag :: "str node \<Rightarrow> str \<Rightarrow> str node list" where
  "get_children_by_tag n t =
     filter (\<lambda>c. node_tag c = t) (case node_children n of Some cs \<Rightarrow> cs | None \<Rightarrow> [])"

definition content_bytes :: "str node \<Rightarrow> u8 list option" where
  "content_bytes n = (case node_content n of Some (CBytes b) \<Rightarrow> Some b | _ \<Rightarrow> None)"

definition content_str :: "str node \<Rightarrow> str option" where
  "content_str n = (case node_content n of Some (CString s) \<Rightarrow> Some s | _ \<Rightarrow> None)"

text \<open>\<open>to_owned\<close> replaces the tags and attribute names that are tokens by the dictionary's strings.\<close>

definition intern_cow :: "tables \<Rightarrow> str \<Rightarrow> str" where
  "intern_cow T s =
     (case index_of_token T s of
        Some kind \<Rightarrow>
          (case (case kind of Single i \<Rightarrow> get_single_token T i | Double d i \<Rightarrow> get_double_token T d i) of
             Some w \<Rightarrow> w
           | None \<Rightarrow> s)
      | None \<Rightarrow> s)"

fun node_to_owned :: "tables \<Rightarrow> str node \<Rightarrow> str node"
and content_to_owned :: "tables \<Rightarrow> str node_content \<Rightarrow> str node_content" where
  "node_to_owned T (Node t as c) =
     Node (intern_cow T t) (map (\<lambda>(k, v). (intern_cow T k, v)) as) (map_option (content_to_owned T) c)"
| "content_to_owned T (CBytes b) = CBytes b"
| "content_to_owned T (CString s) = CString s"
| "content_to_owned T (CNodes ns) = CNodes (map (node_to_owned T) ns)"

text \<open>The strings of a node, for the type's invariant and for size bounds.\<close>

fun value_strings :: "'s node_value \<Rightarrow> 's list" where
  "value_strings (VString s) = [s]"
| "value_strings (VJid j) = [jid_user j]"

fun node_strings :: "'s node \<Rightarrow> 's list"
and content_strings :: "'s node_content \<Rightarrow> 's list" where
  "node_strings (Node t as c) =
     t # concat (map (\<lambda>(k, v). k # value_strings v) as)
       @ (case c of None \<Rightarrow> [] | Some c \<Rightarrow> content_strings c)"
| "content_strings (CBytes b) = []"
| "content_strings (CString s) = [s]"
| "content_strings (CNodes ns) = concat (map node_strings ns)"

section \<open>Properties\<close>

lemma find_fst_map_of: "map_option snd (find (\<lambda>(k', _). k' = k) as) = map_of as k"
  by (induction as) auto

lemma attrs_get_map_of: "attrs_get as k = map_of as k"
  by (simp add: attrs_get_def find_fst_map_of)

lemma attrs_insert_map_of: "map_of (attrs_insert as k v) = (map_of as)(k \<mapsto> v)"
  by (induction as k v rule: attrs_insert.induct) auto

lemma attrs_insert_keys:
  "map fst (attrs_insert as k v) = (if k \<in> fst ` set as then map fst as else map fst as @ [k])"
  by (induction as k v rule: attrs_insert.induct) auto

text \<open>Inserting an attribute makes it the one found under its name, leaves the
  others and their order alone, and keeps the names distinct; pushing onto a list without
  the name does the same.\<close>

theorem attrs_insert_lookup:
  "attrs_get (attrs_insert as k v) k' = (if k' = k then Some v else attrs_get as k') \<and>
   attrs_keys (attrs_insert as k v) = (if contains_key as k then attrs_keys as else attrs_keys as @ [k]) \<and>
   distinct (attrs_keys (attrs_insert as k v)) = distinct (attrs_keys as) \<and>
   (\<not> contains_key as k \<longrightarrow> attrs_push as k v = attrs_insert as k v)"
proof -
  have c: "contains_key as k \<longleftrightarrow> k \<in> fst ` set as"
    by (force simp: contains_key_def list_ex_iff)
  have "k \<notin> fst ` set as \<Longrightarrow> attrs_push as k v = attrs_insert as k v"
    by (induction as k v rule: attrs_insert.induct) (auto simp: attrs_push_def)
  then show ?thesis
    by (simp add: c attrs_get_map_of attrs_insert_map_of attrs_keys_def attrs_insert_keys)
qed

lemma slice_prefix:
  assumes "take p t = c" "length c = p" "p \<le> length t" "p + length s \<le> length t"
    "slice t p (p + length s) = s"
  shows "take (p + length s) t = c @ s"
  using assms by (simp add: slice_def take_add)

text \<open>\<open>eqc_rel w c\<close>: the checker has seen the text \<open>c\<close>.\<close>

definition eqc_rel :: "str \<Rightarrow> eq_check \<Rightarrow> str \<Rightarrow> bool" where
  "eqc_rel t w c \<longleftrightarrow>
     eqc_target w = t \<and>
     (if eqc_matches w then eqc_pos w = length c \<and> length c \<le> length t \<and> take (length c) t = c
      else \<not> (\<exists>r. t = c @ r))"

lemma eqc_write_rel:
  assumes "eqc_rel t w c" "eqc_write_str w s = Some w'"
  shows "eqc_rel t w' (c @ s)"
proof (cases "eqc_matches w")
  case False
  with assms show ?thesis by (auto simp: eqc_rel_def eqc_write_str_def)
next
  case True
  with assms(1) have w: "eqc_target w = t" "eqc_pos w = length c" "length c \<le> length t" "take (length c) t = c"
    by (auto simp: eqc_rel_def)
  have pre: "(\<exists>r. t = (c @ s) @ r) \<longleftrightarrow>
      length c + length s \<le> length t \<and> slice t (length c) (length c + length s) = s"
    using w append_take_drop_id [of "length c + length s" t]
    by (auto simp: slice_def take_add) metis
  show ?thesis
    using assms(2) w True pre slice_prefix [of "length c" t c s]
    by (auto simp: eqc_rel_def eqc_write_str_def Let_def split: if_splits)
qed

interpretation eqc: fmt_write eqc_write_str "eqc_rel t" for t
  by unfold_locales (rule eqc_write_rel)

lemma eqc_total: "\<exists>w'. eqc_write_str w s = Some w'"
  by (simp add: eqc_write_str_def Let_def)

lemma write_jid_total:
  assumes "\<And>w s. \<exists>w'. ws w s = Some w'"
  shows "\<exists>w'. write_jid_fallible ws it u sv a d w = Some w'"
proof -
  obtain g where g: "\<And>w s. ws w s = Some (g w s)" using assms by metis
  show ?thesis by (auto simp: write_jid_fallible_def g)
qed

lemma eqc_rel_decides:
  assumes "eqc_rel t w c"
  shows "eqc_matches w \<and> eqc_pos w = length t \<longleftrightarrow> c = t"
  using assms by (auto simp: eqc_rel_def split: if_splits)

text \<open>Comparing an attribute value with a string agrees with comparing the
  string form of the value, for JIDs without building that form, and never panics.\<close>

theorem node_value_eq_display:
  assumes "itoa_ok it" and "list_all str_ok (value_strings v)"
  shows "node_value_eq_str it v other = Inr (node_value_as_str it v = other)"
proof (cases v)
  case (VString s)
  then show ?thesis by simp
next
  case (VJid j)
  let ?c0 = "\<lparr>eqc_target = other, eqc_pos = 0, eqc_matches = True\<rparr>"
  have r0: "eqc_rel other ?c0 []" by (simp add: eqc_rel_def)
  have "\<exists>w. jid_fmt_to eqc_write_str it j ?c0 = Inr (Some w) \<and> eqc_rel other w (to_string it j)"
  proof (cases "write_jid_fallible jsw_write_str it (jid_user j) (jid_server j) (jid_agent j)
             (jid_device j) jsw_new")
    case None
    obtain w where w: "write_jid_fallible eqc_write_str it (jid_user j) (jid_server j) (jid_agent j)
        (jid_device j) ?c0 = Some w"
      using write_jid_total [of eqc_write_str, OF eqc_total] by blast
    with None eqc.write_jid_contents [OF r0 w] show ?thesis
      by (simp add: jid_fmt_to_def to_string_def push_to_def)
  next
    case (Some b)
    have "utf8_valid (to_string it j)"
      using assms VJid by (intro utf8_valid_to_string) auto
    with Some stack_rendering [of it j b] obtain w where
      "eqc_write_str ?c0 (to_string it j) = Some w" "jsw_as_str b = Inr (to_string it j)"
      using eqc_total by blast
    with Some eqc_write_rel [OF r0] show ?thesis by (simp add: jid_fmt_to_def)
  qed
  with VJid eqc_rel_decides show ?thesis by auto
qed

lemma intern_id: "tables_ok T \<Longrightarrow> intern_cow T s = s"
  using lookup_single(1) [of T s] lookup_double(1) [of T s]
  by (auto simp: intern_cow_def split: option.splits token_kind.splits)

text \<open>Taking ownership of a decoded node, with its tags and attribute names interned
  in the token dictionaries, changes none of its text.\<close>

theorem node_to_owned_id:
  assumes "tables_ok T"
  shows "node_to_owned T n = n"
proof -
  have "node_to_owned T n = n" "content_to_owned T c = c" for c
    using assms
  proof (induction T n and T c rule: node_to_owned_content_to_owned.induct)
    case (1 T t as c)
    then show ?case by (cases c) (auto simp: intern_id map_idI)
  qed (auto simp: map_idI)
  then show ?thesis by simp
qed

text \<open>Following a path of tags is following its first tag and then the rest, and a
  child that is found is a child of its parent with the tag that was asked for.\<close>

theorem child_path_stepwise:
  "get_optional_child_by_tag n (ts @ us) =
     Option.bind (get_optional_child_by_tag n ts) (\<lambda>m. get_optional_child_by_tag m us) \<and>
   get_optional_child_by_tag n [t] = get_optional_child n t \<and>
   (case get_optional_child n t of
      Some c \<Rightarrow> c = hd (get_children_by_tag n t) \<and> c \<in> set (get_children_by_tag n t)
    | None \<Rightarrow> get_children_by_tag n t = [])"
proof -
  have 1: "get_optional_child_by_tag n (ts @ us) =
     Option.bind (get_optional_child_by_tag n ts) (\<lambda>m. get_optional_child_by_tag m us)"
    by (induction n ts rule: get_optional_child_by_tag.induct) (auto split: option.splits)
  have 2: "get_optional_child_by_tag n [t] = get_optional_child n t"
    by (auto simp: get_optional_child_def split: option.splits)
  have f: "case find P xs of Some x \<Rightarrow> x = hd (filter P xs) \<and> x \<in> set (filter P xs) | None \<Rightarrow> filter P xs = []"
    for P :: "str node \<Rightarrow> bool" and xs
    by (induction xs) (auto split: option.splits)
  have 3: "case get_optional_child n t of
      Some c \<Rightarrow> c = hd (get_children_by_tag n t) \<and> c \<in> set (get_children_by_tag n t)
    | None \<Rightarrow> get_children_by_tag n t = []"
    using f [of "\<lambda>c. node_tag c = t" "the (node_children n)"]
    by (cases "node_children n"; cases "find (\<lambda>c. node_tag c = t) (the (node_children n))")
      (simp_all add: get_optional_child_def get_children_by_tag_def)
  from 1 2 3 show ?thesis by blast
qed

end
