(* ===== verification/Pack.thy ===== *)
theory Pack
  imports Jid Token
begin

text \<open>
  The error type of the binary crate (\<open>binary/src/error.rs\<close>) and the packed strings of the
  wire format: two characters per byte, for decimal strings with dash and dot and for
  upper-case hexadecimal strings (\<open>pack_*\<close> of \<open>encoder.rs\<close>, \<open>unpack_*\<close> and
  \<open>decode_packed_*\<close> of \<open>decoder.rs\<close>).  Both directions exist as a byte loop and, under the
  default feature \<open>simd\<close>, as a loop over blocks of sixteen lanes followed by the byte loop;
  the lanes are lists here and the portable-SIMD operations the code uses are functions on
  them.
\<close>

section \<open>Errors\<close>

datatype binary_error =
    Io | InvalidToken u8 | InvalidNode | NonStringKey | AttrParse str | MissingAttr str | InvalidUtf8
  | Zlib str | JidErr jid_error | UnexpectedEof | EmptyData | LeftoverData nat | AttrList "binary_error list"

type_synonym 'a bres = "(binary_error, 'a) res"

section \<open>Packing\<close>

definition is_upper_hex :: "u8 \<Rightarrow> bool" where
  "is_upper_hex b \<longleftrightarrow> 65 \<le> b \<and> b \<le> 70"

definition validate_nibble :: "str \<Rightarrow> bool" where
  "validate_nibble s \<longleftrightarrow>
     length s \<le> PACKED_MAX \<and> list_all (\<lambda>b. is_ascii_digit b \<or> b = 45 \<or> b = 46) s"

definition validate_hex :: "str \<Rightarrow> bool" where
  "validate_hex s \<longleftrightarrow>
     length s \<le> PACKED_MAX \<and> list_all (\<lambda>b. is_ascii_digit b \<or> is_upper_hex b) s"

definition pack_nibble :: "u8 \<Rightarrow> u8 bres" where
  "pack_nibble b =
     (if b = 45 then Inr 10
      else if b = 46 then Inr 11
      else if b = 0 then Inr 15
      else if is_ascii_digit b then Inr (b - 48)
      else Inl Panic)"

definition pack_hex :: "u8 \<Rightarrow> u8 bres" where
  "pack_hex b =
     (if is_ascii_digit b then Inr (b - 48)
      else if is_upper_hex b then Inr (10 + (b - 65))
      else if b = 0 then Inr 15
      else Inl Panic)"

definition pack_byte_pair :: "(u8 \<Rightarrow> u8 bres) \<Rightarrow> u8 \<Rightarrow> u8 \<Rightarrow> u8 bres" where
  "pack_byte_pair packer a b =
     bindR (packer a) (\<lambda>x. bindR (packer b) (\<lambda>y. Inr (push_bit 4 x OR y)))"

text \<open>Portable-SIMD operations on vectors of bytes.\<close>

definition saturating_sub :: "u8 \<Rightarrow> u8 \<Rightarrow> u8" where
  "saturating_sub a b = (if a < b then 0 else a - b)"

definition swizzle_dyn :: "u8 list \<Rightarrow> u8 list \<Rightarrow> u8 list" where
  "swizzle_dyn tbl idx = map (\<lambda>i. if unat i < length tbl then tbl ! unat i else 0) idx"

fun evens :: "'a list \<Rightarrow> 'a list" where
  "evens [] = []"
| "evens [x] = [x]"
| "evens (x # y # zs) = x # evens zs"

fun odds :: "'a list \<Rightarrow> 'a list" where
  "odds [] = []"
| "odds [x] = []"
| "odds (x # y # zs) = y # odds zs"

definition deinterleave :: "'a list \<Rightarrow> 'a list \<Rightarrow> 'a list \<times> 'a list" where
  "deinterleave xs ys = (evens (xs @ ys), odds (xs @ ys))"

definition interleave :: "'a list \<Rightarrow> 'a list \<Rightarrow> 'a list \<times> 'a list" where
  "interleave xs ys =
     (let zs = concat (map2 (\<lambda>x y. [x, y]) xs ys) in (take (length xs) zs, drop (length xs) zs))"

definition simd_join :: "u8 list \<Rightarrow> u8 list" where
  "simd_join nibbles =
     (let (es, os) = deinterleave nibbles (rotate1 nibbles)
      in take 8 (map2 (\<lambda>e d. push_bit 4 e OR d) es os))"

definition NIBBLE_PACK_LOOKUP :: "u8 list" where
  "NIBBLE_PACK_LOOKUP = [10, 11, 255, 0, 1, 2, 3, 4, 5, 6, 7, 8, 9, 255, 255, 255]"

definition simd_pack_nibble :: "u8 list \<Rightarrow> u8 list" where
  "simd_pack_nibble chunk =
     simd_join (swizzle_dyn NIBBLE_PACK_LOOKUP (map (\<lambda>b. saturating_sub b 45) chunk))"

definition simd_pack_hex :: "u8 list \<Rightarrow> u8 list" where
  "simd_pack_hex chunk =
     simd_join (map (\<lambda>b. if 65 \<le> b then b - 65 + 10 else b - 48) chunk)"

section \<open>Unpacking\<close>

definition unpack_nibble :: "u8 \<Rightarrow> u8 bres" where
  "unpack_nibble v =
     (if v \<le> 9 then Inr (48 + v)
      else if v = 10 then Inr 45
      else if v = 11 then Inr 46
      else if v = 15 then Inr 0
      else Inl (Err (InvalidToken v)))"

definition unpack_hex :: "u8 \<Rightarrow> u8 bres" where
  "unpack_hex v =
     (if v \<le> 9 then Inr (48 + v)
      else if v \<le> 15 then Inr (65 + v - 10)
      else Inl Panic)"

text \<open>The output buffer with its write position; a store past the end panics.\<close>

type_synonym outbuf = "u8 list \<times> nat"

fun put :: "outbuf \<Rightarrow> u8 \<Rightarrow> outbuf bres" where
  "put (out, pos) v = (if pos < length out then Inr (out[pos := v], Suc pos) else Inl Panic)"

fun put_slice :: "outbuf \<Rightarrow> u8 list \<Rightarrow> outbuf bres" where
  "put_slice (out, pos) vs =
     (if pos + length vs \<le> length out
      then Inr (take pos out @ vs @ drop (pos + length vs) out, pos + length vs)
      else Inl Panic)"

definition high_nibble :: "u8 \<Rightarrow> u8" where
  "high_nibble b = drop_bit 4 (b AND 0xF0)"

definition low_nibble :: "u8 \<Rightarrow> u8" where
  "low_nibble b = b AND 0x0F"

fun unpack_loop :: "(u8 \<Rightarrow> u8 bres) \<Rightarrow> u8 list \<Rightarrow> outbuf \<Rightarrow> outbuf bres" where
  "unpack_loop f [] st = Inr st"
| "unpack_loop f (b # bs) st =
     bindR (f (high_nibble b)) (\<lambda>h. bindR (put st h) (\<lambda>st.
     bindR (f (low_nibble b)) (\<lambda>l. bindR (put st l) (\<lambda>st.
     unpack_loop f bs st))))"

definition HEX_LOOKUP :: "u8 list" where
  "HEX_LOOKUP = lit ''0123456789ABCDEF''"

definition NIBBLE_LOOKUP :: "u8 list" where
  "NIBBLE_LOOKUP = lit ''0123456789-.'' @ [0, 0, 0, 0]"

definition simd_unpack_chunk :: "u8 list \<Rightarrow> u8 list \<Rightarrow> outbuf \<Rightarrow> outbuf bres" where
  "simd_unpack_chunk tbl chunk st =
     (let hs = map (\<lambda>b. drop_bit 4 b AND 0x0F) chunk; ls = map (\<lambda>b. b AND 0x0F) chunk;
          (lo, hi) = interleave (swizzle_dyn tbl hs) (swizzle_dyn tbl ls)
      in bindR (put_slice st lo) (\<lambda>st. put_slice st hi))"

function simd_hex_chunks :: "u8 list \<Rightarrow> outbuf \<Rightarrow> (u8 list \<times> outbuf) bres" where
  "simd_hex_chunks data st =
     (if length data < 16 then Inr (data, st)
      else bindR (simd_unpack_chunk HEX_LOOKUP (take 16 data) st) (\<lambda>st.
           simd_hex_chunks (drop 16 data) st))"
  by pat_completeness auto
termination by (relation "measure (\<lambda>(data, _). length data)") auto

declare simd_hex_chunks.simps [simp del]

definition nibble_valid :: "u8 \<Rightarrow> bool" where
  "nibble_valid v \<longleftrightarrow> v \<le> 11 \<or> v = 15"

fun check_nibbles :: "u8 list \<Rightarrow> unit bres" where
  "check_nibbles [] = Inr ()"
| "check_nibbles (b # bs) =
     bindR (unpack_nibble (high_nibble b)) (\<lambda>_. bindR (unpack_nibble (low_nibble b)) (\<lambda>_. check_nibbles bs))"

function simd_nibble_chunks :: "u8 list \<Rightarrow> outbuf \<Rightarrow> (u8 list \<times> outbuf) bres" where
  "simd_nibble_chunks data st =
     (if length data < 16 then Inr (data, st)
      else
        let chunk = take 16 data in
        if \<not> (list_all (\<lambda>b. nibble_valid (drop_bit 4 b AND 0x0F)) chunk \<and>
              list_all (\<lambda>b. nibble_valid (b AND 0x0F)) chunk)
        then bindR (check_nibbles chunk) (\<lambda>_. bindR (unpack_loop unpack_nibble chunk st) (\<lambda>st.
             simd_nibble_chunks (drop 16 data) st))
        else bindR (simd_unpack_chunk NIBBLE_LOOKUP chunk st) (\<lambda>st.
             simd_nibble_chunks (drop 16 data) st))"
  by pat_completeness auto
termination by (relation "measure (\<lambda>(data, _). length data)") auto

declare simd_nibble_chunks.simps [simp del]

definition decode_packed_hex :: "bool \<Rightarrow> u8 list \<Rightarrow> outbuf \<Rightarrow> outbuf bres" where
  "decode_packed_hex simd data st =
     (if simd then bindR (simd_hex_chunks data st) (\<lambda>(rest, st). unpack_loop unpack_hex rest st)
      else unpack_loop unpack_hex data st)"

definition decode_packed_nibble :: "bool \<Rightarrow> u8 list \<Rightarrow> outbuf \<Rightarrow> outbuf bres" where
  "decode_packed_nibble simd data st =
     (if simd then bindR (simd_nibble_chunks data st) (\<lambda>(rest, st). unpack_loop unpack_nibble rest st)
      else unpack_loop unpack_nibble data st)"

section \<open>Lemmas: nibbles\<close>

text \<open>Small words by enumeration.\<close>

lemma u8_range: "a \<le> unat (x :: u8) \<Longrightarrow> unat x < b \<Longrightarrow> x \<in> of_nat ` set [a..<b]"
proof -
  assume "a \<le> unat x" "unat x < b"
  moreover have "x = of_nat (unat x)" by simp
  ultimately show ?thesis by (metis atLeastLessThan_iff image_eqI set_upt)
qed

lemma u8_less_16_cases:
  "(x :: u8) < 16 \<Longrightarrow> x \<in> {0, 1, 2, 3, 4, 5, 6, 7, 8, 9, 10, 11, 12, 13, 14, 15}"
  using u8_range [of 0 x 16] by (simp add: word_less_nat_alt upt_rec)

lemma ascii_digit_cases:
  "is_ascii_digit b \<Longrightarrow> b \<in> {48, 49, 50, 51, 52, 53, 54, 55, 56, 57}"
  using u8_range [of 48 b 58] by (simp add: is_ascii_digit_def word_le_nat_alt upt_rec)

lemma upper_hex_cases:
  "is_upper_hex b \<Longrightarrow> b \<in> {65, 66, 67, 68, 69, 70}"
  using u8_range [of 65 b 71] by (simp add: is_upper_hex_def word_le_nat_alt upt_rec)

lemma nibble_bit: "(x :: u8) < 16 \<Longrightarrow> bit x n \<Longrightarrow> n < 4"
  using u8_less_16_cases [of x] by (auto simp: bit_simps numeral_2_eq_2 less_Suc_eq)


lemma high_nibble_alt: "high_nibble b = drop_bit 4 b AND 0x0F"
  by (simp add: high_nibble_def)

lemma nibble_parts_less [simp]: "high_nibble b < 16" "low_nibble b < 16"
  by (simp_all add: high_nibble_alt low_nibble_def and_mask4 word_less_nat_alt unsigned_take_bit_eq
      take_bit_nat_less_exp [where n = 4, simplified])

lemma join_nibbles:
  assumes "x < 16" "y < 16"
  shows "high_nibble (push_bit 4 x OR y) = x" "low_nibble (push_bit 4 x OR y) = y"
proof -
  have x: "bit x n \<Longrightarrow> n < 4" and y: "bit y n \<Longrightarrow> n < 4" for n
    using assms nibble_bit by auto
  show "high_nibble (push_bit 4 x OR y) = x"
    unfolding high_nibble_alt and_mask4
    by (rule bit_word_eqI) (auto simp: bit_simps dest: x y)
  show "low_nibble (push_bit 4 x OR y) = y"
    unfolding low_nibble_def and_mask4
    by (rule bit_word_eqI) (auto simp: bit_simps dest: x y)
qed


subsection \<open>What the packers compute\<close>

definition nibble_val :: "u8 \<Rightarrow> u8" where
  "nibble_val b = (if b = 45 then 10 else if b = 46 then 11 else if b = 0 then 15 else b - 48)"

definition hex_val :: "u8 \<Rightarrow> u8" where
  "hex_val b = (if b = 0 then 15 else if 65 \<le> b then b - 65 + 10 else b - 48)"

fun pack_pairs :: "(u8 \<Rightarrow> u8) \<Rightarrow> str \<Rightarrow> u8 list" where
  "pack_pairs f [] = []"
| "pack_pairs f [a] = [push_bit 4 (f a) OR f 0]"
| "pack_pairs f (a # b # r) = (push_bit 4 (f a) OR f b) # pack_pairs f r"

lemma pack_pairs_length [simp]: "length (pack_pairs f s) = (length s + 1) div 2"
  by (induction f s rule: pack_pairs.induct) auto

lemma nibble_char:
  assumes "is_ascii_digit b \<or> b = 45 \<or> b = 46"
  shows "pack_nibble b = Inr (nibble_val b)" and "nibble_val b < 16"
    and "unpack_nibble (nibble_val b) = Inr b" and "nibble_valid (nibble_val b)"
    and "swizzle_dyn NIBBLE_PACK_LOOKUP [saturating_sub b 45] = [nibble_val b]"
    and "b < 0x80"
  using assms ascii_digit_cases [of b]
  by (auto simp: pack_nibble_def nibble_val_def unpack_nibble_def nibble_valid_def swizzle_dyn_def
      saturating_sub_def NIBBLE_PACK_LOOKUP_def is_ascii_digit_def)

lemma hex_char:
  assumes "is_ascii_digit b \<or> is_upper_hex b"
  shows "pack_hex b = Inr (hex_val b)" and "hex_val b < 16"
    and "unpack_hex (hex_val b) = Inr b" and "(if 65 \<le> b then b - 65 + 10 else b - 48) = hex_val b"
    and "b < 0x80"
  using assms ascii_digit_cases [of b] upper_hex_cases [of b]
  by (auto simp: pack_hex_def hex_val_def unpack_hex_def is_ascii_digit_def is_upper_hex_def)

lemma pack_pad:
  "pack_nibble 0 = Inr (nibble_val 0)" "nibble_val 0 < 16" "unpack_nibble (nibble_val 0) = Inr 0"
  "pack_hex 0 = Inr (hex_val 0)" "hex_val 0 < 16" "unpack_hex (hex_val 0) = Inr 70"
  by (simp_all add: pack_nibble_def pack_hex_def nibble_val_def hex_val_def unpack_nibble_def
      unpack_hex_def is_ascii_digit_def is_upper_hex_def)

lemma list16:
  assumes "length xs = 16"
  obtains a b c d e f g h i j k l m n p q where "xs = [a, b, c, d, e, f, g, h, i, j, k, l, m, n, p, q]"
  using assms by (auto simp: numeral_eq_Suc length_Suc_conv)

lemma simd_join_pairs:
  assumes "length xs = 16"
  shows "simd_join (map f xs) = pack_pairs f xs"
  using assms by (elim list16) (simp add: simd_join_def deinterleave_def)

lemma swizzle_map: "swizzle_dyn t (map g xs) = map (\<lambda>x. hd (swizzle_dyn t [g x])) xs"
  by (simp add: swizzle_dyn_def)

lemma simd_pack_nibble_pairs:
  assumes "length xs = 16" "list_all (\<lambda>b. is_ascii_digit b \<or> b = 45 \<or> b = 46) xs"
  shows "simd_pack_nibble xs = pack_pairs nibble_val xs"
proof -
  have "map (\<lambda>x. hd (swizzle_dyn NIBBLE_PACK_LOOKUP [saturating_sub x 45])) xs = map nibble_val xs"
    using assms(2) nibble_char(5) by (auto simp: list_all_iff)
  then have "simd_pack_nibble xs = simd_join (map nibble_val xs)"
    unfolding simd_pack_nibble_def swizzle_map by (rule arg_cong)
  then show ?thesis by (simp add: simd_join_pairs [OF assms(1)])
qed

lemma simd_pack_hex_pairs:
  assumes "length xs = 16" "list_all (\<lambda>b. is_ascii_digit b \<or> is_upper_hex b) xs"
  shows "simd_pack_hex xs = pack_pairs hex_val xs"
proof -
  have "map (\<lambda>b. if 65 \<le> b then b - 65 + 10 else b - 48) xs = map hex_val xs"
    using assms(2) hex_char(4) by (auto simp: list_all_iff)
  then have "simd_pack_hex xs = simd_join (map hex_val xs)"
    unfolding simd_pack_hex_def by (rule arg_cong)
  then show ?thesis by (simp add: simd_join_pairs [OF assms(1)])
qed

lemma pack_pairs_append:
  "even (length xs) \<Longrightarrow> pack_pairs f (xs @ ys) = pack_pairs f xs @ pack_pairs f ys"
  by (induction f xs rule: pack_pairs.induct) auto

subsection \<open>What the unpackers compute\<close>

fun unpack_list :: "(u8 \<Rightarrow> u8 bres) \<Rightarrow> u8 list \<Rightarrow> u8 list bres" where
  "unpack_list f [] = Inr []"
| "unpack_list f (b # bs) =
     bindR (f (high_nibble b)) (\<lambda>h. bindR (f (low_nibble b)) (\<lambda>l.
     mapR (\<lambda>r. h # l # r) (unpack_list f bs)))"

definition store :: "outbuf \<Rightarrow> u8 list \<Rightarrow> outbuf" where
  "store st cs = (take (snd st) (fst st) @ cs @ drop (snd st + length cs) (fst st), snd st + length cs)"

lemma unpack_list_length: "unpack_list f bs = Inr cs \<Longrightarrow> length cs = 2 * length bs"
  by (induction bs arbitrary: cs) auto

lemma put_store: "pos < length out \<Longrightarrow> put (out, pos) v = Inr (store (out, pos) [v])"
  by (simp add: store_def upd_conv_take_nth_drop)

lemma store_store:
  "snd st + length cs \<le> length (fst st) \<Longrightarrow> store (store st cs) ds = store st (cs @ ds)"
  by (simp add: store_def ac_simps)

lemma store_room: "snd st + length cs \<le> length (fst st) \<Longrightarrow> length (fst (store st cs)) = length (fst st)"
  by (simp add: store_def)

lemma snd_store [simp]: "snd (store st cs) = snd st + length cs"
  by (simp add: store_def)

lemma put_store': "snd st < length (fst st) \<Longrightarrow> put st v = Inr (store st [v])"
  using put_store by (cases st) simp

lemma unpack_loop_list:
  "snd st + 2 * length bs \<le> length (fst st) \<Longrightarrow>
   unpack_loop f bs st = mapR (store st) (unpack_list f bs)"
proof (induction f bs st rule: unpack_loop.induct)
  case (1 f st)
  then show ?case by (cases st) (simp add: store_def)
next
  case (2 f b bs st)
  show ?case
  proof (cases "f (high_nibble b)")
    case (Inr h)
    note h = Inr
    show ?thesis
    proof (cases "f (low_nibble b)")
      case (Inr l)
      have p1: "put st h = Inr (store st [h])"
        and p2: "put (store st [h]) l = Inr (store st [h, l])"
        using 2(2) by (simp_all add: put_store' store_room store_store)
      have "unpack_loop f bs (store st [h, l]) = mapR (store (store st [h, l])) (unpack_list f bs)"
        using 2(2) by (intro 2(1)) (simp add: store_room)
      then show ?thesis
        using h Inr p1 p2 2(2) by (cases "unpack_list f bs") (simp_all add: store_store)
    qed (use h 2(2) in \<open>simp add: put_store'\<close>)
  qed simp
qed

lemma unpack_list_append:
  "unpack_list f (xs @ ys) = bindR (unpack_list f xs) (\<lambda>a. mapR ((@) a) (unpack_list f ys))"
  by (induction xs) (auto simp: mapR_def bindR_assoc)

lemma unpack_list_total:
  "(\<And>b. b \<in> set bs \<Longrightarrow> f (high_nibble b) = Inr (g (high_nibble b)) \<and> f (low_nibble b) = Inr (g (low_nibble b)))
   \<Longrightarrow> unpack_list f bs = Inr (concat (map (\<lambda>b. [g (high_nibble b), g (low_nibble b)]) bs))"
  by (induction bs) auto


lemma put_slice_store: "snd st + length cs \<le> length (fst st) \<Longrightarrow> put_slice st cs = Inr (store st cs)"
  by (cases st) (simp add: store_def)

lemma interleave_concat:
  assumes "length xs = length ys" "interleave xs ys = (lo, hi)"
  shows "lo @ hi = concat (map2 (\<lambda>x y. [x, y]) xs ys)" and "length lo + length hi = 2 * length xs"
proof -
  have len: "length (concat (map2 (\<lambda>x y. [x, y]) xs ys)) = 2 * length xs"
    using assms(1) by (induction xs ys rule: list_induct2) auto
  show e: "lo @ hi = concat (map2 (\<lambda>x y. [x, y]) xs ys)"
    using assms(2) by (auto simp: interleave_def Let_def)
  show "length lo + length hi = 2 * length xs"
    using len by (simp flip: e)
qed

lemma simd_unpack_chunk_loop:
  assumes room: "snd st + 2 * length chunk \<le> length (fst st)"
    and agree: "\<And>v. v < 16 \<Longrightarrow> P v \<Longrightarrow> f v = Inr (hd (swizzle_dyn tbl [v]))"
    and valid: "list_all (\<lambda>b. P (high_nibble b) \<and> P (low_nibble b)) chunk"
  shows "simd_unpack_chunk tbl chunk st = unpack_loop f chunk st"
proof -
  let ?g = "\<lambda>v. hd (swizzle_dyn tbl [v])"
  let ?hs = "swizzle_dyn tbl (map high_nibble chunk)" and ?ls = "swizzle_dyn tbl (map low_nibble chunk)"
  obtain lo hi where i: "interleave ?hs ?ls = (lo, hi)" by (cases "interleave ?hs ?ls")
  have len: "length ?hs = length ?ls" "length ?hs = length chunk" by (simp_all add: swizzle_dyn_def)
  have cs: "concat (map2 (\<lambda>x y. [x, y]) ?hs ?ls) =
      concat (map (\<lambda>b. [?g (high_nibble b), ?g (low_nibble b)]) chunk)"
    by (induction chunk) (simp_all add: swizzle_dyn_def)
  have "unpack_list f chunk = Inr (concat (map (\<lambda>b. [?g (high_nibble b), ?g (low_nibble b)]) chunk))"
    using valid agree by (intro unpack_list_total) (auto simp: list_all_iff)
  with interleave_concat [OF len(1) i] cs have ul: "unpack_list f chunk = Inr (lo @ hi)" by simp
  have "simd_unpack_chunk tbl chunk st = bindR (put_slice st lo) (\<lambda>st. put_slice st hi)"
    using i by (simp add: simd_unpack_chunk_def high_nibble_alt [abs_def] low_nibble_def [abs_def])
  also have "\<dots> = Inr (store st (lo @ hi))"
    using room interleave_concat(2) [OF len(1) i] len(2)
    by (simp add: put_slice_store store_room store_store)
  finally show ?thesis using ul room by (simp add: unpack_loop_list)
qed

lemma hex_table: "v < 16 \<Longrightarrow> True \<Longrightarrow> unpack_hex v = Inr (hd (swizzle_dyn HEX_LOOKUP [v]))"
  using u8_less_16_cases [of v]
  by (auto simp: unpack_hex_def swizzle_dyn_def HEX_LOOKUP_def lit_simps)

lemma nibble_table: "v < 16 \<Longrightarrow> nibble_valid v \<Longrightarrow> unpack_nibble v = Inr (hd (swizzle_dyn NIBBLE_LOOKUP [v]))"
  using u8_less_16_cases [of v]
  by (auto simp: unpack_nibble_def swizzle_dyn_def NIBBLE_LOOKUP_def nibble_valid_def lit_simps)

lemma unpack_nibble_valid: "v < 16 \<Longrightarrow> nibble_valid v \<longleftrightarrow> (\<exists>c. unpack_nibble v = Inr c)"
  using u8_less_16_cases [of v]
  by (auto simp: unpack_nibble_def nibble_valid_def)

lemma unpack_loop_append:
  "unpack_loop f (xs @ ys) st = bindR (unpack_loop f xs st) (unpack_loop f ys)"
proof (induction f xs st rule: unpack_loop.induct)
  case (2 f b bs st)
  then have "unpack_loop f (bs @ ys) = (\<lambda>st. bindR (unpack_loop f bs st) (unpack_loop f ys))"
    by blast
  then show ?case by (simp add: bindR_assoc)
qed simp


lemma unpack_loop_room:
  assumes "unpack_loop f xs st = Inr st'" "snd st + 2 * length xs \<le> length (fst st)"
  shows "length (fst st') = length (fst st)" and "snd st' = snd st + 2 * length xs"
proof -
  from assms obtain cs where "unpack_list f xs = Inr cs" "st' = store st cs"
    by (auto simp: unpack_loop_list)
  with assms(2) show "length (fst st') = length (fst st)" "snd st' = snd st + 2 * length xs"
    by (simp_all add: unpack_list_length store_room)
qed

lemma simd_hex_loop:
  "snd st + 2 * length data \<le> length (fst st) \<Longrightarrow>
   bindR (simd_hex_chunks data st) (\<lambda>(rest, st). unpack_loop unpack_hex rest st) =
   unpack_loop unpack_hex data st"
proof (induction data st rule: simd_hex_chunks.induct)
  case (1 data st)
  show ?case
  proof (cases "length data < 16")
    case True
    then show ?thesis by (subst simd_hex_chunks.simps) simp
  next
    case False
    let ?x = "unpack_loop unpack_hex (take 16 data) st"
    have c: "simd_unpack_chunk HEX_LOOKUP (take 16 data) st = ?x"
      using 1(2) False hex_table
      by (intro simd_unpack_chunk_loop [where P = "\<lambda>_. True"]) (auto simp: list_all_iff)
    have IH: "?x = Inr st' \<Longrightarrow>
        bindR (simd_hex_chunks (drop 16 data) st') (\<lambda>(rest, st). unpack_loop unpack_hex rest st) =
        unpack_loop unpack_hex (drop 16 data) st'" for st'
      using 1(2) False unpack_loop_room [of unpack_hex "take 16 data" st st']
      by (intro 1(1)) auto
    have "unpack_loop unpack_hex data st = bindR ?x (unpack_loop unpack_hex (drop 16 data))"
      using unpack_loop_append [of unpack_hex "take 16 data" "drop 16 data"] by simp
    then show ?thesis
      using False c IH by (subst simd_hex_chunks.simps) (cases ?x, simp_all add: bindR_assoc)
  qed
qed

lemma check_nibbles_fails:
  "\<not> list_all (\<lambda>b. nibble_valid (high_nibble b) \<and> nibble_valid (low_nibble b)) bs \<Longrightarrow>
   \<exists>e. check_nibbles bs = Inl e \<and> unpack_list unpack_nibble bs = Inl e"
proof (induction bs)
  case (Cons b bs)
  show ?case
  proof (cases "unpack_nibble (high_nibble b)")
    case (Inr h)
    note h = Inr
    show ?thesis
    proof (cases "unpack_nibble (low_nibble b)")
      case (Inr l)
      with h Cons show ?thesis using unpack_nibble_valid [of "high_nibble b"] unpack_nibble_valid [of "low_nibble b"]
        by auto
    qed (use h in auto)
  qed auto
qed simp

lemma simd_nibble_loop:
  "snd st + 2 * length data \<le> length (fst st) \<Longrightarrow>
   bindR (simd_nibble_chunks data st) (\<lambda>(rest, st). unpack_loop unpack_nibble rest st) =
   unpack_loop unpack_nibble data st"
proof (induction data st rule: simd_nibble_chunks.induct)
  case (1 data st)
  let ?c = "take 16 data" and ?x = "unpack_loop unpack_nibble (take 16 data) st"
  let ?v = "list_all (\<lambda>b. nibble_valid (high_nibble b) \<and> nibble_valid (low_nibble b)) ?c"
  have v: "?v \<longleftrightarrow> list_all (\<lambda>b. nibble_valid (drop_bit 4 b AND 0x0F)) ?c \<and>
      list_all (\<lambda>b. nibble_valid (b AND 0x0F)) ?c"
    by (auto simp: list_all_iff high_nibble_alt low_nibble_def)
  have split: "unpack_loop unpack_nibble data st = bindR ?x (unpack_loop unpack_nibble (drop 16 data))"
    using unpack_loop_append [of unpack_nibble "take 16 data" "drop 16 data"] by simp
  consider "length data < 16" | "16 \<le> length data" "?v" | "16 \<le> length data" "\<not> ?v" by fastforce
  then show ?case
  proof cases
    case 1
    then show ?thesis by (subst simd_nibble_chunks.simps) simp
  next
    case 2
    have c: "simd_unpack_chunk NIBBLE_LOOKUP ?c st = ?x"
      using 1(3) 2 nibble_table by (intro simd_unpack_chunk_loop [where P = nibble_valid]) auto
    have IH: "?x = Inr st' \<Longrightarrow>
        bindR (simd_nibble_chunks (drop 16 data) st') (\<lambda>(rest, st). unpack_loop unpack_nibble rest st) =
        unpack_loop unpack_nibble (drop 16 data) st'" for st'
      using 1(3) 2 v unpack_loop_room [of unpack_nibble ?c st st']
      by (intro 1(2)) auto
    show ?thesis
      unfolding split using 2 c v IH by (subst simd_nibble_chunks.simps) (cases ?x, simp_all add: bindR_assoc Let_def)
  next
    case 3
    from check_nibbles_fails [OF 3(2)] obtain e where e: "check_nibbles ?c = Inl e"
        "unpack_list unpack_nibble ?c = Inl e" by blast
    then have "?x = Inl e" using 1(3) 3 by (simp add: unpack_loop_list)
    then show ?thesis
      unfolding split using 3 v e by (subst simd_nibble_chunks.simps) (simp add: Let_def)
  qed
qed


text \<open>The decoded characters when every nibble came from a packer.\<close>

lemma unpack_pack_pairs:
  assumes "\<And>b. b \<in> set s \<Longrightarrow> v b < 16 \<and> f (v b) = Inr b" "v 0 < 16" "f (v 0) = Inr p"
  shows "unpack_list f (pack_pairs v s) = Inr (s @ (if odd (length s) then [p] else []))"
  using assms by (induction v s rule: pack_pairs.induct) (auto simp: join_nibbles)

section \<open>Properties\<close>

text \<open>With room for the output, the vectorised unpackers give the result of the
  byte loops, errors included, on every input.\<close>

theorem simd_unpack_agrees:
  assumes "pos + 2 * length data \<le> length out"
  shows "decode_packed_hex True data (out, pos) = decode_packed_hex False data (out, pos) \<and>
    decode_packed_nibble True data (out, pos) = decode_packed_nibble False data (out, pos)"
  using assms simd_hex_loop [of "(out, pos)" data] simd_nibble_loop [of "(out, pos)" data]
  by (simp add: decode_packed_hex_def decode_packed_nibble_def)

text \<open>On sixteen characters of a validated string, a step of the vectorised
  packer gives the eight bytes of the byte loop.\<close>

theorem simd_pack_agrees:
  assumes "length chunk = 16"
  shows "(validate_nibble chunk \<longrightarrow> map Inr (simd_pack_nibble chunk) =
      map2 (pack_byte_pair pack_nibble) (evens chunk) (odds chunk)) \<and>
    (validate_hex chunk \<longrightarrow> map Inr (simd_pack_hex chunk) =
      map2 (pack_byte_pair pack_hex) (evens chunk) (odds chunk))"
proof -
  have pairs: "even (length xs) \<Longrightarrow> (\<And>b. b \<in> set xs \<Longrightarrow> f b = Inr (v b)) \<Longrightarrow>
      map Inr (pack_pairs v xs) = map2 (pack_byte_pair f) (evens xs) (odds xs)" for f v and xs :: str
    by (induction v xs rule: pack_pairs.induct) (auto simp: pack_byte_pair_def)
  show ?thesis
    using assms pairs [of chunk pack_nibble nibble_val] pairs [of chunk pack_hex hex_val]
      nibble_char(1) hex_char(1)
    by (auto simp: validate_nibble_def validate_hex_def list_all_iff simd_pack_nibble_pairs simd_pack_hex_pairs)
qed

end
