(* ===== verification/Hints.thy ===== *)
theory Hints
  imports Node Pack
begin

text \<open>
  How the encoder decides on the wire form of a string (\<open>binary/src/encoder.rs\<close>:
  \<open>parse_jid_meta\<close>, \<open>classify_string_hint\<close>, \<open>StringHintCache\<close>).

  The cache is keyed by the address and the length of a string, so strings here are what
  they are in the machine: slices of a memory (\<open>str_ref\<close>), with \<open>deref\<close> reading their bytes.
  Two slices with the same address and length then have the same text as long as the memory
  does not change, which is what the source relies on.  The display strings of the servers
  are constants of the program; their addresses are a parameter.
\<close>

section \<open>Strings in memory\<close>

datatype str_ref = StrRef (sr_ptr: nat) (sr_len: nat)

record ctx =
  cx_tables :: tables
  cx_simd :: bool
  cx_mem :: "nat \<Rightarrow> u8"
  cx_server :: "server \<Rightarrow> str_ref"

definition deref :: "ctx \<Rightarrow> str_ref \<Rightarrow> str" where
  "deref cx s = map (cx_mem cx) [sr_ptr s ..< sr_ptr s + sr_len s]"

definition ctx_ok :: "ctx \<Rightarrow> bool" where
  "ctx_ok cx \<longleftrightarrow> tables_ok (cx_tables cx) \<and> (\<forall>sv. deref cx (cx_server cx sv) = server_as_str sv)"

text \<open>\<open>&s[..i]\<close> and \<open>&s[i..]\<close>, which panic inside a character.\<close>

definition is_char_boundary :: "str \<Rightarrow> nat \<Rightarrow> bool" where
  "is_char_boundary s i \<longleftrightarrow> i = 0 \<or> i = length s \<or> (i < length s \<and> \<not> utf8_cont (s ! i))"

definition slice_to :: "ctx \<Rightarrow> str_ref \<Rightarrow> nat \<Rightarrow> str_ref bres" where
  "slice_to cx s i =
     (if is_char_boundary (deref cx s) i then Inr (StrRef (sr_ptr s) i) else Inl Panic)"

definition slice_from :: "ctx \<Rightarrow> str_ref \<Rightarrow> nat \<Rightarrow> str_ref bres" where
  "slice_from cx s i =
     (if is_char_boundary (deref cx s) i then Inr (StrRef (sr_ptr s + i) (sr_len s - i)) else Inl Panic)"

record str_key =
  sk_ptr :: nat
  sk_len :: nat

definition str_key_from_str :: "str_ref \<Rightarrow> str_key" where
  "str_key_from_str s = \<lparr>sk_ptr = sr_ptr s, sk_len = sr_len s\<rparr>"

section \<open>Classification\<close>

record parsed_jid_meta =
  pm_user_end :: nat
  pm_server_start :: nat
  pm_domain_type :: u8
  pm_device :: "u8 option"

datatype string_hint =
    HEmpty | HSingleToken u8 | HDoubleToken u8 u8 | HPackedNibble | HPackedHex | HJid parsed_jid_meta | HRawBytes

definition server_to_domain_type :: "server \<Rightarrow> u8" where
  "server_to_domain_type s =
     (case s of Pn \<Rightarrow> 0 | Lid \<Rightarrow> 1 | Hosted \<Rightarrow> 128 | HostedLid \<Rightarrow> 129 | _ \<Rightarrow> 0)"

definition server_supports_ad_jid :: "server \<Rightarrow> bool" where
  "server_supports_ad_jid s \<longleftrightarrow> s = Pn \<or> s = Lid \<or> s = Hosted \<or> s = HostedLid"

definition parse_jid_meta :: "str \<Rightarrow> parsed_jid_meta option" where
  "parse_jid_meta s =
     (case find_char 64 s of
        None \<Rightarrow> None
      | Some sep_idx \<Rightarrow>
          let server_start = Suc sep_idx;
              server = drop server_start s;
              user_combined = take sep_idx s;
              (user_agent, device) =
                (case find_char 58 user_combined of
                   Some colon_idx \<Rightarrow>
                     (case parse_u8 (drop (Suc colon_idx) user_combined) of
                        Inr d \<Rightarrow> (take colon_idx user_combined, Some (of_nat d))
                      | Inl _ \<Rightarrow> (user_combined, None))
                 | None \<Rightarrow> (user_combined, None));
              user_end =
                (case find_char 95 user_agent of
                   Some underscore_idx \<Rightarrow>
                     if ok (parse_u8 (drop (Suc underscore_idx) user_agent)) \<noteq> None
                     then underscore_idx else length user_agent
                 | None \<Rightarrow> length user_agent);
              server_kind = ok (server_try_from server);
              domain_type =
                (case server_kind of
                   Some Pn \<Rightarrow> 0 | Some Lid \<Rightarrow> 1 | Some Hosted \<Rightarrow> 128 | Some HostedLid \<Rightarrow> 129 | _ \<Rightarrow> 0);
              device =
                (case server_kind of
                   Some k \<Rightarrow> if server_supports_ad_jid k then device else None
                 | None \<Rightarrow> None)
          in Some \<lparr>pm_user_end = user_end, pm_server_start = server_start,
                   pm_domain_type = domain_type, pm_device = device\<rparr>)"

definition classify_string_hint :: "tables \<Rightarrow> str \<Rightarrow> string_hint" where
  "classify_string_hint T s =
     (if s = [] then HEmpty
      else
        let is_likely_jid = length s \<le> 48 in
        (case index_of_token T s of
           Some (Single t) \<Rightarrow> HSingleToken t
         | Some (Double d t) \<Rightarrow> HDoubleToken d t
         | None \<Rightarrow>
             if validate_nibble s then HPackedNibble
             else if validate_hex s then HPackedHex
             else if is_likely_jid then
               (case parse_jid_meta s of None \<Rightarrow> HRawBytes | Some m \<Rightarrow> HJid m)
             else HRawBytes))"

definition split_jid_from_meta :: "ctx \<Rightarrow> str_ref \<Rightarrow> parsed_jid_meta \<Rightarrow> (str_ref \<times> str_ref) bres" where
  "split_jid_from_meta cx s m =
     bindR (slice_to cx s (pm_user_end m)) (\<lambda>u.
     bindR (slice_from cx s (pm_server_start m)) (\<lambda>v. Inr (u, v)))"

section \<open>The cache\<close>

type_synonym string_hint_cache = "(str_key \<times> string_hint) list"

abbreviation MAX_HINT_ENTRIES :: nat where "MAX_HINT_ENTRIES \<equiv> 96"

definition hint_for :: "string_hint_cache \<Rightarrow> str_ref \<Rightarrow> string_hint option" where
  "hint_for hints s = map_option snd (find (\<lambda>(k, _). k = str_key_from_str s) hints)"

definition hint_or_insert ::
    "ctx \<Rightarrow> string_hint_cache \<Rightarrow> str_ref \<Rightarrow> string_hint \<times> string_hint_cache" where
  "hint_or_insert cx hints s =
     (if sr_len s > PACKED_MAX then (HRawBytes, hints)
      else
        (case map_option snd (find (\<lambda>(k, _). k = str_key_from_str s) hints) of
           Some existing \<Rightarrow> (existing, hints)
         | None \<Rightarrow>
             let hint = classify_string_hint (cx_tables cx) (deref cx s) in
             (hint, if length hints < MAX_HINT_ENTRIES then hints @ [(str_key_from_str s, hint)] else hints)))"

text \<open>What a cache built over the current memory satisfies.\<close>

definition hints_ok :: "ctx \<Rightarrow> string_hint_cache \<Rightarrow> bool" where
  "hints_ok cx hints \<longleftrightarrow>
     length hints \<le> MAX_HINT_ENTRIES \<and>
     list_all (\<lambda>(k, h). sk_len k \<le> PACKED_MAX \<and>
       h = classify_string_hint (cx_tables cx) (deref cx (StrRef (sk_ptr k) (sk_len k)))) hints"

text \<open>The hint of a string by its text alone.\<close>

definition hint_of :: "tables \<Rightarrow> str \<Rightarrow> string_hint" where
  "hint_of T s = (if length s > PACKED_MAX then HRawBytes else classify_string_hint T s)"

section \<open>Lemmas\<close>

lemma deref_length [simp]: "length (deref cx s) = sr_len s"
  by (simp add: deref_def)

lemma deref_take: "i \<le> sr_len s \<Longrightarrow> deref cx (StrRef (sr_ptr s) i) = take i (deref cx s)"
  by (simp add: deref_def take_map)

lemma deref_drop: "i \<le> sr_len s \<Longrightarrow> deref cx (StrRef (sr_ptr s + i) (sr_len s - i)) = drop i (deref cx s)"
  by (simp add: deref_def drop_map)

lemma find_map_of: "map_option snd (find (\<lambda>(k, _). k = x) l) = map_of l x"
  by (induction l) auto

lemma hints_ok_lookup:
  assumes "hints_ok cx hints" "map_of hints (str_key_from_str s) = Some h"
  shows "sr_len s \<le> PACKED_MAX" and "h = classify_string_hint (cx_tables cx) (deref cx s)"
proof -
  from map_of_SomeD [OF assms(2)] assms(1)
  show "sr_len s \<le> PACKED_MAX" "h = classify_string_hint (cx_tables cx) (deref cx s)"
    by (auto simp: hints_ok_def list_all_iff str_key_from_str_def)
qed

lemma hint_for_ok:
  assumes "hints_ok cx hints" "hint_for hints s = Some h"
  shows "h = hint_of (cx_tables cx) (deref cx s)"
  using hints_ok_lookup [OF assms(1), of s h] assms(2) by (auto simp: hint_for_def find_map_of hint_of_def)

lemma hint_or_insert_ok:
  assumes "hints_ok cx hints"
  shows "fst (hint_or_insert cx hints s) = hint_of (cx_tables cx) (deref cx s)"
    and "hints_ok cx (snd (hint_or_insert cx hints s))"
  using assms hints_ok_lookup [OF assms, of s]
  by (auto simp: hint_or_insert_def find_map_of hint_of_def Let_def hints_ok_def str_key_from_str_def
      split: option.split)

lemma hints_ok_Nil: "hints_ok cx []"
  by (simp add: hints_ok_def)

text \<open>Where \<open>parse_jid_meta\<close> cuts.\<close>

lemma parse_jid_meta_cuts:
  assumes "parse_jid_meta s = Some m"
  obtains X srv where "s = X @ 64 # srv" "64 \<notin> set X" "pm_server_start m = Suc (length X)"
    "pm_user_end m \<le> length X"
    "pm_user_end m = length X \<or> X ! pm_user_end m = 58 \<or> X ! pm_user_end m = 95"
proof -
  from assms obtain i where i: "find_char 64 s = Some i"
    by (auto simp: parse_jid_meta_def split: option.splits)
  then obtain X srv where X: "s = X @ 64 # srv" "64 \<notin> set X" "i = length X"
    by (auto simp: find_char_Some)
  define ua where "ua = (case find_char 58 X of
      Some c \<Rightarrow> (case parse_u8 (drop (Suc c) X) of Inr d \<Rightarrow> take c X | Inl _ \<Rightarrow> X) | None \<Rightarrow> X)"
  have ua: "ua = X \<or> (\<exists>c. ua = take c X \<and> c < length X \<and> X ! c = 58)"
    by (auto simp: ua_def find_char_Some split: option.splits sum.splits)
  have m: "pm_server_start m = Suc (length X)"
    "pm_user_end m = (case find_char 95 ua of
       Some u \<Rightarrow> if ok (parse_u8 (drop (Suc u) ua)) \<noteq> None then u else length ua | None \<Rightarrow> length ua)"
    using assms X i unfolding parse_jid_meta_def ua_def
    by (auto simp: Let_def split: option.splits sum.splits if_splits)
  have "pm_user_end m = length ua \<or> (pm_user_end m < length ua \<and> ua ! pm_user_end m = 95)"
    unfolding m(2) by (auto simp: find_char_Some split: option.splits)
  with ua have "pm_user_end m \<le> length X \<and>
      (pm_user_end m = length X \<or> X ! pm_user_end m = 58 \<or> X ! pm_user_end m = 95)"
    by auto
  with X m that show thesis by blast
qed

lemma parse_jid_meta_shorter:
  assumes "parse_jid_meta s = Some m"
  shows "pm_user_end m < length s" and "length s - pm_server_start m < length s"
    and "pm_server_start m \<le> length s"
proof -
  from parse_jid_meta_cuts [OF assms] obtain X srv where "s = X @ 64 # srv"
    "pm_server_start m = Suc (length X)" "pm_user_end m \<le> length X" by blast
  then show "pm_user_end m < length s" "length s - pm_server_start m < length s"
    "pm_server_start m \<le> length s" by simp_all
qed

lemma classify_HJid: "classify_string_hint T s = HJid m \<Longrightarrow> parse_jid_meta s = Some m \<and> s \<noteq> [] \<and> length s \<le> 48"
  by (auto simp: classify_string_hint_def Let_def split: if_splits option.splits token_kind.splits)

lemma hint_of_HJid: "hint_of T s = HJid m \<Longrightarrow> parse_jid_meta s = Some m"
  using classify_HJid by (auto simp: hint_of_def split: if_splits)


lemma str_ok_take_ascii:
  assumes "str_ok s" "k < length s" "s ! k < 0x80"
  shows "str_ok (take k s)"
proof -
  have "s = take k s @ s ! k # drop (Suc k) s" using assms(2) by (rule id_take_nth_drop)
  with assms(1) utf8_valid_ascii_split [OF assms(3), of "take k s" "drop (Suc k) s"] show ?thesis by simp
qed

lemma parse_jid_meta_boundaries:
  assumes "parse_jid_meta s = Some m" "str_ok s"
  shows "is_char_boundary s (pm_user_end m)" and "is_char_boundary s (pm_server_start m)"
    and "str_ok (take (pm_user_end m) s)" and "str_ok (drop (pm_server_start m) s)"
    and "64 \<notin> set (take (pm_user_end m) s)"
proof -
  from parse_jid_meta_cuts [OF assms(1)] obtain X srv where X: "s = X @ 64 # srv" "64 \<notin> set X"
    and st: "pm_server_start m = Suc (length X)" and le: "pm_user_end m \<le> length X"
    and cut: "pm_user_end m = length X \<or> X ! pm_user_end m = 58 \<or> X ! pm_user_end m = 95" by blast
  let ?k = "pm_user_end m"
  have v: "str_ok X" "str_ok srv"
    using assms(2) X utf8_valid_ascii_split [of 64 X srv] by auto
  have k: "s ! ?k \<in> {64, 58, 95}" "?k < length s"
    using cut le X(1) by (auto simp: nth_append)
  then have asc: "s ! ?k < 0x80" by auto
  show "is_char_boundary s ?k" using k asc by (simp add: is_char_boundary_def)
  show "str_ok (take ?k s)" using str_ok_take_ascii [OF assms(2) k(2) asc] .
  show "64 \<notin> set (take ?k s)" using X le by (auto dest: in_set_takeD)
  show "str_ok (drop (pm_server_start m) s)" using X(1) st v by simp
  show "is_char_boundary s (pm_server_start m)"
    using X(1) st v utf8_valid_hd by (cases srv) (auto simp: is_char_boundary_def nth_append)
qed

lemma split_jid_from_meta_ok:
  assumes "parse_jid_meta (deref cx s) = Some m" "str_ok (deref cx s)"
  shows "\<exists>u v. split_jid_from_meta cx s m = Inr (u, v) \<and>
    deref cx u = take (pm_user_end m) (deref cx s) \<and> deref cx v = drop (pm_server_start m) (deref cx s) \<and>
    sr_len u < sr_len s \<and> sr_len v < sr_len s"
  using parse_jid_meta_boundaries [OF assms] parse_jid_meta_shorter [OF assms(1)]
  by (simp add: split_jid_from_meta_def slice_to_def slice_from_def deref_take deref_drop)

end
