(* ===== verification/Encoder.thy ===== *)
theory Encoder
  imports Hints
begin

text \<open>
  The encoder (\<open>binary/src/encoder.rs\<close>): byte writers, the operations of \<open>Encoder\<close> and the
  node traversal of \<open>EncodeNode\<close>, over an arbitrary byte writer; a reference that gives the
  bytes of a node as a function of its text alone (\<open>string_bytes\<close>, \<open>jid_bytes\<close>,
  \<open>node_bytes\<close>); and the proof that the encoder writes these bytes to every lawful writer,
  with and without a string-hint cache.

  \<open>Node\<close> and \<open>NodeRef\<close> are one type of the model, so the two implementations of
  \<open>EncodeNode\<close> are one definition.  The writer over \<open>std::io::Write\<close> is not modelled.
\<close>

section \<open>Byte writers\<close>

record 'w byte_writer =
  bw_write_u8 :: "'w \<Rightarrow> u8 \<Rightarrow> 'w bres"
  bw_write_bytes :: "'w \<Rightarrow> u8 list \<Rightarrow> 'w bres"

definition vec_writer :: "u8 list byte_writer" where
  "vec_writer = \<lparr>bw_write_u8 = (\<lambda>buffer v. Inr (buffer @ [v])),
                 bw_write_bytes = (\<lambda>buffer bs. Inr (buffer @ bs))\<rparr>"

record slice_byte_writer =
  sw_buffer :: "u8 list"
  sw_position :: nat

definition slice_writer :: "slice_byte_writer byte_writer" where
  "slice_writer =
     \<lparr>bw_write_u8 = (\<lambda>w v.
        if sw_position w \<ge> length (sw_buffer w) then Inl (Err UnexpectedEof)
        else Inr (w\<lparr>sw_buffer := (sw_buffer w)[sw_position w := v], sw_position := sw_position w + 1\<rparr>)),
      bw_write_bytes = (\<lambda>w bs.
        let end' = sw_position w + length bs in
        if end' > length (sw_buffer w) then Inl (Err UnexpectedEof)
        else Inr (w\<lparr>sw_buffer := take (sw_position w) (sw_buffer w) @ bs @ drop end' (sw_buffer w),
                    sw_position := end'\<rparr>))\<rparr>"

section \<open>The encoder\<close>

record 'w encoder =
  en_writer :: "'w byte_writer"
  en_hints :: "string_hint_cache option"
  en_ctx :: ctx

definition write_u8 :: "'w encoder \<Rightarrow> 'w \<Rightarrow> u8 \<Rightarrow> 'w bres" where
  "write_u8 E w v = bw_write_u8 (en_writer E) w v"

definition write_u16_be :: "'w encoder \<Rightarrow> 'w \<Rightarrow> u16 \<Rightarrow> 'w bres" where
  "write_u16_be E w v = bw_write_bytes (en_writer E) w (u16_to_be_bytes v)"

definition write_u32_be :: "'w encoder \<Rightarrow> 'w \<Rightarrow> u32 \<Rightarrow> 'w bres" where
  "write_u32_be E w v = bw_write_bytes (en_writer E) w (u32_to_be_bytes v)"

definition u20_bytes :: "u32 \<Rightarrow> u8 list" where
  "u20_bytes v = [ucast (drop_bit 16 v AND 0x0F), ucast (drop_bit 8 v AND 0xFF), ucast (v AND 0xFF)]"

definition write_u20_be :: "'w encoder \<Rightarrow> 'w \<Rightarrow> u32 \<Rightarrow> 'w bres" where
  "write_u20_be E w v = bw_write_bytes (en_writer E) w (u20_bytes v)"

definition write_raw_bytes :: "'w encoder \<Rightarrow> 'w \<Rightarrow> u8 list \<Rightarrow> 'w bres" where
  "write_raw_bytes E w bs = bw_write_bytes (en_writer E) w bs"

definition write_bytes_with_len :: "'w encoder \<Rightarrow> 'w \<Rightarrow> u8 list \<Rightarrow> 'w bres" where
  "write_bytes_with_len E w bs =
     (let len = length bs in
      bindR (if len < 256 then
               bindR (write_u8 E w BINARY_8) (\<lambda>w. write_u8 E w (of_nat len))
             else if len < 2 ^ 20 then
               bindR (write_u8 E w BINARY_20) (\<lambda>w. write_u20_be E w (of_nat len))
             else
               bindR (write_u8 E w BINARY_32) (\<lambda>w. write_u32_be E w (of_nat len)))
        (\<lambda>w. write_raw_bytes E w bs))"

text \<open>The packed forms: blocks of sixteen under \<open>simd\<close>, then pairs of bytes.\<close>

function write_chunks ::
    "'w encoder \<Rightarrow> (u8 list \<Rightarrow> u8 list) \<Rightarrow> 'w \<Rightarrow> str \<Rightarrow> ('w \<times> str) bres" where
  "write_chunks E pack w bs =
     (if length bs < 16 then Inr (w, bs)
      else bindR (write_raw_bytes E w (pack (take 16 bs))) (\<lambda>w. write_chunks E pack w (drop 16 bs)))"
  by pat_completeness auto
termination by (relation "measure (\<lambda>(_, _, _, bs). length bs)") auto

declare write_chunks.simps [simp del]

fun write_pairs :: "'w encoder \<Rightarrow> (u8 \<Rightarrow> u8 bres) \<Rightarrow> 'w \<Rightarrow> str \<Rightarrow> 'w bres" where
  "write_pairs E packer w [] = Inr w"
| "write_pairs E packer w [a] = bindR (pack_byte_pair packer a 0) (write_u8 E w)"
| "write_pairs E packer w (a # b # r) =
     bindR (pack_byte_pair packer a b) (\<lambda>v. bindR (write_u8 E w v) (\<lambda>w. write_pairs E packer w r))"

definition write_packed_bytes :: "'w encoder \<Rightarrow> 'w \<Rightarrow> str \<Rightarrow> u8 \<Rightarrow> 'w bres" where
  "write_packed_bytes E w s data_type =
     (if length s > PACKED_MAX then Inl Panic
      else
        bindR (write_u8 E w data_type) (\<lambda>w.
        let rounded_len = of_nat ((length s + 1) div 2) :: u8;
            rounded_len = (if odd (length s) then rounded_len OR 0x80 else rounded_len)
        in bindR (write_u8 E w rounded_len) (\<lambda>w.
        if data_type = NIBBLE_8 then
          bindR (if cx_simd (en_ctx E) then write_chunks E simd_pack_nibble w s else Inr (w, s))
            (\<lambda>(w, rest). write_pairs E pack_nibble w rest)
        else
          bindR (if cx_simd (en_ctx E) then write_chunks E simd_pack_hex w s else Inr (w, s))
            (\<lambda>(w, rest). write_pairs E pack_hex w rest))))"

text \<open>
  \<open>write_string\<close>, \<open>write_string_with_hint\<close> and \<open>write_jid_from_meta\<close> call each other; the
  last two take the recursive call as an argument.  A string is classified as a JID by its
  text and then cut into shorter strings, but a cached hint could say anything, so the
  recursion is bounded by the length of the string, and the bound is shown not to be reached
  under a cache built over the same memory.
\<close>

definition write_jid_from_meta ::
    "'w encoder \<Rightarrow> ('w \<Rightarrow> str_ref \<Rightarrow> 'w bres) \<Rightarrow> 'w \<Rightarrow> str_ref \<Rightarrow> parsed_jid_meta \<Rightarrow> 'w bres" where
  "write_jid_from_meta E write_string w jid meta =
     bindR (split_jid_from_meta (en_ctx E) jid meta) (\<lambda>(user, server).
     (case pm_device meta of
        Some device \<Rightarrow>
          bindR (write_u8 E w AD_JID) (\<lambda>w.
          bindR (write_u8 E w (pm_domain_type meta)) (\<lambda>w.
          bindR (write_u8 E w device) (\<lambda>w.
          write_string w user)))
      | None \<Rightarrow>
          bindR (write_u8 E w JID_PAIR) (\<lambda>w.
          bindR (if sr_len user = 0 then write_u8 E w LIST_EMPTY else write_string w user) (\<lambda>w.
          write_string w server))))"

definition write_string_with_hint ::
    "'w encoder \<Rightarrow> ('w \<Rightarrow> str_ref \<Rightarrow> 'w bres) \<Rightarrow> 'w \<Rightarrow> str_ref \<Rightarrow> string_hint \<Rightarrow> 'w bres" where
  "write_string_with_hint E write_string w s hint =
     (case hint of
        HEmpty \<Rightarrow> bindR (write_u8 E w BINARY_8) (\<lambda>w. write_u8 E w 0)
      | HSingleToken t \<Rightarrow> write_u8 E w t
      | HDoubleToken d t \<Rightarrow> bindR (write_u8 E w (DICTIONARY_0 + d)) (\<lambda>w. write_u8 E w t)
      | HPackedNibble \<Rightarrow> write_packed_bytes E w (deref (en_ctx E) s) NIBBLE_8
      | HPackedHex \<Rightarrow> write_packed_bytes E w (deref (en_ctx E) s) HEX_8
      | HJid m \<Rightarrow> write_jid_from_meta E write_string w s m
      | HRawBytes \<Rightarrow> write_bytes_with_len E w (deref (en_ctx E) s))"

definition write_string_uncached ::
    "'w encoder \<Rightarrow> ('w \<Rightarrow> str_ref \<Rightarrow> 'w bres) \<Rightarrow> 'w \<Rightarrow> str_ref \<Rightarrow> 'w bres" where
  "write_string_uncached E write_string w s =
     (if sr_len s > PACKED_MAX then write_bytes_with_len E w (deref (en_ctx E) s)
      else write_string_with_hint E write_string w s
             (classify_string_hint (cx_tables (en_ctx E)) (deref (en_ctx E) s)))"

fun write_string_fuel :: "nat \<Rightarrow> 'w encoder \<Rightarrow> 'w \<Rightarrow> str_ref \<Rightarrow> 'w bres" where
  "write_string_fuel 0 E w s = Inl OutOfFuel"
| "write_string_fuel (Suc n) E w s =
     (case (case en_hints E of Some hints \<Rightarrow> hint_for hints s | None \<Rightarrow> None) of
        Some hint \<Rightarrow> write_string_with_hint E (write_string_fuel n E) w s hint
      | None \<Rightarrow> write_string_uncached E (write_string_fuel n E) w s)"

definition write_string :: "'w encoder \<Rightarrow> 'w \<Rightarrow> str_ref \<Rightarrow> 'w bres" where
  "write_string E w s = write_string_fuel (Suc (sr_len s)) E w s"

definition write_jid_ref :: "'w encoder \<Rightarrow> 'w \<Rightarrow> str_ref jid \<Rightarrow> 'w bres" where
  "write_jid_ref E w j =
     (if 0 < jid_device j \<and> server_supports_ad_jid (jid_server j) then
        bindR (if unat (jid_device j) \<le> 255 then Inr (ucast (jid_device j))
               else Inl (Err (AttrParse (lit ''AD_JID device id out of range: '' @ decimal (unat (jid_device j))))))
        (\<lambda>device.
        bindR (write_u8 E w AD_JID) (\<lambda>w.
        bindR (write_u8 E w (server_to_domain_type (jid_server j))) (\<lambda>w.
        bindR (write_u8 E w device) (\<lambda>w.
        write_string E w (jid_user j)))))
      else
        bindR (write_u8 E w JID_PAIR) (\<lambda>w.
        bindR (if sr_len (jid_user j) = 0 then write_u8 E w LIST_EMPTY else write_string E w (jid_user j)) (\<lambda>w.
        write_string E w (cx_server (en_ctx E) (jid_server j)))))"

definition write_jid_owned :: "'w encoder \<Rightarrow> 'w \<Rightarrow> str_ref jid \<Rightarrow> 'w bres" where
  "write_jid_owned E w j =
     (if 0 < jid_device j \<and> server_supports_ad_jid (jid_server j) then
        bindR (if unat (jid_device j) \<le> 255 then Inr (ucast (jid_device j))
               else Inl (Err (AttrParse (lit ''AD_JID device id out of range: '' @ decimal (unat (jid_device j))))))
        (\<lambda>device.
        bindR (write_u8 E w AD_JID) (\<lambda>w.
        bindR (write_u8 E w (server_to_domain_type (jid_server j))) (\<lambda>w.
        bindR (write_u8 E w device) (\<lambda>w.
        write_string E w (jid_user j)))))
      else
        bindR (write_u8 E w JID_PAIR) (\<lambda>w.
        bindR (if sr_len (jid_user j) = 0 then write_u8 E w LIST_EMPTY else write_string E w (jid_user j)) (\<lambda>w.
        write_string E w (cx_server (en_ctx E) (jid_server j)))))"

definition write_list_start :: "'w encoder \<Rightarrow> 'w \<Rightarrow> nat \<Rightarrow> 'w bres" where
  "write_list_start E w len =
     (if len = 0 then write_u8 E w LIST_EMPTY
      else if len < 256 then bindR (write_u8 E w 248) (\<lambda>w. write_u8 E w (of_nat len))
      else if len \<le> 65535 then bindR (write_u8 E w 249) (\<lambda>w. write_u16_be E w (of_nat len))
      else Inl (Err InvalidNode))"

fun encode_attr :: "'w encoder \<Rightarrow> 'w \<Rightarrow> str_ref \<times> str_ref node_value \<Rightarrow> 'w bres" where
  "encode_attr E w (k, VString s) = bindR (write_string E w k) (\<lambda>w. write_string E w s)"
| "encode_attr E w (k, VJid j) = bindR (write_string E w k) (\<lambda>w. write_jid_owned E w j)"

definition encode_attrs :: "'w encoder \<Rightarrow> 'w \<Rightarrow> str_ref attrs \<Rightarrow> 'w bres" where
  "encode_attrs E w as = iterR (encode_attr E) w as"

fun write_node :: "'w encoder \<Rightarrow> 'w \<Rightarrow> str_ref node \<Rightarrow> 'w bres"
and encode_content :: "'w encoder \<Rightarrow> 'w \<Rightarrow> str_ref node_content \<Rightarrow> 'w bres" where
  "write_node E w (Node t as c) =
     (let content_len = (case c of None \<Rightarrow> 0 | Some _ \<Rightarrow> 1);
          list_len = 1 + (length as * 2) + content_len
      in bindR (write_list_start E w list_len) (\<lambda>w.
         bindR (write_string E w t) (\<lambda>w.
         bindR (encode_attrs E w as) (\<lambda>w.
         (case c of None \<Rightarrow> Inr w | Some c \<Rightarrow> encode_content E w c)))))"
| "encode_content E w (CString s) = write_string E w s"
| "encode_content E w (CBytes b) = write_bytes_with_len E w b"
| "encode_content E w (CNodes ns) =
     bindR (write_list_start E w (length ns)) (\<lambda>w. iterR (\<lambda>w n. write_node E w n) w ns)"


section \<open>The wire form as a function of the text\<close>

definition bytes_with_len :: "u8 list \<Rightarrow> u8 list" where
  "bytes_with_len bs =
     (if length bs < 256 then [BINARY_8, of_nat (length bs)]
      else if length bs < 2 ^ 20 then BINARY_20 # u20_bytes (of_nat (length bs))
      else BINARY_32 # u32_to_be_bytes (of_nat (length bs))) @ bs"

definition packed_bytes :: "u8 \<Rightarrow> (u8 \<Rightarrow> u8) \<Rightarrow> str \<Rightarrow> u8 list" where
  "packed_bytes tag v s =
     [tag, (if odd (length s) then of_nat ((length s + 1) div 2) OR 0x80 else of_nat ((length s + 1) div 2))]
     @ pack_pairs v s"

function string_bytes :: "tables \<Rightarrow> str \<Rightarrow> u8 list" where
  "string_bytes T s =
     (case hint_of T s of
        HEmpty \<Rightarrow> [BINARY_8, 0]
      | HSingleToken t \<Rightarrow> [t]
      | HDoubleToken d t \<Rightarrow> [DICTIONARY_0 + d, t]
      | HPackedNibble \<Rightarrow> packed_bytes NIBBLE_8 nibble_val s
      | HPackedHex \<Rightarrow> packed_bytes HEX_8 hex_val s
      | HJid m \<Rightarrow>
          let user = take (pm_user_end m) s; server = drop (pm_server_start m) s in
          (case pm_device m of
             Some d \<Rightarrow> [AD_JID, pm_domain_type m, d] @ string_bytes T user
           | None \<Rightarrow> [JID_PAIR] @ (if user = [] then [LIST_EMPTY] else string_bytes T user) @ string_bytes T server)
      | HRawBytes \<Rightarrow> bytes_with_len s)"
  by pat_completeness auto
termination
proof (relation "measure (\<lambda>(_, s). length s)", goal_cases)
  case 1
  then show ?case by simp
qed (auto dest!: hint_of_HJid simp: parse_jid_meta_shorter min_def not_le dest: parse_jid_meta_shorter)

declare string_bytes.simps [simp del]

definition jid_bytes :: "tables \<Rightarrow> str jid \<Rightarrow> u8 list bres" where
  "jid_bytes T j =
     (if 0 < jid_device j \<and> server_supports_ad_jid (jid_server j) then
        if unat (jid_device j) \<le> 255
        then Inr ([AD_JID, server_to_domain_type (jid_server j), ucast (jid_device j)] @ string_bytes T (jid_user j))
        else Inl (Err (AttrParse (lit ''AD_JID device id out of range: '' @ decimal (unat (jid_device j)))))
      else
        Inr ([JID_PAIR] @ (if jid_user j = [] then [LIST_EMPTY] else string_bytes T (jid_user j))
             @ string_bytes T (server_as_str (jid_server j))))"

definition list_start_bytes :: "nat \<Rightarrow> u8 list bres" where
  "list_start_bytes n =
     (if n = 0 then Inr [LIST_EMPTY]
      else if n < 256 then Inr [LIST_8, of_nat n]
      else if n \<le> 65535 then Inr (LIST_16 # u16_to_be_bytes (of_nat n))
      else Inl (Err InvalidNode))"

text \<open>Sequencing of wire forms.\<close>

definition seqR :: "u8 list bres \<Rightarrow> u8 list bres \<Rightarrow> u8 list bres" where
  "seqR p q = bindR p (\<lambda>a. mapR ((@) a) q)"

fun value_bytes :: "tables \<Rightarrow> str node_value \<Rightarrow> u8 list bres" where
  "value_bytes T (VString s) = Inr (string_bytes T s)"
| "value_bytes T (VJid j) = jid_bytes T j"

definition attr_bytes :: "tables \<Rightarrow> str \<times> str node_value \<Rightarrow> u8 list bres" where
  "attr_bytes T kv = seqR (Inr (string_bytes T (fst kv))) (value_bytes T (snd kv))"

fun node_bytes :: "tables \<Rightarrow> str node \<Rightarrow> u8 list bres"
and content_wire :: "tables \<Rightarrow> str node_content \<Rightarrow> u8 list bres" where
  "node_bytes T (Node t as c) =
     seqR (list_start_bytes (1 + length as * 2 + (case c of None \<Rightarrow> 0 | Some _ \<Rightarrow> 1)))
       (seqR (Inr (string_bytes T t))
         (seqR (concatR (attr_bytes T) as)
           (case c of None \<Rightarrow> Inr [] | Some c \<Rightarrow> content_wire T c)))"
| "content_wire T (CString s) = Inr (string_bytes T s)"
| "content_wire T (CBytes b) = Inr (bytes_with_len b)"
| "content_wire T (CNodes ns) = seqR (list_start_bytes (length ns)) (concatR (node_bytes T) ns)"

section \<open>Lawful writers\<close>

text \<open>An encoder whose hints, if it has any, were computed over the memory it reads.\<close>

definition enc_ok :: "'w encoder \<Rightarrow> bool" where
  "enc_ok E \<longleftrightarrow>
     (case en_hints E of Some h \<Rightarrow> hints_ok (en_ctx E) h | None \<Rightarrow> True) \<and> ctx_ok (en_ctx E)"

lemma enc_ok_server: "enc_ok E \<Longrightarrow> deref (en_ctx E) (cx_server (en_ctx E) sv) = server_as_str sv"
  by (simp add: enc_ok_def ctx_ok_def)

lemma uncached_hint:
  "write_string_uncached E ws w s =
     write_string_with_hint E ws w s (hint_of (cx_tables (en_ctx E)) (deref (en_ctx E) s))"
  by (simp add: write_string_uncached_def hint_of_def write_string_with_hint_def)

lemma string_fuel_hint:
  "enc_ok E \<Longrightarrow> write_string_fuel (Suc n) E w s =
     write_string_with_hint E (write_string_fuel n E) w s
       (hint_of (cx_tables (en_ctx E)) (deref (en_ctx E) s))"
  by (cases "en_hints E"; cases "hint_for (the (en_hints E)) s")
    (auto simp: enc_ok_def uncached_hint dest: hint_for_ok)

lemma hint_of_validated:
  "hint_of T s = HPackedNibble \<Longrightarrow> validate_nibble s"
  "hint_of T s = HPackedHex \<Longrightarrow> validate_hex s"
  by (auto simp: hint_of_def classify_string_hint_def Let_def
      split: if_splits option.splits token_kind.splits)

text \<open>
  \<open>out\<close> is what a writer has taken in, \<open>fits w n\<close> says that \<open>n\<close> more bytes fit.  A write that
  fits appends; one that does not is the error \<open>UnexpectedEof\<close>.
\<close>

locale byte_sink =
  fixes bw :: "'w byte_writer" and inv :: "'w \<Rightarrow> bool" and out :: "'w \<Rightarrow> u8 list" and fits :: "'w \<Rightarrow> nat \<Rightarrow> bool"
  assumes u8_fits: "inv w \<Longrightarrow> fits w 1 \<Longrightarrow>
      \<exists>w'. bw_write_u8 bw w v = Inr w' \<and> inv w' \<and> out w' = out w @ [v] \<and> (\<forall>n. fits w' n = fits w (1 + n))"
    and u8_full: "inv w \<Longrightarrow> \<not> fits w 1 \<Longrightarrow> bw_write_u8 bw w v = Inl (Err UnexpectedEof)"
    and bytes_fits: "inv w \<Longrightarrow> fits w (length bs) \<Longrightarrow>
      \<exists>w'. bw_write_bytes bw w bs = Inr w' \<and> inv w' \<and> out w' = out w @ bs \<and>
        (\<forall>n. fits w' n = fits w (length bs + n))"
    and bytes_full: "inv w \<Longrightarrow> \<not> fits w (length bs) \<Longrightarrow> bw_write_bytes bw w bs = Inl (Err UnexpectedEof)"
    and fits_less: "fits w (m + n) \<Longrightarrow> fits w m"
    and fits_0: "inv w \<Longrightarrow> fits w 0"
begin

definition wrote :: "'w \<Rightarrow> u8 list \<Rightarrow> 'w \<Rightarrow> bool" where
  "wrote w bs w' \<longleftrightarrow> inv w' \<and> out w' = out w @ bs \<and> (\<forall>n. fits w' n = fits w (length bs + n))"

text \<open>\<open>sim w r p\<close>: the outcome \<open>r\<close> of writing from \<open>w\<close> is the one the wire form \<open>p\<close> calls for.\<close>

definition sim :: "'w \<Rightarrow> 'w bres \<Rightarrow> u8 list bres \<Rightarrow> bool" where
  "sim w r p \<longleftrightarrow>
     (case p of
        Inr bs \<Rightarrow> if fits w (length bs) then \<exists>w'. r = Inr w' \<and> wrote w bs w' else r = Inl (Err UnexpectedEof)
      | Inl e \<Rightarrow> r = Inl e \<or> r = Inl (Err UnexpectedEof) \<and> (\<exists>n. \<not> fits w n))"

lemma sim_u8: "inv w \<Longrightarrow> sim w (bw_write_u8 bw w v) (Inr [v])"
  using u8_fits [of w v] u8_full [of w v] by (auto simp: sim_def wrote_def)

lemma sim_bytes: "inv w \<Longrightarrow> sim w (bw_write_bytes bw w bs) (Inr bs)"
  using bytes_fits [of w bs] bytes_full [of w bs] by (auto simp: sim_def wrote_def)

lemma sim_skip: "inv w \<Longrightarrow> sim w (Inr w) (Inr [])"
  by (simp add: sim_def wrote_def fits_0)

lemma sim_Inl: "sim w (Inl e) (Inl e)"
  by (simp add: sim_def)

lemma sim_seq:
  assumes "sim w r p" and "\<And>w' bs. p = Inr bs \<Longrightarrow> wrote w bs w' \<Longrightarrow> inv w' \<Longrightarrow> sim w' (f w') q"
  shows "sim w (bindR r f) (seqR p q)"
proof (cases p)
  case (Inl e)
  with assms(1) show ?thesis by (auto simp: sim_def seqR_def)
next
  case (Inr a)
  show ?thesis
  proof (cases "fits w (length a)")
    case False
    with Inr assms(1) have "r = Inl (Err UnexpectedEof)" by (simp add: sim_def)
    moreover have "\<not> fits w (length a + n)" for n using False fits_less by blast
    ultimately show ?thesis using Inr False by (cases q) (auto simp: sim_def seqR_def)
  next
    case True
    with Inr assms(1) obtain w' where w': "r = Inr w'" "wrote w a w'" by (auto simp: sim_def)
    then have s: "sim w' (f w') q" using assms(2) Inr by (simp add: wrote_def)
    show ?thesis
    proof (cases q)
      case (Inl e)
      with s w' \<open>p = Inr a\<close> show ?thesis by (auto simp: sim_def seqR_def wrote_def)
    next
      case (Inr b)
      with s w' \<open>p = Inr a\<close> show ?thesis
        by (auto simp: sim_def seqR_def wrote_def add.assoc)
    qed
  qed
qed

lemma sim_then:
  assumes "sim w r (Inr a)" and "\<And>w'. inv w' \<Longrightarrow> sim w' (f w') (Inr b)" and "c = a @ b"
  shows "sim w (bindR r f) (Inr c)"
  using sim_seq [OF assms(1), of f "Inr b"] assms(2,3) by (simp add: seqR_def)

lemma sim_iter:
  assumes "\<And>w x. x \<in> set xs \<Longrightarrow> inv w \<Longrightarrow> sim w (f w x) (g x)" "inv w"
  shows "sim w (iterR f w xs) (concatR g xs)"
  using assms
proof (induction xs arbitrary: w)
  case Nil
  then show ?case by (simp add: sim_skip)
next
  case (Cons x xs)
  then have "sim w (bindR (f w x) (\<lambda>w. iterR f w xs)) (seqR (g x) (concatR g xs))"
    by (intro sim_seq) simp_all
  then show ?case by (simp add: seqR_def)
qed


lemma w_u8: "en_writer E = bw \<Longrightarrow> inv w \<Longrightarrow> sim w (write_u8 E w v) (Inr [v])"
  by (simp add: write_u8_def sim_u8)

lemma w_raw: "en_writer E = bw \<Longrightarrow> inv w \<Longrightarrow> sim w (write_raw_bytes E w bs) (Inr bs)"
  by (simp add: write_raw_bytes_def sim_bytes)

lemma w_uints:
  "en_writer E = bw \<Longrightarrow> inv w \<Longrightarrow> sim w (write_u16_be E w a) (Inr (u16_to_be_bytes a))"
  "en_writer E = bw \<Longrightarrow> inv w \<Longrightarrow> sim w (write_u20_be E w b) (Inr (u20_bytes b))"
  "en_writer E = bw \<Longrightarrow> inv w \<Longrightarrow> sim w (write_u32_be E w b) (Inr (u32_to_be_bytes b))"
  by (simp_all add: write_u16_be_def write_u20_be_def write_u32_be_def sim_bytes)

lemma w_bytes_with_len:
  assumes "en_writer E = bw" "inv w"
  shows "sim w (write_bytes_with_len E w bs) (Inr (bytes_with_len bs))"
  unfolding write_bytes_with_len_def Let_def bytes_with_len_def
proof (rule sim_then [OF _ _ refl], goal_cases)
  case 1
  show ?case
    using assms by (auto intro!: sim_then [OF w_u8] w_u8 w_uints)
next
  case (2 w')
  with assms show ?case by (simp add: w_raw)
qed

lemma w_pairs:
  assumes "\<And>b. b \<in> set s \<Longrightarrow> packer b = Inr (v b)" "packer 0 = Inr (v 0)" "en_writer E = bw" "inv w"
  shows "sim w (write_pairs E packer w s) (Inr (pack_pairs v s))"
  using assms
proof (induction v s arbitrary: w rule: pack_pairs.induct)
  case (1 v)
  then show ?case by (simp add: sim_skip)
next
  case (2 v a)
  then show ?case by (simp add: pack_byte_pair_def w_u8)
next
  case (3 v a b r)
  then show ?case by (auto simp: pack_byte_pair_def intro!: sim_then [OF w_u8])
qed

lemma w_chunks:
  assumes "\<And>c. length c = 16 \<Longrightarrow> set c \<subseteq> set s \<Longrightarrow> pack c = pack_pairs v c"
    and "\<And>b. b \<in> set s \<Longrightarrow> packer b = Inr (v b)" "packer 0 = Inr (v 0)" "en_writer E = bw" "inv w"
  shows "sim w (bindR (write_chunks E pack w s) (\<lambda>(w, rest). write_pairs E packer w rest)) (Inr (pack_pairs v s))"
  using assms
proof (induction E pack w s rule: write_chunks.induct)
  case (1 E pack w s)
  show ?case
  proof (cases "length s < 16")
    case True
    with 1 show ?thesis by (subst write_chunks.simps) (simp add: w_pairs)
  next
    case False
    have sub: "set (take 16 s) \<subseteq> set s" "set (drop 16 s) \<subseteq> set s"
      by (rule set_take_subset, rule set_drop_subset)
    have p: "pack (take 16 s) = pack_pairs v (take 16 s)"
      using 1(2) False sub by simp
    have "sim w (bindR (write_raw_bytes E w (pack (take 16 s))) (\<lambda>w.
        bindR (write_chunks E pack w (drop 16 s)) (\<lambda>(w, rest). write_pairs E packer w rest)))
      (Inr (pack_pairs v s))"
    proof (rule sim_then [OF w_raw])
      show "sim w' (bindR (write_chunks E pack w' (drop 16 s)) (\<lambda>(w, rest). write_pairs E packer w rest))
          (Inr (pack_pairs v (drop 16 s)))" if "inv w'" for w'
        using False 1(2-) sub that by (intro 1(1)) auto
      show "pack_pairs v s = pack (take 16 s) @ pack_pairs v (drop 16 s)"
        using False pack_pairs_append [of "take 16 s" v "drop 16 s"] by (simp add: p min_def)
    qed (use 1 in auto)
    then show ?thesis using False by (subst write_chunks.simps) (simp add: bindR_assoc)
  qed
qed

lemma w_packed:
  assumes "en_writer E = bw" "inv w" "validate_nibble s \<and> tag = NIBBLE_8 \<and> v = nibble_val \<or>
      validate_hex s \<and> tag = HEX_8 \<and> v = hex_val"
  shows "sim w (write_packed_bytes E w s tag) (Inr (packed_bytes tag v s))"
proof -
  let ?n = "if odd (length s) then of_nat ((length s + 1) div 2) OR 0x80 else of_nat ((length s + 1) div 2) :: u8"
  have len: "\<not> length s > PACKED_MAX" using assms(3) by (auto simp: validate_nibble_def validate_hex_def)
  define body where "body w = (if tag = NIBBLE_8 then
          bindR (if cx_simd (en_ctx E) then write_chunks E simd_pack_nibble w s else Inr (w, s))
            (\<lambda>(w, rest). write_pairs E pack_nibble w rest)
        else
          bindR (if cx_simd (en_ctx E) then write_chunks E simd_pack_hex w s else Inr (w, s))
            (\<lambda>(w, rest). write_pairs E pack_hex w rest))" for w
  have body: "sim w (body w) (Inr (pack_pairs v s))" if "inv w" for w
    using assms(3)
  proof (elim disjE conjE)
    assume n: "validate_nibble s" "tag = NIBBLE_8" "v = nibble_val"
    then have c: "b \<in> set s \<Longrightarrow> is_ascii_digit b \<or> b = 45 \<or> b = 46" for b
      by (auto simp: validate_nibble_def list_all_iff)
    then have l: "set c \<subseteq> set s \<Longrightarrow> list_all (\<lambda>b. is_ascii_digit b \<or> b = 45 \<or> b = 46) c" for c
      by (auto simp: list_all_iff)
    show ?thesis
      using n that assms(1) c l nibble_char(1) pack_pad(1)
      by (auto simp: body_def intro!: w_pairs w_chunks simd_pack_nibble_pairs)
  next
    assume n: "validate_hex s" "tag = HEX_8" "v = hex_val"
    then have c: "b \<in> set s \<Longrightarrow> is_ascii_digit b \<or> is_upper_hex b" for b
      by (auto simp: validate_hex_def list_all_iff)
    then have l: "set c \<subseteq> set s \<Longrightarrow> list_all (\<lambda>b. is_ascii_digit b \<or> is_upper_hex b) c" for c
      by (auto simp: list_all_iff)
    show ?thesis
      using n that assms(1) c l hex_char(1) pack_pad(4)
      by (auto simp: body_def intro!: w_pairs w_chunks simd_pack_hex_pairs)
  qed
  have "sim w (bindR (write_u8 E w tag) (\<lambda>w. bindR (write_u8 E w ?n) body)) (Inr (packed_bytes tag v s))"
    using assms(1,2) body
    by (intro sim_then [OF w_u8, where b = "?n # pack_pairs v s"] sim_then [OF w_u8])
      (auto simp: packed_bytes_def)
  then show ?thesis
    unfolding write_packed_bytes_def Let_def body_def [abs_def] if_not_P [OF len] .
qed


lemma w_string_fuel:
  assumes "enc_ok E" "en_writer E = bw" "inv w" "str_ok (deref (en_ctx E) s)" "sr_len s < n"
  shows "sim w (write_string_fuel n E w s) (Inr (string_bytes (cx_tables (en_ctx E)) (deref (en_ctx E) s)))"
  using assms(3-)
proof (induction n arbitrary: w s)
  case (Suc n)
  let ?cx = "en_ctx E" and ?T = "cx_tables (en_ctx E)"
  let ?s = "deref ?cx s" and ?ws = "write_string_fuel n E"
  note u8 = w_u8 [OF assms(2)]
  note sb = string_bytes.simps [of ?T ?s]
  have "sim w (write_string_with_hint E ?ws w s (hint_of ?T ?s)) (Inr (string_bytes ?T ?s))"
  proof (cases "hint_of ?T ?s")
    case HEmpty
    then show ?thesis
      unfolding sb using Suc.prems
      by (auto simp: write_string_with_hint_def intro!: sim_then [OF u8] u8)
  next
    case (HSingleToken t)
    then show ?thesis unfolding sb using Suc.prems by (simp add: write_string_with_hint_def u8)
  next
    case (HDoubleToken d t)
    then show ?thesis
      unfolding sb using Suc.prems
      by (auto simp: write_string_with_hint_def intro!: sim_then [OF u8] u8)
  next
    case HPackedNibble
    with Suc.prems assms(2) show ?thesis
      unfolding sb by (auto simp: write_string_with_hint_def hint_of_validated intro!: w_packed)
  next
    case HPackedHex
    with Suc.prems assms(2) show ?thesis
      unfolding sb by (auto simp: write_string_with_hint_def hint_of_validated intro!: w_packed)
  next
    case HRawBytes
    with Suc.prems assms(2) show ?thesis
      unfolding sb by (auto simp: write_string_with_hint_def intro!: w_bytes_with_len)
  next
    case (HJid m)
    note m = hint_of_HJid [OF HJid]
    obtain u v where uv: "split_jid_from_meta ?cx s m = Inr (u, v)"
        "deref ?cx u = take (pm_user_end m) ?s" "deref ?cx v = drop (pm_server_start m) ?s"
        "sr_len u < sr_len s" "sr_len v < sr_len s"
      using split_jid_from_meta_ok [OF m Suc.prems(2)] by blast
    have uv_ok: "str_ok (deref ?cx u)" "str_ok (deref ?cx v)" "sr_len u < n" "sr_len v < n"
      using parse_jid_meta_boundaries [OF m Suc.prems(2)] uv Suc.prems(3) by auto
    have IH: "inv w \<Longrightarrow> sim w (?ws w u) (Inr (string_bytes ?T (deref ?cx u)))"
        "inv w \<Longrightarrow> sim w (?ws w v) (Inr (string_bytes ?T (deref ?cx v)))" for w
      using uv_ok by (auto intro: Suc.IH)
    have emp: "sr_len u = 0 \<longleftrightarrow> deref ?cx u = []"
      by (metis deref_length length_0_conv)
    have "sim w (write_jid_from_meta E ?ws w s m) (Inr (string_bytes ?T ?s))"
    proof (cases "pm_device m")
      case None
      then show ?thesis
        unfolding sb HJid using Suc.prems uv emp IH
        by (auto simp: write_jid_from_meta_def Let_def intro!: sim_then [OF u8] sim_then [OF IH(1)])
    next
      case (Some d)
      then show ?thesis
        unfolding sb HJid using Suc.prems uv IH
        by (auto simp: write_jid_from_meta_def Let_def intro!: sim_then [OF u8] sim_then [OF IH(1)])
    qed
    with HJid show ?thesis by (simp add: write_string_with_hint_def)
  qed
  then show ?case using string_fuel_hint [OF assms(1)] by simp
qed simp

lemma w_string:
  assumes "enc_ok E" "en_writer E = bw" "inv w" "str_ok (deref (en_ctx E) s)"
  shows "sim w (write_string E w s) (Inr (string_bytes (cx_tables (en_ctx E)) (deref (en_ctx E) s)))"
  unfolding write_string_def using assms by (intro w_string_fuel) auto

lemma w_list_start:
  assumes "en_writer E = bw" "inv w"
  shows "sim w (write_list_start E w n) (list_start_bytes n)"
  using assms
  by (auto simp: write_list_start_def list_start_bytes_def sim_Inl
      intro!: sim_then [OF w_u8] w_u8 w_uints)

lemma w_jid:
  assumes "enc_ok E" "en_writer E = bw" "inv w" "str_ok (deref (en_ctx E) (jid_user j))"
  shows "sim w (write_jid_owned E w j) (jid_bytes (cx_tables (en_ctx E)) (map_jid (deref (en_ctx E)) j))"
proof -
  note u8 = w_u8 [OF assms(2)]
  note str = w_string [OF assms(1,2)]
  have emp: "sr_len (jid_user j) = 0 \<longleftrightarrow> deref (en_ctx E) (jid_user j) = []"
    by (metis deref_length length_0_conv)
  show ?thesis
  proof (cases "0 < jid_device j \<and> server_supports_ad_jid (jid_server j)")
    case True
    with assms show ?thesis
      by (cases j) (auto simp: write_jid_owned_def jid_bytes_def sim_Inl intro!: sim_then [OF u8] str)
  next
    case False
    have sv: "inv w \<Longrightarrow> sim w (write_string E w (cx_server (en_ctx E) sv))
        (Inr (string_bytes (cx_tables (en_ctx E)) (server_as_str sv)))" for w sv
      using str [of w "cx_server (en_ctx E) sv"] enc_ok_server [OF assms(1), of sv] by simp
    have us: "inv w \<Longrightarrow> sim w (if sr_len (jid_user j) = 0 then write_u8 E w LIST_EMPTY else write_string E w (jid_user j))
       (Inr (if deref (en_ctx E) (jid_user j) = [] then [LIST_EMPTY]
             else string_bytes (cx_tables (en_ctx E)) (deref (en_ctx E) (jid_user j))))" for w
      using assms emp u8 str by auto
    let ?u = "\<lambda>w. if sr_len (jid_user j) = 0 then write_u8 E w LIST_EMPTY else write_string E w (jid_user j)"
    have "sim w (bindR (write_u8 E w JID_PAIR) (\<lambda>w. bindR (?u w)
        (\<lambda>w. write_string E w (cx_server (en_ctx E) (jid_server j)))))
      (Inr ([JID_PAIR] @ (if deref (en_ctx E) (jid_user j) = [] then [LIST_EMPTY]
             else string_bytes (cx_tables (en_ctx E)) (deref (en_ctx E) (jid_user j)))
        @ string_bytes (cx_tables (en_ctx E)) (server_as_str (jid_server j))))"
      by (rule sim_then [OF u8 [OF assms(3)] sim_then [OF us sv refl] refl])
    then show ?thesis
      unfolding write_jid_owned_def jid_bytes_def jid.map_sel if_not_P [OF False] .
  qed
qed

lemma w_attr:
  assumes "enc_ok E" "en_writer E = bw" "inv w" "str_ok (deref (en_ctx E) (fst kv))"
    "list_all (\<lambda>s. str_ok (deref (en_ctx E) s)) (value_strings (snd kv))"
  shows "sim w (encode_attr E w kv)
    (attr_bytes (cx_tables (en_ctx E)) (map_prod (deref (en_ctx E)) (map_node_value (deref (en_ctx E))) kv))"
proof (cases kv)
  case (Pair k v)
  with assms show ?thesis
    by (cases v) (auto simp: attr_bytes_def intro!: sim_seq w_string w_jid)
qed


lemma w_node:
  assumes "enc_ok E" "en_writer E = bw" "inv w" "list_all (\<lambda>s. str_ok (deref (en_ctx E) s)) (node_strings n)"
  shows "sim w (write_node E w n) (node_bytes (cx_tables (en_ctx E)) (map_node (deref (en_ctx E)) n))"
proof -
  let ?d = "deref (en_ctx E)" and ?T = "cx_tables (en_ctx E)"
  let ?ok = "list_all (\<lambda>s. str_ok (?d s))"
  have "(\<forall>w. inv w \<longrightarrow> ?ok (node_strings n) \<longrightarrow> sim w (write_node E w n) (node_bytes ?T (map_node ?d n)))"
    and "(\<forall>w. inv w \<longrightarrow> ?ok (content_strings c) \<longrightarrow> sim w (encode_content E w c) (content_wire ?T (map_node_content ?d c)))"
    for n c
  proof (induction n and c rule: node_strings_content_strings.induct)
    case (1 t as co)
    have attrs: "sim w (encode_attrs E w as)
        (concatR (attr_bytes ?T) (map (map_prod ?d (map_node_value ?d)) as))"
      if "inv w" "?ok (concat (map (\<lambda>(k, v). k # value_strings v) as))" for w
    proof -
      have "sim w (iterR (encode_attr E) w as)
          (concatR (\<lambda>kv. attr_bytes ?T (map_prod ?d (map_node_value ?d) kv)) as)"
        using that assms by (intro sim_iter w_attr) (auto simp: list_all_iff)
      then show ?thesis by (simp add: encode_attrs_def concatR_map)
    qed
    have "sim w (bindR (write_list_start E w k) (\<lambda>w. bindR (write_string E w t) (\<lambda>w.
        bindR (encode_attrs E w as) (\<lambda>w. case co of None \<Rightarrow> Inr w | Some c \<Rightarrow> encode_content E w c))))
      (seqR (list_start_bytes k) (seqR (Inr (string_bytes ?T (?d t)))
        (seqR (concatR (attr_bytes ?T) (map (map_prod ?d (map_node_value ?d)) as))
          (case co of None \<Rightarrow> Inr [] | Some c \<Rightarrow> content_wire ?T (map_node_content ?d c)))))"
      if "inv w" "?ok (node_strings (Node t as co))" for w k
      using that assms(1,2) 1 attrs
      by (intro sim_seq w_list_start w_string) (auto intro: sim_skip split: option.split)
    then show ?case by (cases co) (auto simp: Let_def)
  next
    case (4 ns)
    have "sim w (bindR (write_list_start E w (length ns)) (\<lambda>w. iterR (write_node E) w ns))
        (seqR (list_start_bytes (length ns)) (concatR (\<lambda>n. node_bytes ?T (map_node ?d n)) ns))"
      if "inv w" "?ok (content_strings (CNodes ns))" for w
      using that assms(2) 4 by (intro sim_seq w_list_start sim_iter) (auto simp: list_all_iff)
    then show ?case by (simp add: concatR_map)
  qed (use assms in \<open>auto intro!: w_string w_bytes_with_len\<close>)
  then show ?thesis using assms by blast
qed

end

interpretation vec: byte_sink vec_writer "\<lambda>_. True" "\<lambda>b. b" "\<lambda>_ _. True"
  by unfold_locales (auto simp: vec_writer_def)

interpretation slice: byte_sink slice_writer "\<lambda>w. sw_position w \<le> length (sw_buffer w)"
  "\<lambda>w. take (sw_position w) (sw_buffer w)" "\<lambda>w n. sw_position w + n \<le> length (sw_buffer w)"
  by unfold_locales
    (auto simp: slice_writer_def Let_def take_Suc_conv_app_nth upd_conv_take_nth_drop)

end
