(* ===== verification/Plan.thy ===== *)
theory Plan
  imports Encoder
begin

text \<open>
  Exact-size planning (\<open>build_marshaled_node_plan\<close> and the \<open>*_encoded_size_with_cache\<close>
  functions of \<open>binary/src/encoder.rs\<close>) and the marshalling entry points of
  \<open>binary/src/marshal.rs\<close>: the one-pass writer into a growing vector, the automatic choice
  of a capacity, and the two-pass writer into a buffer of the planned size, which reuses the
  hints the planning pass has cached.  The lemmas show that the planned size is the number
  of bytes written and that the two writers produce the same bytes.  Capacities are hints to
  the allocator; a vector is a list here, so they do not show in its value.
\<close>

section \<open>Sizes\<close>

definition list_start_encoded_size :: "nat \<Rightarrow> nat" where
  "list_start_encoded_size len = (if len = 0 then 1 else if len < 256 then 2 else 3)"

definition binary_len_prefix_size :: "nat \<Rightarrow> nat" where
  "binary_len_prefix_size len = (if len < 256 then 2 else if len < 2 ^ 20 then 4 else 5)"

definition bytes_with_len_encoded_size :: "nat \<Rightarrow> nat" where
  "bytes_with_len_encoded_size len = binary_len_prefix_size len + len"

definition packed_encoded_size :: "nat \<Rightarrow> nat" where
  "packed_encoded_size value_len = 2 + (value_len + 1) div 2"

type_synonym sized = "(nat \<times> string_hint_cache) bres"

text \<open>Loops that add up sizes while the cache grows.\<close>

fun sum_sizes :: "('x \<Rightarrow> string_hint_cache \<Rightarrow> sized) \<Rightarrow> 'x list \<Rightarrow> string_hint_cache \<Rightarrow> sized" where
  "sum_sizes f [] hints = Inr (0, hints)"
| "sum_sizes f (x # xs) hints =
     bindR (f x hints) (\<lambda>(a, hints). bindR (sum_sizes f xs hints) (\<lambda>(b, hints). Inr (a + b, hints)))"

lemma sum_sizes_cong [fundef_cong]:
  "xs = ys \<Longrightarrow> h = k \<Longrightarrow> (\<And>x h. x \<in> set ys \<Longrightarrow> f x h = g x h) \<Longrightarrow> sum_sizes f xs h = sum_sizes g ys k"
proof (induction xs arbitrary: ys h k)
  case (Cons x xs)
  then have "sum_sizes f xs h = sum_sizes g xs h" for h by (intro Cons.IH) auto
  with Cons.prems show ?case by auto
qed auto

definition parsed_jid_encoded_size_with_cache ::
    "ctx \<Rightarrow> (str_ref \<Rightarrow> string_hint_cache \<Rightarrow> sized) \<Rightarrow> str_ref \<Rightarrow> parsed_jid_meta \<Rightarrow> string_hint_cache \<Rightarrow> sized" where
  "parsed_jid_encoded_size_with_cache cx string_size jid meta hints =
     bindR (split_jid_from_meta cx jid meta) (\<lambda>(user, server).
     if pm_device meta \<noteq> None then
       bindR (string_size user hints) (\<lambda>(n, hints). Inr (3 + n, hints))
     else
       bindR (if sr_len user = 0 then Inr (1, hints) else string_size user hints) (\<lambda>(n, hints).
       bindR (string_size server hints) (\<lambda>(m, hints). Inr (1 + n + m, hints))))"

definition string_encoded_size_from_hint_with_cache ::
    "ctx \<Rightarrow> (str_ref \<Rightarrow> string_hint_cache \<Rightarrow> sized) \<Rightarrow> str_ref \<Rightarrow> string_hint \<Rightarrow> string_hint_cache \<Rightarrow> sized" where
  "string_encoded_size_from_hint_with_cache cx string_size s hint hints =
     (case hint of
        HEmpty \<Rightarrow> Inr (2, hints)
      | HSingleToken _ \<Rightarrow> Inr (1, hints)
      | HDoubleToken _ _ \<Rightarrow> Inr (2, hints)
      | HPackedNibble \<Rightarrow> Inr (packed_encoded_size (sr_len s), hints)
      | HPackedHex \<Rightarrow> Inr (packed_encoded_size (sr_len s), hints)
      | HRawBytes \<Rightarrow> Inr (bytes_with_len_encoded_size (sr_len s), hints)
      | HJid meta \<Rightarrow> parsed_jid_encoded_size_with_cache cx string_size s meta hints)"

fun string_size_fuel :: "nat \<Rightarrow> ctx \<Rightarrow> str_ref \<Rightarrow> string_hint_cache \<Rightarrow> sized" where
  "string_size_fuel 0 cx s hints = Inl OutOfFuel"
| "string_size_fuel (Suc n) cx s hints =
     (case hint_or_insert cx hints s of (hint, hints) \<Rightarrow>
        string_encoded_size_from_hint_with_cache cx (string_size_fuel n cx) s hint hints)"

definition string_encoded_size_with_cache :: "ctx \<Rightarrow> str_ref \<Rightarrow> string_hint_cache \<Rightarrow> sized" where
  "string_encoded_size_with_cache cx s hints = string_size_fuel (Suc (sr_len s)) cx s hints"

definition owned_jid_encoded_size_with_cache :: "ctx \<Rightarrow> str_ref jid \<Rightarrow> string_hint_cache \<Rightarrow> sized" where
  "owned_jid_encoded_size_with_cache cx j hints =
     (if 0 < jid_device j \<and> server_supports_ad_jid (jid_server j) then
        bindR (string_encoded_size_with_cache cx (jid_user j) hints) (\<lambda>(n, hints). Inr (3 + n, hints))
      else
        bindR (if sr_len (jid_user j) = 0 then Inr (1, hints)
               else string_encoded_size_with_cache cx (jid_user j) hints) (\<lambda>(n, hints).
        bindR (string_encoded_size_with_cache cx (cx_server cx (jid_server j)) hints) (\<lambda>(m, hints).
        Inr (1 + n + m, hints))))"

fun attr_encoded_size :: "ctx \<Rightarrow> str_ref \<times> str_ref node_value \<Rightarrow> string_hint_cache \<Rightarrow> sized" where
  "attr_encoded_size cx (k, v) hints =
     bindR (case v of
              VString s \<Rightarrow> string_encoded_size_with_cache cx s hints
            | VJid j \<Rightarrow> owned_jid_encoded_size_with_cache cx j hints) (\<lambda>(value_size, hints).
     bindR (string_encoded_size_with_cache cx k hints) (\<lambda>(n, hints). Inr (n + value_size, hints)))"

fun node_encoded_size_with_cache :: "ctx \<Rightarrow> str_ref node \<Rightarrow> string_hint_cache \<Rightarrow> sized"
and content_encoded_size :: "ctx \<Rightarrow> str_ref node_content \<Rightarrow> string_hint_cache \<Rightarrow> sized" where
  "node_encoded_size_with_cache cx (Node t as c) hints =
     (let content_len = (case c of None \<Rightarrow> 0 | Some _ \<Rightarrow> 1);
          list_len = 1 + (length as * 2) + content_len
      in bindR (sum_sizes (attr_encoded_size cx) as hints) (\<lambda>(attrs_size, hints).
         bindR (case c of None \<Rightarrow> Inr (0, hints) | Some c \<Rightarrow> content_encoded_size cx c hints) (\<lambda>(content_size, hints).
         bindR (string_encoded_size_with_cache cx t hints) (\<lambda>(tag_size, hints).
         Inr (list_start_encoded_size list_len + tag_size + attrs_size + content_size, hints)))))"
| "content_encoded_size cx (CString s) hints = string_encoded_size_with_cache cx s hints"
| "content_encoded_size cx (CBytes b) hints = Inr (bytes_with_len_encoded_size (length b), hints)"
| "content_encoded_size cx (CNodes ns) hints =
     bindR (sum_sizes (\<lambda>n h. node_encoded_size_with_cache cx n h) ns hints) (\<lambda>(n, hints).
     Inr (list_start_encoded_size (length ns) + n, hints))"

record marshaled_size_plan =
  pl_size :: nat
  pl_hints :: string_hint_cache

definition build_marshaled_node_plan :: "ctx \<Rightarrow> str_ref node \<Rightarrow> marshaled_size_plan bres" where
  "build_marshaled_node_plan cx n =
     bindR (node_encoded_size_with_cache cx n []) (\<lambda>(size, hints).
     Inr \<lparr>pl_size = 1 + size, pl_hints = hints\<rparr>)"

section \<open>Marshalling\<close>

definition marshal_to_vec :: "ctx \<Rightarrow> str_ref node \<Rightarrow> u8 list \<Rightarrow> u8 list bres" where
  "marshal_to_vec cx n output =
     (let E = \<lparr>en_writer = vec_writer, en_hints = None, en_ctx = cx\<rparr>
      in bindR (write_u8 E [] 0) (\<lambda>w. write_node E w n))"

definition marshal :: "ctx \<Rightarrow> str_ref node \<Rightarrow> u8 list bres" where
  "marshal cx n = marshal_to_vec cx n []"

definition marshal_with_capacity :: "ctx \<Rightarrow> str_ref node \<Rightarrow> nat \<Rightarrow> u8 list bres" where
  "marshal_with_capacity cx n capacity = marshal_to_vec cx n []"

definition should_auto_reserve_node :: "str_ref node \<Rightarrow> bool" where
  "should_auto_reserve_node n =
     (if length (node_attrs n) \<ge> 24 then True
      else
        (case node_content n of
           Some (CBytes b) \<Rightarrow> length b \<ge> 8 * 1024
         | Some (CString t) \<Rightarrow> sr_len t \<ge> 8 * 1024
         | Some (CNodes cs) \<Rightarrow>
             if length cs \<ge> 64 then True
             else list_ex (\<lambda>c. case node_content c of Some (CNodes gc) \<Rightarrow> length gc \<ge> 64 | _ \<Rightarrow> False) cs
         | None \<Rightarrow> False))"

abbreviation AUTO_MAX_HINT_CAPACITY :: nat where "AUTO_MAX_HINT_CAPACITY \<equiv> 512 * 1024"

text \<open>The sampling loop; \<open>Inl\<close> is the early return.\<close>

fun estimate_children :: "nat \<Rightarrow> str_ref node list \<Rightarrow> nat + nat" where
  "estimate_children est [] = Inr est"
| "estimate_children est (c # cs) =
     (let est = est + sr_len (node_tag c) + length (node_attrs c) * 24;
          est = (case node_content c of
                   Some (CBytes b) \<Rightarrow> est + length b + 8
                 | Some (CString t) \<Rightarrow> est + sr_len t + 8
                 | Some (CNodes gc) \<Rightarrow> est + length gc * 40
                 | None \<Rightarrow> est)
      in if est \<ge> AUTO_MAX_HINT_CAPACITY then Inl AUTO_MAX_HINT_CAPACITY else estimate_children est cs)"

definition estimate_capacity_node :: "str_ref node \<Rightarrow> nat" where
  "estimate_capacity_node n =
     (let est = 1024 + 16 + sr_len (node_tag n) + length (node_attrs n) * 24;
          r = (case node_content n of
                 Some (CBytes b) \<Rightarrow> Inr (est + length b + 8)
               | Some (CString t) \<Rightarrow> Inr (est + sr_len t + 8)
               | Some (CNodes cs) \<Rightarrow> estimate_children (est + length cs * 96) (take 32 cs)
               | None \<Rightarrow> Inr est)
      in case r of Inl early \<Rightarrow> early | Inr est \<Rightarrow> max 1024 (min est AUTO_MAX_HINT_CAPACITY))"

definition marshal_auto :: "ctx \<Rightarrow> str_ref node \<Rightarrow> u8 list bres" where
  "marshal_auto cx n =
     (if should_auto_reserve_node n then marshal_with_capacity cx n (estimate_capacity_node n)
      else marshal cx n)"

text \<open>The debug assertion on the planned size is a panic here, as in a debug build.\<close>

definition marshal_exact :: "ctx \<Rightarrow> str_ref node \<Rightarrow> u8 list bres" where
  "marshal_exact cx n =
     bindR (build_marshaled_node_plan cx n) (\<lambda>plan.
     let payload = replicate (pl_size plan) 0;
         E = \<lparr>en_writer = slice_writer, en_hints = Some (pl_hints plan), en_ctx = cx\<rparr>
     in bindR (write_u8 E \<lparr>sw_buffer = payload, sw_position = 0\<rparr> 0) (\<lambda>w.
        bindR (write_node E w n) (\<lambda>w.
        let written = sw_position w in
        if written \<noteq> length (sw_buffer w) then Inl Panic
        else Inr (take written (sw_buffer w)))))"

section \<open>The planned size is the size written\<close>

definition sizes :: "ctx \<Rightarrow> sized \<Rightarrow> u8 list bres \<Rightarrow> bool" where
  "sizes cx r p \<longleftrightarrow> (\<exists>n hints. r = Inr (n, hints) \<and> hints_ok cx hints \<and> (\<forall>b. p = Inr b \<longrightarrow> n = length b))"

lemma sizes_Inr [simp]: "sizes cx (Inr (n, h)) p \<longleftrightarrow> hints_ok cx h \<and> (\<forall>b. p = Inr b \<longrightarrow> n = length b)"
  by (simp add: sizes_def)

lemma sizesI: "r = Inr (n, h) \<Longrightarrow> hints_ok cx h \<Longrightarrow> (\<And>b. p = Inr b \<Longrightarrow> n = length b) \<Longrightarrow> sizes cx r p"
  by (auto simp: sizes_def)

lemma sizes_bind:
  assumes "sizes cx r p"
    and "\<And>n h. hints_ok cx h \<Longrightarrow> \<forall>b. p = Inr b \<longrightarrow> n = length b \<Longrightarrow> sizes cx (f n h) q"
  shows "sizes cx (bindR r (\<lambda>(n, h). f n h)) q"
  using assms by (auto simp: sizes_def)

lemma length_bytes_with_len [simp]: "length (bytes_with_len b) = bytes_with_len_encoded_size (length b)"
  by (simp add: bytes_with_len_def bytes_with_len_encoded_size_def binary_len_prefix_size_def
      u20_bytes_def u32_to_be_bytes_def)

lemma length_packed_bytes [simp]: "length (packed_bytes t v s) = packed_encoded_size (length s)"
  by (simp add: packed_bytes_def packed_encoded_size_def)

lemma length_list_start: "list_start_bytes n = Inr b \<Longrightarrow> length b = list_start_encoded_size n"
  by (auto simp: list_start_bytes_def list_start_encoded_size_def u16_to_be_bytes_def split: if_splits)

lemma sizes_string_fuel:
  assumes "hints_ok cx h" "str_ok (deref cx s)" "sr_len s < n"
  shows "sizes cx (string_size_fuel n cx s h) (Inr (string_bytes (cx_tables cx) (deref cx s)))"
  using assms
proof (induction n arbitrary: s h)
  case (Suc n)
  let ?T = "cx_tables cx" and ?s = "deref cx s"
  obtain hint h' where hh: "hint_or_insert cx h s = (hint, h')" by fastforce
  then have hint: "hint = hint_of ?T ?s" and h': "hints_ok cx h'"
    using hint_or_insert_ok [OF Suc.prems(1), of s] by auto
  note sb = string_bytes.simps [of ?T ?s]
  show ?case
  proof (cases "hint_of ?T ?s")
    case (HJid m)
    note m = hint_of_HJid [OF HJid]
    obtain u v where uv: "split_jid_from_meta cx s m = Inr (u, v)"
        "deref cx u = take (pm_user_end m) ?s" "deref cx v = drop (pm_server_start m) ?s"
        "sr_len u < sr_len s" "sr_len v < sr_len s"
      using split_jid_from_meta_ok [OF m Suc.prems(2)] by blast
    have uv_ok: "str_ok (deref cx u)" "str_ok (deref cx v)" "sr_len u < n" "sr_len v < n"
      using parse_jid_meta_boundaries [OF m Suc.prems(2)] uv Suc.prems(3) by auto
    have IHu: "hints_ok cx h \<Longrightarrow> sizes cx (string_size_fuel n cx u h) (Inr (string_bytes ?T (deref cx u)))"
      and IHv: "hints_ok cx h \<Longrightarrow> sizes cx (string_size_fuel n cx v h) (Inr (string_bytes ?T (deref cx v)))" for h
      using uv_ok by (auto intro: Suc.IH)
    have emp: "sr_len u = 0 \<longleftrightarrow> deref cx u = []"
      by (metis deref_length length_0_conv)
    have us: "sizes cx (if sr_len u = 0 then Inr (1, h') else string_size_fuel n cx u h')
        (Inr (if deref cx u = [] then [LIST_EMPTY] else string_bytes ?T (deref cx u)))"
      using IHu h' emp by (auto intro: sizesI)
    have "sizes cx (parsed_jid_encoded_size_with_cache cx (string_size_fuel n cx) s m h')
        (Inr (string_bytes ?T ?s))"
    proof (cases "pm_device m")
      case None
      have "sizes cx (bindR (if sr_len u = 0 then Inr (1, h') else string_size_fuel n cx u h') (\<lambda>(n1, h).
          bindR (string_size_fuel n cx v h) (\<lambda>(n2, h). Inr (1 + n1 + n2, h)))) (Inr (string_bytes ?T ?s))"
        unfolding sb HJid using None
        by (intro sizes_bind [OF us] sizes_bind [OF IHv]) (auto simp: Let_def uv intro: sizesI)
      then show ?thesis using None uv(1) by (simp add: parsed_jid_encoded_size_with_cache_def)
    next
      case (Some d)
      have "sizes cx (bindR (string_size_fuel n cx u h') (\<lambda>(n1, h). Inr (3 + n1, h))) (Inr (string_bytes ?T ?s))"
        unfolding sb HJid using Some h'
        by (intro sizes_bind [OF IHu]) (auto simp: Let_def uv intro: sizesI)
      then show ?thesis using Some uv(1) by (simp add: parsed_jid_encoded_size_with_cache_def)
    qed
    then show ?thesis by (simp add: hh hint HJid string_encoded_size_from_hint_with_cache_def)
  qed (use hh hint h' in \<open>auto simp: sb string_encoded_size_from_hint_with_cache_def intro!: sizesI\<close>)
qed simp


lemma sizes_string:
  "hints_ok cx h \<Longrightarrow> str_ok (deref cx s) \<Longrightarrow>
   sizes cx (string_encoded_size_with_cache cx s h) (Inr (string_bytes (cx_tables cx) (deref cx s)))"
  unfolding string_encoded_size_with_cache_def by (rule sizes_string_fuel) auto

lemma sizes_server:
  "ctx_ok cx \<Longrightarrow> hints_ok cx h \<Longrightarrow>
   sizes cx (string_encoded_size_with_cache cx (cx_server cx sv) h) (Inr (string_bytes (cx_tables cx) (server_as_str sv)))"
  using sizes_string [of cx h "cx_server cx sv"] by (simp add: ctx_ok_def)

lemma sizes_jid:
  assumes "ctx_ok cx" "hints_ok cx h" "str_ok (deref cx (jid_user j))"
  shows "sizes cx (owned_jid_encoded_size_with_cache cx j h) (jid_bytes (cx_tables cx) (map_jid (deref cx) j))"
proof (cases "0 < jid_device j \<and> server_supports_ad_jid (jid_server j)")
  case True
  then show ?thesis
    unfolding owned_jid_encoded_size_with_cache_def jid_bytes_def jid.map_sel if_P [OF True]
    using assms by (intro sizes_bind [OF sizes_string]) (auto intro!: sizesI split: if_splits)
next
  case False
  have emp: "sr_len (jid_user j) = 0 \<longleftrightarrow> deref cx (jid_user j) = []"
    by (metis deref_length length_0_conv)
  have us: "sizes cx (if sr_len (jid_user j) = 0 then Inr (1, h) else string_encoded_size_with_cache cx (jid_user j) h)
      (Inr (if deref cx (jid_user j) = [] then [LIST_EMPTY] else string_bytes (cx_tables cx) (deref cx (jid_user j))))"
    using assms emp by (auto intro: sizesI sizes_string)
  show ?thesis
    unfolding owned_jid_encoded_size_with_cache_def jid_bytes_def jid.map_sel if_not_P [OF False]
    using assms(1) by (intro sizes_bind [OF us] sizes_bind [OF sizes_server]) (auto intro: sizesI)
qed

lemma sizes_attr:
  assumes "ctx_ok cx" "hints_ok cx h" "str_ok (deref cx (fst kv))"
    "list_all (\<lambda>s. str_ok (deref cx s)) (value_strings (snd kv))"
  shows "sizes cx (attr_encoded_size cx kv h)
    (attr_bytes (cx_tables cx) (map_prod (deref cx) (map_node_value (deref cx)) kv))"
proof (cases kv)
  case (Pair k v)
  have v: "sizes cx (case v of VString s \<Rightarrow> string_encoded_size_with_cache cx s h
            | VJid j \<Rightarrow> owned_jid_encoded_size_with_cache cx j h)
      (value_bytes (cx_tables cx) (map_node_value (deref cx) v))"
    using assms Pair by (cases v) (auto intro: sizes_string sizes_jid)
  have k: "hints_ok cx h \<Longrightarrow> sizes cx (string_encoded_size_with_cache cx k h)
      (Inr (string_bytes (cx_tables cx) (deref cx k)))" for h
    using assms(3) Pair by (intro sizes_string) auto
  show ?thesis
    unfolding Pair attr_encoded_size.simps attr_bytes_def
    by (intro sizes_bind [OF v] sizes_bind [OF k]) (auto simp: seqR_def intro: sizesI)
qed

lemma sizes_sum:
  assumes "\<And>x h. x \<in> set xs \<Longrightarrow> hints_ok cx h \<Longrightarrow> sizes cx (f x h) (g x)" "hints_ok cx h"
  shows "sizes cx (sum_sizes f xs h) (concatR g xs)"
  using assms
proof (induction xs arbitrary: h)
  case Nil
  then show ?case by (auto intro: sizesI)
next
  case (Cons x xs)
  have "sizes cx (f x h) (g x)" using Cons.prems by simp
  moreover have "sizes cx (sum_sizes f xs h) (concatR g xs)" if "hints_ok cx h" for h
    using Cons that by simp
  ultimately show ?case
    unfolding sum_sizes.simps by (intro sizes_bind) (assumption | fastforce)+
qed


text \<open>A node whose strings are UTF-8, and its text.\<close>

definition node_ok :: "ctx \<Rightarrow> str_ref node \<Rightarrow> bool" where
  "node_ok cx n \<longleftrightarrow> list_all (\<lambda>s. str_ok (deref cx s)) (node_strings n)"

abbreviation node_text :: "ctx \<Rightarrow> str_ref node \<Rightarrow> str node" where
  "node_text cx n \<equiv> map_node (deref cx) n"

lemma sizes_node:
  assumes "ctx_ok cx" "hints_ok cx h" "node_ok cx n"
  shows "sizes cx (node_encoded_size_with_cache cx n h) (node_bytes (cx_tables cx) (node_text cx n))"
proof -
  let ?d = "deref cx" and ?T = "cx_tables cx"
  let ?ok = "list_all (\<lambda>s. str_ok (?d s))"
  have "(\<forall>h. hints_ok cx h \<longrightarrow> ?ok (node_strings n) \<longrightarrow>
      sizes cx (node_encoded_size_with_cache cx n h) (node_bytes ?T (map_node ?d n)))"
    and "(\<forall>h. hints_ok cx h \<longrightarrow> ?ok (content_strings c) \<longrightarrow>
      sizes cx (content_encoded_size cx c h) (content_wire ?T (map_node_content ?d c)))" for n c
  proof (induction n and c rule: node_strings_content_strings.induct)
    case (1 t as co)
    have attrs: "sizes cx (sum_sizes (attr_encoded_size cx) as h)
        (concatR (attr_bytes ?T) (map (map_prod ?d (map_node_value ?d)) as))"
      if "hints_ok cx h" "?ok (concat (map (\<lambda>(k, v). k # value_strings v) as))" for h
      unfolding concatR_map using that assms(1) by (intro sizes_sum sizes_attr) (auto simp: list_all_iff)
    have cont: "sizes cx (case co of None \<Rightarrow> Inr (0, h) | Some c \<Rightarrow> content_encoded_size cx c h)
        (case co of None \<Rightarrow> Inr [] | Some c \<Rightarrow> content_wire ?T (map_node_content ?d c))"
      if "hints_ok cx h" "?ok (case co of None \<Rightarrow> [] | Some c \<Rightarrow> content_strings c)" for h
      using 1 that by (auto split: option.split)
    let ?k = "1 + length as * 2 + (case co of None \<Rightarrow> 0 | Some _ \<Rightarrow> 1)"
    have "sizes cx (bindR (sum_sizes (attr_encoded_size cx) as h) (\<lambda>(a, h).
        bindR (case co of None \<Rightarrow> Inr (0, h) | Some c \<Rightarrow> content_encoded_size cx c h) (\<lambda>(b, h).
        bindR (string_encoded_size_with_cache cx t h) (\<lambda>(c, h).
        Inr (list_start_encoded_size ?k + c + a + b, h)))))
      (seqR (list_start_bytes ?k) (seqR (Inr (string_bytes ?T (?d t)))
        (seqR (concatR (attr_bytes ?T) (map (map_prod ?d (map_node_value ?d)) as))
          (case co of None \<Rightarrow> Inr [] | Some c \<Rightarrow> content_wire ?T (map_node_content ?d c)))))"
      if "hints_ok cx h" "?ok (node_strings (Node t as co))" for h
      using that
      by (intro sizes_bind [OF attrs] sizes_bind [OF cont] sizes_bind [OF sizes_string])
        (auto simp: seqR_def length_list_start)
    then show ?case by (cases co) (auto simp: Let_def)
  next
    case (4 ns)
    have ns: "sizes cx (sum_sizes (\<lambda>n h. node_encoded_size_with_cache cx n h) ns h)
        (concatR (node_bytes ?T) (map (map_node ?d) ns))"
      if "hints_ok cx h" "?ok (content_strings (CNodes ns))" for h
      unfolding concatR_map using that 4 by (intro sizes_sum) (auto simp: list_all_iff)
    show ?case
      by (auto intro!: sizes_bind [OF ns] simp: seqR_def length_list_start)
  qed (use assms in \<open>auto intro!: sizes_string\<close>)
  then show ?thesis using assms by (simp add: node_ok_def)
qed

section \<open>Properties\<close>

lemma ctx_okD: "ctx_ok cx \<Longrightarrow> tables_ok (cx_tables cx)"
  by (simp add: ctx_ok_def)

lemma marshal_wire:
  assumes "ctx_ok cx" "node_ok cx n"
  shows "marshal cx n = mapR ((#) 0) (node_bytes (cx_tables cx) (node_text cx n))"
proof -
  let ?E = "\<lparr>en_writer = vec_writer, en_hints = None, en_ctx = cx\<rparr>"
  have "vec.sim [0] (write_node ?E [0] n) (node_bytes (cx_tables cx) (node_text cx n))"
    using assms vec.w_node [where E = ?E and w = "[0]" and n = n] by (simp add: enc_ok_def node_ok_def)
  then show ?thesis
    by (cases "node_bytes (cx_tables cx) (node_text cx n)")
      (auto simp: marshal_def marshal_to_vec_def write_u8_def vec_writer_def vec.sim_def vec.wrote_def)
qed

lemma marshal_exact_cases:
  assumes "ctx_ok cx" "node_ok cx n"
  shows "case node_bytes (cx_tables cx) (node_text cx n) of
      Inr b \<Rightarrow> marshal_exact cx n = Inr (0 # b)
    | Inl e \<Rightarrow> marshal_exact cx n = Inl e \<or> marshal_exact cx n = Inl (Err UnexpectedEof)"
proof -
  let ?p = "node_bytes (cx_tables cx) (node_text cx n)"
  obtain k h where kh: "node_encoded_size_with_cache cx n [] = Inr (k, h)" "hints_ok cx h"
      "\<forall>b. ?p = Inr b \<longrightarrow> k = length b"
    using sizes_node [OF assms(1) hints_ok_Nil assms(2)] by (auto simp: sizes_def)
  let ?E = "\<lparr>en_writer = slice_writer, en_hints = Some h, en_ctx = cx\<rparr>"
  let ?w = "\<lparr>sw_buffer = 0 # replicate k 0, sw_position = 1\<rparr> :: slice_byte_writer"
  have plan: "build_marshaled_node_plan cx n = Inr \<lparr>pl_size = Suc k, pl_hints = h\<rparr>"
    using kh(1) by (simp add: build_marshaled_node_plan_def)
  have first: "write_u8 ?E \<lparr>sw_buffer = replicate (Suc k) 0, sw_position = 0\<rparr> 0 = Inr ?w"
    by (simp add: write_u8_def slice_writer_def)
  have sim: "slice.sim ?w (write_node ?E ?w n) ?p"
    using assms kh(2) slice.w_node [where E = ?E and w = ?w and n = n] by (simp add: enc_ok_def node_ok_def)
  show ?thesis
  proof (cases ?p)
    case (Inl e)
    with sim plan first show ?thesis
      by (auto simp: marshal_exact_def slice.sim_def)
  next
    case (Inr b)
    with sim kh(3) obtain w where w: "write_node ?E ?w n = Inr w" "slice.wrote ?w b w"
      by (auto simp: slice.sim_def)
    have k: "k = length b" using kh(3) Inr by simp
    have le: "sw_position w \<le> length (sw_buffer w)"
      and fits: "\<forall>m. (sw_position w + m \<le> length (sw_buffer w)) = (length b + m \<le> k)"
      using w(2) unfolding slice.wrote_def by simp_all
    have full: "sw_position w = length (sw_buffer w)"
      using le spec [OF fits, of 1] k by simp
    with w plan first Inr show ?thesis
      by (simp add: marshal_exact_def slice.wrote_def)
  qed
qed


text \<open>A concrete memory: the server names, then the strings of a small node.\<close>

definition mem_of :: "u8 list \<Rightarrow> nat \<Rightarrow> u8" where
  "mem_of d a = (if a < length d then d ! a else 0)"

definition all_servers :: "server list" where
  "all_servers = [Pn, Lid, Group, Broadcast, Newsletter, Hosted, HostedLid, Messenger, Interop, Bot, Legacy, Call]"

definition server_block :: "u8 list" where
  "server_block = concat (map server_as_str all_servers)"

definition server_ref :: "server \<Rightarrow> str_ref" where
  "server_ref sv =
     StrRef (length (concat (map server_as_str (takeWhile (\<lambda>x. x \<noteq> sv) all_servers)))) (length (server_as_str sv))"

definition sample_ctx :: ctx where
  "sample_ctx = \<lparr>cx_tables = sample_tables, cx_simd = True,
     cx_mem = mem_of (server_block @ lit ''type'' @ lit ''to'' @ [49, 50] @ [97, 64, 98]), cx_server = server_ref\<rparr>"

definition sample_node :: "str_ref node" where
  "sample_node =
     (let b = length server_block in
      Node (StrRef b 4) [(StrRef (b + 4) 2, VJid (Jid (StrRef (b + 6) 2) Lid 0 3 0))] (Some (CBytes [1, 2, 3])))"

lemma deref_mem_of:
  "cx_mem cx = mem_of (xs @ ys @ zs) \<Longrightarrow> deref cx (StrRef (length xs) (length ys)) = ys"
  by (rule nth_equalityI) (auto simp: deref_def mem_of_def nth_append)

lemma deref_sample:
  "sample_mem = server_block @ lit ''type'' @ lit ''to'' @ [49, 50] @ [97, 64, 98] \<Longrightarrow>
   sample_mem = xs @ ys @ zs \<Longrightarrow> deref sample_ctx (StrRef (length xs) (length ys)) = ys"
  using deref_mem_of [of sample_ctx xs ys zs] by (simp add: sample_ctx_def)

lemma takeWhile_split:
  "sv \<in> set ss \<Longrightarrow> \<exists>zs. ss = takeWhile (\<lambda>x. x \<noteq> sv) ss @ sv # zs"
  by (induction ss) auto

lemma sample_ctx_ok: "ctx_ok sample_ctx"
proof -
  have "deref sample_ctx (server_ref sv) = server_as_str sv" for sv
  proof -
    have "sv \<in> set all_servers" by (cases sv) (simp_all add: all_servers_def)
    from takeWhile_split [OF this]
    obtain zs where e: "all_servers = takeWhile (\<lambda>x. x \<noteq> sv) all_servers @ sv # zs" ..
    have "server_block = concat (map server_as_str (takeWhile (\<lambda>x. x \<noteq> sv) all_servers))
        @ server_as_str sv @ concat (map server_as_str zs)"
      unfolding server_block_def
      by (rule trans [OF arg_cong [OF e, of "\<lambda>ss. concat (map server_as_str ss)"]]) simp
    then show ?thesis
      unfolding server_ref_def
      by (intro deref_sample [OF refl, where zs = "concat (map server_as_str zs) @ lit ''type'' @ lit ''to'' @ [49, 50] @ [97, 64, 98]"]) simp
  qed
  then show ?thesis by (simp add: ctx_ok_def sample_ctx_def sample_tables_ok)
qed

lemma sample_node_text:
  "node_text sample_ctx sample_node =
     Node (lit ''type'') [(lit ''to'', VJid (Jid [49, 50] Lid 0 3 0))] (Some (CBytes [1, 2, 3]))"
proof -
  have "deref sample_ctx (StrRef (length server_block) (length (lit ''type''))) = lit ''type''"
    by (rule deref_sample [OF refl]) simp
  moreover have "deref sample_ctx (StrRef (length (server_block @ lit ''type'')) (length (lit ''to''))) = lit ''to''"
    by (rule deref_sample [OF refl]) simp
  moreover have "deref sample_ctx (StrRef (length (server_block @ lit ''type'' @ lit ''to'')) (length [49 :: u8, 50])) = [49, 50]"
    by (rule deref_sample [OF refl, where zs = "[97, 64, 98]"]) simp
  ultimately show ?thesis by (simp add: sample_node_def Let_def eval_nat_numeral)
qed

lemma map_node_strings:
  "node_strings (map_node f n) = map f (node_strings n)"
  "content_strings (map_node_content f c) = map f (content_strings c)"
proof (induction n and c rule: node_strings_content_strings.induct)
  case (1 t as c)
  have "concat (map (\<lambda>(k, v). k # value_strings v) (map (map_prod f (map_node_value f)) as)) =
      map f (concat (map (\<lambda>(k, v). k # value_strings v) as))"
  proof (induction as)
    case (Cons kv as)
    then show ?case by (cases kv; cases "snd kv") (auto simp: jid.map_sel)
  qed simp
  with 1 show ?case by (cases c) auto
next
  case (4 ns)
  then show ?case by (induction ns) auto
qed auto

lemma node_ok_text: "node_ok cx n \<longleftrightarrow> list_all str_ok (node_strings (node_text cx n))"
  by (simp add: node_ok_def map_node_strings list_all_iff)

lemma sample_node_ok: "node_ok sample_ctx sample_node"
  unfolding node_ok_text sample_node_text by simp

lemma sample_tokens:
  "index_of_token sample_tables (lit ''type'') = Some (Single 2)"
  "index_of_token sample_tables (lit ''to'') = Some (Single 3)"
  "index_of_token sample_tables [49, 50] = None"
  using sample_values by (simp_all add: index_of_token_def sample_tables_def Let_def)

lemma sample_node_wire:
  "node_bytes (cx_tables sample_ctx) (node_text sample_ctx sample_node) =
     Inr [248, 4, 2, 3, 247, 1, 3, 255, 1, 0x12, 252, 3, 1, 2, 3]"
proof -
  have "string_bytes sample_tables (lit ''type'') = [2]" "string_bytes sample_tables (lit ''to'') = [3]"
      "string_bytes sample_tables [49, 50] = [255, 1, 0x12]"
    using sample_tokens by (simp_all add: string_bytes.simps hint_of_def classify_string_hint_def
        validate_nibble_def is_ascii_digit_def packed_bytes_def nibble_val_def)
  then show ?thesis
    unfolding sample_node_text
    by (simp add: seqR_def list_start_bytes_def attr_bytes_def jid_bytes_def bytes_with_len_def
        server_supports_ad_jid_def server_to_domain_type_def sample_ctx_def)
qed

text \<open>C12: the two-pass marshaller, which plans the size and reuses cached string hints,
  succeeds exactly when the one-pass marshaller does, with the same bytes; the planned size is
  the size written, and neither panics.\<close>

theorem marshal_exact_agrees:
  assumes "ctx_ok cx" and "node_ok cx n"
  shows "(\<forall>p. marshal_exact cx n = Inr p \<longleftrightarrow> marshal cx n = Inr p) \<and>
    regular (marshal cx n) \<and> regular (marshal_exact cx n)"
proof -
  have reg: "regular (node_bytes T n)" "regular (content_wire T c)" for T n c
  proof (induction T n and T c rule: node_bytes_content_wire.induct)
    case (1 T t as c)
    have "regular (value_bytes T v)" for v
      by (cases v) (auto simp: jid_bytes_def)
    then have "regular (attr_bytes T kv)" for kv
      by (auto simp: attr_bytes_def seqR_def)
    then have "regular (concatR (attr_bytes T) as)"
      by (induction as) auto
    with 1 show ?case
      by (auto simp: seqR_def list_start_bytes_def split: option.split)
  next
    case (4 T ns)
    then have "regular (concatR (node_bytes T) ns)"
      by (induction ns) auto
    then show ?case by (auto simp: seqR_def list_start_bytes_def)
  qed auto
  show ?thesis
    using marshal_wire [OF assms] marshal_exact_cases [OF assms] reg(1) [of "cx_tables cx" "node_text cx n"]
    by (cases "node_bytes (cx_tables cx) (node_text cx n)") auto
qed


theorem marshal_exact_agrees_witness:
  "ctx_ok sample_ctx \<and> node_ok sample_ctx sample_node \<and> regular (marshal_exact sample_ctx sample_node)"
  using marshal_exact_agrees [OF sample_ctx_ok sample_node_ok] sample_ctx_ok sample_node_ok by simp

text \<open>C15: a marshalled node is a zero byte followed by the wire form of the node's text,
  whatever the addresses of its strings; the automatic strategy gives the same result, with a
  capacity between 1 KiB and 512 KiB.\<close>

theorem marshal_refines_wire:
  assumes "ctx_ok cx" and "node_ok cx n"
  shows "marshal cx n = mapR ((#) 0) (node_bytes (cx_tables cx) (node_text cx n)) \<and>
    marshal_auto cx n = marshal cx n \<and>
    1024 \<le> estimate_capacity_node n \<and> estimate_capacity_node n \<le> AUTO_MAX_HINT_CAPACITY"
proof -
  have early: "estimate_children est cs = Inl m \<Longrightarrow> m = AUTO_MAX_HINT_CAPACITY" for est cs m
    by (induction est cs rule: estimate_children.induct) (auto simp: Let_def split: if_splits)
  show ?thesis
    using marshal_wire [OF assms]
    by (auto simp: marshal_auto_def marshal_with_capacity_def marshal_def estimate_capacity_node_def Let_def
        dest!: early split: option.splits node_content.splits sum.splits)
qed

theorem marshal_refines_wire_witness:
  "marshal sample_ctx sample_node =
     Inr (0 # [248, 4, 2, 3, 247, 1, 3, 255, 1, 0x12, 252, 3, 1, 2, 3])"
  using marshal_refines_wire [OF sample_ctx_ok sample_node_ok] sample_node_wire by simp


end
