(* ===== verification/Decoder.thy ===== *)
theory Decoder
  imports Node Pack
begin

text \<open>
  The decoder (\<open>binary/src/decoder.rs\<close>): a cursor over the received bytes, the readers of
  integers, strings, JIDs, attributes, contents and nodes, and \<open>unmarshal_ref\<close> of
  \<open>marshal.rs\<close>.  A reader maps a cursor to a result and the moved cursor, or to an error.

  The source recurses through \<open>read_value_as_string\<close> (a JID inside a string) and through
  \<open>read_node_ref\<close> (children).  Every level consumes at least one byte, so the recursion depth
  is bounded by the number of bytes left, which is the fuel given to it; the lemmas show that
  it never runs out.  The other readers take the recursive reader as an argument.
\<close>

section \<open>The cursor\<close>

record decoder =
  dc_data :: "u8 list"
  dc_position :: nat

record dec_env =
  de_tables :: tables
  de_simd :: bool
  de_itoa :: itoa

type_synonym 'a reader = "decoder \<Rightarrow> ('a \<times> decoder) bres"

definition decoder_new :: "u8 list \<Rightarrow> decoder" where
  "decoder_new data = \<lparr>dc_data = data, dc_position = 0\<rparr>"

definition is_finished :: "decoder \<Rightarrow> bool" where
  "is_finished d \<longleftrightarrow> dc_position d \<ge> length (dc_data d)"

text \<open>An index or a range outside the data panics, and so does a subtraction below zero.\<close>

definition index_of :: "'a list \<Rightarrow> nat \<Rightarrow> 'a bres" where
  "index_of xs i = (if i < length xs then Inr (xs ! i) else Inl Panic)"

definition range_of :: "u8 list \<Rightarrow> nat \<Rightarrow> nat \<Rightarrow> u8 list bres" where
  "range_of xs start end' = (if start \<le> end' \<and> end' \<le> length xs then Inr (slice xs start end') else Inl Panic)"

definition bytes_left :: "decoder \<Rightarrow> nat bres" where
  "bytes_left d =
     (if dc_position d \<le> length (dc_data d) then Inr (length (dc_data d) - dc_position d) else Inl Panic)"

definition check_eos :: "decoder \<Rightarrow> nat \<Rightarrow> unit bres" where
  "check_eos d len = bindR (bytes_left d) (\<lambda>left. if left \<ge> len then Inr () else Inl (Err UnexpectedEof))"

definition read_u8 :: "u8 reader" where
  "read_u8 d =
     bindR (check_eos d 1) (\<lambda>_.
     let position = dc_position d; d = d\<lparr>dc_position := dc_position d + 1\<rparr> in
     bindR (index_of (dc_data d) position) (\<lambda>b. Inr (b, d)))"

definition read_u16_be :: "u16 reader" where
  "read_u16_be d =
     bindR (check_eos d 2) (\<lambda>_.
     let position = dc_position d; d = d\<lparr>dc_position := dc_position d + 2\<rparr> in
     bindR (index_of (dc_data d) position) (\<lambda>b0.
     bindR (index_of (dc_data d) (position + 1)) (\<lambda>b1.
     Inr (u16_from_be_bytes b0 b1, d))))"

definition u20_from_bytes :: "u8 \<Rightarrow> u8 \<Rightarrow> u8 \<Rightarrow> u32" where
  "u20_from_bytes a b c = push_bit 16 (ucast a AND 0x0F) OR push_bit 8 (ucast b) OR ucast c"

definition read_u20_be :: "u32 reader" where
  "read_u20_be d =
     bindR (check_eos d 3) (\<lambda>_.
     let position = dc_position d; d = d\<lparr>dc_position := dc_position d + 3\<rparr> in
     bindR (index_of (dc_data d) position) (\<lambda>b0.
     bindR (index_of (dc_data d) (position + 1)) (\<lambda>b1.
     bindR (index_of (dc_data d) (position + 2)) (\<lambda>b2.
     Inr (u20_from_bytes b0 b1 b2, d)))))"

definition read_u32_be :: "u32 reader" where
  "read_u32_be d =
     bindR (check_eos d 4) (\<lambda>_.
     let position = dc_position d; d = d\<lparr>dc_position := dc_position d + 4\<rparr> in
     bindR (index_of (dc_data d) position) (\<lambda>b0.
     bindR (index_of (dc_data d) (position + 1)) (\<lambda>b1.
     bindR (index_of (dc_data d) (position + 2)) (\<lambda>b2.
     bindR (index_of (dc_data d) (position + 3)) (\<lambda>b3.
     Inr (u32_from_be_bytes b0 b1 b2 b3, d))))))"

definition read_bytes :: "nat \<Rightarrow> u8 list reader" where
  "read_bytes len d =
     bindR (check_eos d len) (\<lambda>_.
     let start = dc_position d; end' = start + len; d = d\<lparr>dc_position := end'\<rparr> in
     bindR (range_of (dc_data d) start end') (\<lambda>bytes. Inr (bytes, d)))"

definition read_string :: "nat \<Rightarrow> str reader" where
  "read_string len d =
     bindR (read_bytes len d) (\<lambda>(bytes, d).
     if utf8_valid bytes then Inr (bytes, d) else Inl (Err InvalidUtf8))"

definition read_list_size :: "u8 \<Rightarrow> nat reader" where
  "read_list_size tag d =
     (if tag = LIST_EMPTY then Inr (0, d)
      else if tag = LIST_8 then bindR (read_u8 d) (\<lambda>(v, d). Inr (unat v, d))
      else if tag = LIST_16 then bindR (read_u16_be d) (\<lambda>(v, d). Inr (unat v, d))
      else Inl (Err (InvalidToken tag)))"

section \<open>Packed strings\<close>

definition read_packed :: "dec_env \<Rightarrow> u8 \<Rightarrow> str reader" where
  "read_packed en tag d =
     bindR (read_u8 d) (\<lambda>(packed_len_byte, d).
     let is_half_byte = (packed_len_byte AND 0x80 \<noteq> 0);
         len = unat (packed_len_byte AND 0x7F)
     in if len = 0 then Inr ([], d)
        else
          bindR (read_bytes len d) (\<lambda>(packed_data, d).
          bindR (if tag = HEX_8 then decode_packed_hex (de_simd en) packed_data (replicate 254 0, 0)
                 else if tag = NIBBLE_8 then decode_packed_nibble (de_simd en) packed_data (replicate 254 0, 0)
                 else Inl (Err (InvalidToken tag))) (\<lambda>(buf, pos).
          let pos = (if is_half_byte \<and> pos > 0 then pos - 1 else pos) in
          bindR (range_of buf 0 pos) (\<lambda>s.
          if utf8_valid s then Inr (s, d) else Inl Panic))))"

section \<open>JIDs and strings\<close>

definition jid_ref_to_compact :: "dec_env \<Rightarrow> str jid \<Rightarrow> str" where
  "jid_ref_to_compact en j =
     push_jid_to_compact (de_itoa en) (jid_user j) (jid_server j) (jid_agent j) (jid_device j) []"

definition unwrap_or_default :: "str option \<Rightarrow> str" where
  "unwrap_or_default s = (case s of None \<Rightarrow> [] | Some t \<Rightarrow> t)"

definition read_jid_pair :: "str option reader \<Rightarrow> str jid reader" where
  "read_jid_pair read_value_as_string d =
     bindR (read_value_as_string d) (\<lambda>(user, d).
     let user = unwrap_or_default user in
     bindR (read_value_as_string d) (\<lambda>(server_str, d).
     let server_str = unwrap_or_default server_str in
     (case server_try_from server_str of
        Inl _ \<Rightarrow> Inl (Err (AttrParse (lit ''JID_PAIR unknown server: '' @ server_str)))
      | Inr server \<Rightarrow> Inr (Jid user server 0 0 0, d))))"

definition domain_server :: "u8 \<Rightarrow> server bres" where
  "domain_server a =
     (if a = 0 then Inr Pn
      else if a = 1 then Inr Lid
      else if a = 128 then Inr Hosted
      else if a = 129 then Inr HostedLid
      else if a AND 128 \<noteq> 0 \<and> a AND 1 = 0 then Inr Hosted
      else Inl (Err (AttrParse (lit ''read_ad_jid - Invalid domain type encoding '' @ decimal (unat a)))))"

definition read_ad_jid :: "str option reader \<Rightarrow> str jid reader" where
  "read_ad_jid read_value_as_string d =
     bindR (read_u8 d) (\<lambda>(a, d).
     bindR (read_u8 d) (\<lambda>(device, d).
     bindR (read_value_as_string d) (\<lambda>(user, d).
     bindR (ok_or user InvalidNode) (\<lambda>user.
     bindR (domain_server a) (\<lambda>server.
     Inr (Jid user server a (ucast device) 0, d))))))"

definition read_interop_jid :: "str option reader \<Rightarrow> str jid reader" where
  "read_interop_jid read_value_as_string d =
     bindR (read_value_as_string d) (\<lambda>(user, d).
     bindR (ok_or user InvalidNode) (\<lambda>user.
     bindR (read_u16_be d) (\<lambda>(device, d).
     bindR (read_u16_be d) (\<lambda>(integrator, d).
     bindR (read_value_as_string d) (\<lambda>(server_str, d).
     if unwrap_or_default server_str \<noteq> INTEROP_SERVER then Inl (Err InvalidNode)
     else Inr (Jid user Interop 0 device integrator, d))))))"

definition read_fb_jid :: "str option reader \<Rightarrow> str jid reader" where
  "read_fb_jid read_value_as_string d =
     bindR (read_value_as_string d) (\<lambda>(user, d).
     bindR (ok_or user InvalidNode) (\<lambda>user.
     bindR (read_u16_be d) (\<lambda>(device, d).
     bindR (read_value_as_string d) (\<lambda>(server_str, d).
     if unwrap_or_default server_str \<noteq> MESSENGER_SERVER then Inl (Err InvalidNode)
     else Inr (Jid user Messenger 0 device 0, d)))))"

definition read_value_as_string_from_tag ::
    "dec_env \<Rightarrow> str option reader \<Rightarrow> u8 \<Rightarrow> str option reader" where
  "read_value_as_string_from_tag en read_value_as_string tag d =
     (if tag = LIST_EMPTY then Inr (None, d)
      else if tag = BINARY_8 then
        bindR (read_u8 d) (\<lambda>(size, d). bindR (read_string (unat size) d) (\<lambda>(s, d). Inr (Some s, d)))
      else if tag = BINARY_20 then
        bindR (read_u20_be d) (\<lambda>(size, d). bindR (read_string (unat size) d) (\<lambda>(s, d). Inr (Some s, d)))
      else if tag = BINARY_32 then
        bindR (read_u32_be d) (\<lambda>(size, d). bindR (read_string (unat size) d) (\<lambda>(s, d). Inr (Some s, d)))
      else if tag = JID_PAIR then
        bindR (read_jid_pair read_value_as_string d) (\<lambda>(j, d). Inr (Some (jid_ref_to_compact en j), d))
      else if tag = AD_JID then
        bindR (read_ad_jid read_value_as_string d) (\<lambda>(j, d). Inr (Some (jid_ref_to_compact en j), d))
      else if tag = INTEROP_JID then
        bindR (read_interop_jid read_value_as_string d) (\<lambda>(j, d). Inr (Some (jid_ref_to_compact en j), d))
      else if tag = FB_JID then
        bindR (read_fb_jid read_value_as_string d) (\<lambda>(j, d). Inr (Some (jid_ref_to_compact en j), d))
      else if tag = NIBBLE_8 \<or> tag = HEX_8 then
        bindR (read_packed en tag d) (\<lambda>(s, d). Inr (Some s, d))
      else if DICTIONARY_0 \<le> tag \<and> tag \<le> DICTIONARY_3 then
        bindR (read_u8 d) (\<lambda>(index, d).
        bindR (ok_or (get_double_token (de_tables en) (tag - DICTIONARY_0) index) (InvalidToken tag)) (\<lambda>s.
        Inr (Some s, d)))
      else
        bindR (ok_or (get_single_token (de_tables en) tag) (InvalidToken tag)) (\<lambda>s. Inr (Some s, d)))"

fun read_value_as_string_fuel :: "nat \<Rightarrow> dec_env \<Rightarrow> str option reader" where
  "read_value_as_string_fuel 0 en d = Inl OutOfFuel"
| "read_value_as_string_fuel (Suc n) en d =
     bindR (read_u8 d) (\<lambda>(tag, d).
     read_value_as_string_from_tag en (read_value_as_string_fuel n en) tag d)"

text \<open>The bytes after the cursor, which bound the recursion.\<close>

definition remaining :: "decoder \<Rightarrow> nat" where
  "remaining d = length (dc_data d) - dc_position d"

definition read_value_as_string :: "dec_env \<Rightarrow> str option reader" where
  "read_value_as_string en d = read_value_as_string_fuel (Suc (remaining d)) en d"

definition read_value :: "dec_env \<Rightarrow> str node_value option reader" where
  "read_value en d =
     bindR (read_u8 d) (\<lambda>(tag, d).
     if tag = LIST_EMPTY then Inr (None, d)
     else if tag = BINARY_8 then
       bindR (read_u8 d) (\<lambda>(size, d). bindR (read_string (unat size) d) (\<lambda>(s, d). Inr (Some (VString s), d)))
     else if tag = BINARY_20 then
       bindR (read_u20_be d) (\<lambda>(size, d). bindR (read_string (unat size) d) (\<lambda>(s, d). Inr (Some (VString s), d)))
     else if tag = BINARY_32 then
       bindR (read_u32_be d) (\<lambda>(size, d). bindR (read_string (unat size) d) (\<lambda>(s, d). Inr (Some (VString s), d)))
     else if tag = JID_PAIR then
       bindR (read_jid_pair (read_value_as_string en) d) (\<lambda>(j, d). Inr (Some (VJid j), d))
     else if tag = AD_JID then
       bindR (read_ad_jid (read_value_as_string en) d) (\<lambda>(j, d). Inr (Some (VJid j), d))
     else if tag = INTEROP_JID then
       bindR (read_interop_jid (read_value_as_string en) d) (\<lambda>(j, d). Inr (Some (VJid j), d))
     else if tag = FB_JID then
       bindR (read_fb_jid (read_value_as_string en) d) (\<lambda>(j, d). Inr (Some (VJid j), d))
     else if tag = NIBBLE_8 \<or> tag = HEX_8 then
       bindR (read_packed en tag d) (\<lambda>(s, d). Inr (Some (VString s), d))
     else if DICTIONARY_0 \<le> tag \<and> tag \<le> DICTIONARY_3 then
       bindR (read_u8 d) (\<lambda>(index, d).
       bindR (ok_or (get_double_token (de_tables en) (tag - DICTIONARY_0) index) (InvalidToken tag)) (\<lambda>s.
       Inr (Some (VString s), d)))
     else
       bindR (ok_or (get_single_token (de_tables en) tag) (InvalidToken tag)) (\<lambda>s. Inr (Some (VString s), d)))"

section \<open>Nodes\<close>

text \<open>\<open>for _ in 0..n { v.push(f()?) }\<close>.\<close>

fun read_times :: "nat \<Rightarrow> 'a reader \<Rightarrow> 'a list reader" where
  "read_times 0 f d = Inr ([], d)"
| "read_times (Suc n) f d =
     bindR (f d) (\<lambda>(x, d). bindR (read_times n f d) (\<lambda>(xs, d). Inr (x # xs, d)))"

definition read_attribute :: "dec_env \<Rightarrow> (str \<times> str node_value) reader" where
  "read_attribute en d =
     bindR (read_value_as_string en d) (\<lambda>(key, d).
     bindR (ok_or key NonStringKey) (\<lambda>key.
     bindR (read_value en d) (\<lambda>(value, d).
     Inr ((key, case value of Some v \<Rightarrow> v | None \<Rightarrow> VString []), d))))"

definition read_attributes :: "dec_env \<Rightarrow> nat \<Rightarrow> str attrs reader" where
  "read_attributes en sz d =
     (if sz = 0 then Inr ([], d) else read_times sz (read_attribute en) d)"

definition read_content_from_tag ::
    "dec_env \<Rightarrow> str node reader \<Rightarrow> u8 \<Rightarrow> str node_content option reader" where
  "read_content_from_tag en read_node_ref tag d =
     (if tag = LIST_EMPTY then Inr (None, d)
      else if tag = LIST_8 \<or> tag = LIST_16 then
        bindR (read_list_size tag d) (\<lambda>(size, d).
        bindR (read_times size read_node_ref d) (\<lambda>(nodes, d). Inr (Some (CNodes nodes), d)))
      else if tag = BINARY_8 then
        bindR (read_u8 d) (\<lambda>(len, d). bindR (read_bytes (unat len) d) (\<lambda>(b, d). Inr (Some (CBytes b), d)))
      else if tag = BINARY_20 then
        bindR (read_u20_be d) (\<lambda>(len, d). bindR (read_bytes (unat len) d) (\<lambda>(b, d). Inr (Some (CBytes b), d)))
      else if tag = BINARY_32 then
        bindR (read_u32_be d) (\<lambda>(len, d). bindR (read_bytes (unat len) d) (\<lambda>(b, d). Inr (Some (CBytes b), d)))
      else
        bindR (read_value_as_string_from_tag en (read_value_as_string en) tag d) (\<lambda>(s, d).
        Inr (map_option CString s, d)))"

definition read_content :: "dec_env \<Rightarrow> str node reader \<Rightarrow> str node_content option reader" where
  "read_content en read_node_ref d =
     bindR (read_u8 d) (\<lambda>(tag, d). read_content_from_tag en read_node_ref tag d)"

definition read_node_body :: "dec_env \<Rightarrow> str node reader \<Rightarrow> str node reader" where
  "read_node_body en read_node_ref d =
     bindR (read_u8 d) (\<lambda>(tag, d).
     bindR (read_list_size tag d) (\<lambda>(list_size, d).
     if list_size = 0 then Inl (Err InvalidNode)
     else
       bindR (read_value_as_string en d) (\<lambda>(tag, d).
       bindR (ok_or tag InvalidNode) (\<lambda>tag.
       let attr_count = (list_size - 1) div 2; has_content = (list_size mod 2 = 0) in
       bindR (read_attributes en attr_count d) (\<lambda>(attrs, d).
       bindR (if has_content then read_content en read_node_ref d else Inr (None, d)) (\<lambda>(content, d).
       Inr (Node tag attrs content, d)))))))"

fun read_node_fuel :: "nat \<Rightarrow> dec_env \<Rightarrow> str node reader" where
  "read_node_fuel 0 en d = Inl OutOfFuel"
| "read_node_fuel (Suc n) en d = read_node_body en (read_node_fuel n en) d"

definition read_node_ref :: "dec_env \<Rightarrow> str node reader" where
  "read_node_ref en d = read_node_fuel (Suc (remaining d)) en d"

definition unmarshal_ref :: "dec_env \<Rightarrow> u8 list \<Rightarrow> str node bres" where
  "unmarshal_ref en data =
     bindR (read_node_ref en (decoder_new data)) (\<lambda>(n, d).
     if is_finished d then Inr n else bindR (bytes_left d) (\<lambda>left. Inl (Err (LeftoverData left))))"


section \<open>Every reader ends, moves forward and never panics\<close>

text \<open>
  \<open>reads k Q d r\<close>: from the cursor \<open>d\<close> the outcome \<open>r\<close> is an error value, or a value that
  satisfies \<open>Q\<close> with the cursor moved by at least \<open>k\<close> bytes and still inside the data.
\<close>

definition cursor_ok :: "decoder \<Rightarrow> bool" where
  "cursor_ok d \<longleftrightarrow> dc_position d \<le> length (dc_data d)"

definition reads :: "nat \<Rightarrow> ('a \<Rightarrow> bool) \<Rightarrow> decoder \<Rightarrow> ('a \<times> decoder) bres \<Rightarrow> bool" where
  "reads k Q d r \<longleftrightarrow>
     (case r of
        Inr (x, d') \<Rightarrow> dc_data d' = dc_data d \<and> dc_position d + k \<le> dc_position d' \<and> cursor_ok d' \<and> Q x
      | Inl e \<Rightarrow> \<exists>x. e = Err x)"

lemma reads_Inr [simp]: "reads k Q d (Inr (x, d')) \<longleftrightarrow>
    dc_data d' = dc_data d \<and> dc_position d + k \<le> dc_position d' \<and> cursor_ok d' \<and> Q x"
  by (simp add: reads_def)

lemma reads_Err [simp]: "reads k Q d (Inl (Err e))"
  by (simp add: reads_def)

lemma reads_regular: "reads k Q d r \<Longrightarrow> regular r"
  by (auto simp: reads_def split: sum.splits)

lemma reads_bind:
  assumes "reads k Q d r"
    and "\<And>x d'. Q x \<Longrightarrow> cursor_ok d' \<Longrightarrow> dc_data d' = dc_data d \<Longrightarrow> dc_position d + k \<le> dc_position d' \<Longrightarrow>
      reads m P d' (f x d')"
    and "n \<le> k + m"
  shows "reads n P d (bindR r (\<lambda>(x, d). f x d))"
proof (cases r)
  case (Inr xd)
  then obtain x d' where r: "r = Inr (x, d')" by (cases xd) auto
  with assms(1) have *: "Q x" "cursor_ok d'" "dc_data d' = dc_data d" "dc_position d + k \<le> dc_position d'"
    by simp_all
  from assms(2) [OF this] have "reads m P d' (f x d')" .
  with r * assms(3) show ?thesis by (auto simp: reads_def split: sum.splits)
qed (use assms(1) in \<open>auto simp: reads_def\<close>)

lemma reads_bindE:
  assumes "r = Inr x \<or> (\<exists>e. r = Inl (Err e))" and "\<And>x. r = Inr x \<Longrightarrow> reads k P d (f x)"
  shows "reads k P d (bindR r f)"
  using assms by (cases r) auto

lemma reads_ok_or:
  "(\<And>x. o' = Some x \<Longrightarrow> reads k P d (f x)) \<Longrightarrow> reads k P d (bindR (ok_or o' e) f)"
  by (cases o') auto

lemma reads_weaken: "reads k Q d r \<Longrightarrow> j \<le> k \<Longrightarrow> (\<And>x. Q x \<Longrightarrow> P x) \<Longrightarrow> reads j P d r"
  by (auto simp: reads_def split: sum.splits)

lemma reads_ints:
  assumes "cursor_ok d"
  shows "reads 1 (\<lambda>_. True) d (read_u8 d)" "reads 2 (\<lambda>_. True) d (read_u16_be d)"
    "reads 3 (\<lambda>_. True) d (read_u20_be d)" "reads 4 (\<lambda>_. True) d (read_u32_be d)"
    "reads n (\<lambda>b. length b = n) d (read_bytes n d)"
  using assms
  by (auto simp: read_u8_def read_u16_be_def read_u20_be_def read_u32_be_def read_bytes_def
      check_eos_def bytes_left_def index_of_def range_of_def cursor_ok_def slice_def Let_def)

lemma reads_string: "cursor_ok d \<Longrightarrow> reads 0 str_ok d (read_string n d)"
  unfolding read_string_def by (rule reads_bind [OF reads_ints(5), where m = 0]) auto

lemma reads_list_size: "cursor_ok d \<Longrightarrow> reads 0 (\<lambda>_. True) d (read_list_size tag d)"
  unfolding read_list_size_def
  by (auto intro!: reads_bind [OF reads_ints(1), where m = 0] reads_bind [OF reads_ints(2), where m = 0])


subsection \<open>Packed strings\<close>

lemma unpack_nibble_ascii: "unpack_nibble v = Inr c \<Longrightarrow> c < 0x80"
  by (auto simp: unpack_nibble_def word_le_nat_alt word_less_nat_alt unat_word_ariths split: if_splits)

lemma unpack_hex_ascii: "v < 16 \<Longrightarrow> unpack_hex v = Inr c \<Longrightarrow> c < 0x80"
  using u8_less_16_cases [of v] by (auto simp: unpack_hex_def)

lemma unpack_hex_total: "v < 16 \<Longrightarrow> \<exists>c. unpack_hex v = Inr c"
  using u8_less_16_cases [of v] by (auto simp: unpack_hex_def)

lemma unpack_list_ascii:
  assumes "\<And>v c. v < 16 \<Longrightarrow> f v = Inr c \<Longrightarrow> c < 0x80" "unpack_list f bs = Inr cs"
  shows "list_all (\<lambda>b. b < 0x80) cs"
  using assms(2)
proof (induction bs arbitrary: cs)
  case (Cons b bs)
  then obtain h l r where *: "f (high_nibble b) = Inr h" "f (low_nibble b) = Inr l"
      "unpack_list f bs = Inr r" "cs = h # l # r" by auto
  with Cons.IH assms(1) [OF nibble_parts_less(1) *(1)] assms(1) [OF nibble_parts_less(2) *(2)]
  show ?case by simp
qed simp

lemma unpack_list_Err:
  assumes "\<And>v. v < 16 \<Longrightarrow> (\<exists>c. f v = Inr c) \<or> (\<exists>e. f v = Inl (Err e))" "unpack_list f bs = Inl x"
  shows "\<exists>e. x = Err e"
  using assms(2)
proof (induction bs)
  case (Cons b bs)
  then show ?case
    using assms(1) [of "high_nibble b"] assms(1) [of "low_nibble b"] by (auto simp: bindR_eq_Inl)
qed simp

lemma unpack_nibble_Err: "(\<exists>c. unpack_nibble v = Inr c) \<or> (\<exists>e. unpack_nibble v = Inl (Err e))"
  by (auto simp: unpack_nibble_def)

lemma decode_packed_list:
  assumes "length data \<le> 127"
  shows "decode_packed_hex simd data (replicate 254 0, 0) = mapR (store (replicate 254 0, 0)) (unpack_list unpack_hex data)"
    and "decode_packed_nibble simd data (replicate 254 0, 0) = mapR (store (replicate 254 0, 0)) (unpack_list unpack_nibble data)"
  using assms simd_hex_loop [of "(replicate 254 0, 0)" data] simd_nibble_loop [of "(replicate 254 0, 0)" data]
    unpack_loop_list [of "(replicate 254 0, 0)" data]
  by (simp_all add: decode_packed_hex_def decode_packed_nibble_def)

lemma and_7F_le: "unat (b AND 0x7F :: u8) \<le> 127"
proof -
  have "b AND 0x7F = take_bit 7 b" by (simp add: take_bit_eq_mask mask_eq_exp_minus_1)
  moreover have "take_bit 7 (unat b) < 2 ^ 7" by (rule take_bit_nat_less_exp)
  ultimately show ?thesis by (simp add: unsigned_take_bit_eq)
qed

lemma list_all_take: "list_all P xs \<Longrightarrow> list_all P (take n xs)"
  by (auto simp: list_all_iff dest: in_set_takeD)

lemma reads_packed:
  assumes "cursor_ok d" "tag = HEX_8 \<or> tag = NIBBLE_8"
  shows "reads 1 str_ok d (read_packed en tag d)"
proof -
  define f where "f = (if tag = HEX_8 then unpack_hex else unpack_nibble)"
  have f_ascii: "v < 16 \<Longrightarrow> f v = Inr c \<Longrightarrow> c < 0x80" for v c
    using unpack_hex_ascii unpack_nibble_ascii by (auto simp: f_def split: if_splits)
  have f_Err: "v < 16 \<Longrightarrow> (\<exists>c. f v = Inr c) \<or> (\<exists>e. f v = Inl (Err e))" for v
    using unpack_hex_total unpack_nibble_Err by (auto simp: f_def)
  have tail: "reads 0 str_ok d (bindR (if tag = HEX_8 then decode_packed_hex (de_simd en) data (replicate 254 0, 0)
        else if tag = NIBBLE_8 then decode_packed_nibble (de_simd en) data (replicate 254 0, 0)
        else Inl (Err (InvalidToken tag))) (\<lambda>(buf, pos).
        let pos = (if h \<and> pos > 0 then pos - 1 else pos) in
        bindR (range_of buf 0 pos) (\<lambda>s.
        if utf8_valid s then Inr (s, d) else Inl Panic)))"
    if "length data \<le> 127" "cursor_ok d" for data h d
  proof -
    have dec: "(if tag = HEX_8 then decode_packed_hex (de_simd en) data (replicate 254 0, 0)
        else if tag = NIBBLE_8 then decode_packed_nibble (de_simd en) data (replicate 254 0, 0)
        else Inl (Err (InvalidToken tag))) = mapR (store (replicate 254 0, 0)) (unpack_list f data)"
      using decode_packed_list [OF that(1)] assms(2) by (auto simp: f_def)
    show ?thesis
    proof (cases "unpack_list f data")
      case (Inl x)
      with unpack_list_Err [of f, OF f_Err Inl] show ?thesis unfolding dec by auto
    next
      case (Inr cs)
      have "list_all (\<lambda>b. b < 0x80) (take k cs)" for k
        using unpack_list_ascii [of f, OF f_ascii Inr] by (rule list_all_take)
      then have valid: "utf8_valid (take k cs)" for k by (rule utf8_valid_ascii)
      from valid [of "length cs"] have "utf8_valid cs" by simp
      with valid show ?thesis unfolding dec using Inr that(2) by (auto simp: store_def range_of_def slice_def Let_def)
    qed
  qed
  have rest: "reads 0 str_ok d (bindR (read_bytes (unat (b AND 0x7F)) d) (\<lambda>(data, d).
      bindR (if tag = HEX_8 then decode_packed_hex (de_simd en) data (replicate 254 0, 0)
        else if tag = NIBBLE_8 then decode_packed_nibble (de_simd en) data (replicate 254 0, 0)
        else Inl (Err (InvalidToken tag))) (\<lambda>(buf, pos).
        let pos = (if h \<and> pos > 0 then pos - 1 else pos) in
        bindR (range_of buf 0 pos) (\<lambda>s.
        if utf8_valid s then Inr (s, d) else Inl Panic))))" if "cursor_ok d" for b :: u8 and h d
    using and_7F_le [of b]
    by (intro reads_bind [OF reads_ints(5) [OF that], where m = 0] tail) auto
  show ?thesis
    unfolding read_packed_def
    by (intro reads_bind [OF reads_ints(1) [OF assms(1)], where m = 0])
      (use rest in \<open>auto simp: Let_def [of "_ \<noteq> _"] Let_def [of "unat _"]\<close>)
qed


subsection \<open>Strings, JIDs and values\<close>

definition opt_ok :: "str option \<Rightarrow> bool" where
  "opt_ok s \<longleftrightarrow> (case s of None \<Rightarrow> True | Some t \<Rightarrow> str_ok t)"

lemma opt_ok_simps [simp]: "opt_ok None" "opt_ok (Some t) \<longleftrightarrow> str_ok t"
  by (simp_all add: opt_ok_def)

lemma unwrap_ok: "opt_ok s \<Longrightarrow> str_ok (unwrap_or_default s)"
  by (cases s) (simp_all add: unwrap_or_default_def)

text \<open>A string reader that is good for cursors with fewer than \<open>m\<close> bytes left.\<close>

definition reads_strings :: "nat \<Rightarrow> str option reader \<Rightarrow> bool" where
  "reads_strings m rvs \<longleftrightarrow>
     (\<forall>d. cursor_ok d \<longrightarrow> remaining d < m \<longrightarrow> reads 1 opt_ok d (rvs d))"

lemma reads_stringsD: "reads_strings m rvs \<Longrightarrow> cursor_ok d \<Longrightarrow> remaining d < m \<Longrightarrow> reads 1 opt_ok d (rvs d)"
  by (simp add: reads_strings_def)

lemma remaining_after: "dc_data d' = dc_data d \<Longrightarrow> dc_position d + k \<le> dc_position d' \<Longrightarrow>
    remaining d < m \<Longrightarrow> remaining d' < m"
  by (auto simp: remaining_def)

lemma remaining_after_strict: "dc_data d' = dc_data d \<Longrightarrow> dc_position d + 1 \<le> dc_position d' \<Longrightarrow>
    cursor_ok d' \<Longrightarrow> remaining d < Suc m \<Longrightarrow> remaining d' < m"
  by (auto simp: remaining_def cursor_ok_def)

abbreviation user_ok :: "str jid \<Rightarrow> bool" where
  "user_ok j \<equiv> str_ok (jid_user j)"

lemma reads_jid_pair:
  assumes "reads_strings m rvs" "cursor_ok d" "remaining d < m"
  shows "reads 1 user_ok d (read_jid_pair rvs d)"
  unfolding read_jid_pair_def Let_def
  apply (rule reads_bind [OF reads_stringsD [OF assms], where m = 0])
   apply (rule reads_bind [OF reads_stringsD [OF assms(1)], where m = 0], assumption)
  subgoal using assms(3) by (simp add: remaining_def)
  by (auto simp: unwrap_ok split: sum.split)

lemma reads_ad_jid:
  assumes "reads_strings m rvs" "cursor_ok d" "remaining d < m"
  shows "reads 1 user_ok d (read_ad_jid rvs d)"
  unfolding read_ad_jid_def
  apply (rule reads_bind [OF reads_ints(1) [OF assms(2)], where m = 0])
   apply (rule reads_bind [OF reads_ints(1), where m = 0], assumption)
    apply (rule reads_bind [OF reads_stringsD [OF assms(1)], where m = 0], assumption)
  subgoal using assms(3) by (simp add: remaining_def)
  by (auto intro!: reads_ok_or simp: domain_server_def)

lemma reads_interop_jid:
  assumes "reads_strings m rvs" "cursor_ok d" "remaining d < m"
  shows "reads 1 user_ok d (read_interop_jid rvs d)"
  unfolding read_interop_jid_def
  apply (rule reads_bind [OF reads_stringsD [OF assms], where m = 0])
   apply (rule reads_ok_or)
   apply (rule reads_bind [OF reads_ints(2), where m = 0], assumption)
    apply (rule reads_bind [OF reads_ints(2), where m = 0], assumption)
     apply (rule reads_bind [OF reads_stringsD [OF assms(1)], where m = 0], assumption)
  subgoal using assms(3) by (simp add: remaining_def)
  by auto

lemma reads_fb_jid:
  assumes "reads_strings m rvs" "cursor_ok d" "remaining d < m"
  shows "reads 1 user_ok d (read_fb_jid rvs d)"
  unfolding read_fb_jid_def
  apply (rule reads_bind [OF reads_stringsD [OF assms], where m = 0])
   apply (rule reads_ok_or)
   apply (rule reads_bind [OF reads_ints(2), where m = 0], assumption)
    apply (rule reads_bind [OF reads_stringsD [OF assms(1)], where m = 0], assumption)
  subgoal using assms(3) by (simp add: remaining_def)
  by auto


definition env_ok :: "dec_env \<Rightarrow> bool" where
  "env_ok en \<longleftrightarrow> tables_ok (de_tables en) \<and> itoa_ok (de_itoa en)"

lemma jid_ref_to_compact_alt: "jid_ref_to_compact en j = to_string (de_itoa en) j"
  by (simp add: jid_ref_to_compact_def push_jid_to_compact_def to_string_def push_to_def)

lemma compact_ok: "env_ok en \<Longrightarrow> user_ok j \<Longrightarrow> str_ok (jid_ref_to_compact en j)"
  unfolding jid_ref_to_compact_alt by (rule utf8_valid_to_string) (simp_all add: env_ok_def)

lemma reads_if: "(P \<Longrightarrow> reads k Q d a) \<Longrightarrow> (\<not> P \<Longrightarrow> reads k Q d b) \<Longrightarrow> reads k Q d (if P then a else b)"
  by simp

lemma reads_bin:
  assumes "cursor_ok d" "\<And>s. str_ok s \<Longrightarrow> Q (g s)"
  shows "reads 0 Q d (bindR (read_u8 d) (\<lambda>(sz, d). bindR (read_string (unat sz) d) (\<lambda>(s, d). Inr (g s, d))))"
    "reads 0 Q d (bindR (read_u20_be d) (\<lambda>(sz, d). bindR (read_string (unat sz) d) (\<lambda>(s, d). Inr (g s, d))))"
    "reads 0 Q d (bindR (read_u32_be d) (\<lambda>(sz, d). bindR (read_string (unat sz) d) (\<lambda>(s, d). Inr (g s, d))))"
  using assms
  by (auto intro!: reads_bind [OF reads_ints(1), where m = 0] reads_bind [OF reads_ints(3), where m = 0]
      reads_bind [OF reads_ints(4), where m = 0] reads_bind [OF reads_string, where m = 0])

lemma reads_jids:
  assumes "reads_strings m rvs" "cursor_ok d" "remaining d < m" "\<And>j. user_ok j \<Longrightarrow> Q (g j)"
  shows "reads 0 Q d (bindR (read_jid_pair rvs d) (\<lambda>(j, d). Inr (g j, d)))"
    "reads 0 Q d (bindR (read_ad_jid rvs d) (\<lambda>(j, d). Inr (g j, d)))"
    "reads 0 Q d (bindR (read_interop_jid rvs d) (\<lambda>(j, d). Inr (g j, d)))"
    "reads 0 Q d (bindR (read_fb_jid rvs d) (\<lambda>(j, d). Inr (g j, d)))"
  using assms(2,4)
  by (auto intro!: reads_bind [OF reads_jid_pair [OF assms(1-3)], where m = 0]
      reads_bind [OF reads_ad_jid [OF assms(1-3)], where m = 0]
      reads_bind [OF reads_interop_jid [OF assms(1-3)], where m = 0]
      reads_bind [OF reads_fb_jid [OF assms(1-3)], where m = 0])

lemma reads_tokens:
  assumes "env_ok en" "cursor_ok d" "\<And>s. str_ok s \<Longrightarrow> Q (g s)"
  shows "tag = NIBBLE_8 \<or> tag = HEX_8 \<Longrightarrow> reads 0 Q d (bindR (read_packed en tag d) (\<lambda>(s, d). Inr (g s, d)))"
    "reads 0 Q d (bindR (read_u8 d) (\<lambda>(index, d).
        bindR (ok_or (get_double_token (de_tables en) dict index) (InvalidToken tag)) (\<lambda>s. Inr (g s, d))))"
    "reads 0 Q d (bindR (ok_or (get_single_token (de_tables en) tag) (InvalidToken tag)) (\<lambda>s. Inr (g s, d)))"
  using assms get_single_ok get_double_ok
  by (auto simp: env_ok_def intro!: reads_bind [OF reads_packed, where m = 0]
      reads_bind [OF reads_ints(1), where m = 0] reads_ok_or)

lemma reads_from_tag:
  assumes "env_ok en" "reads_strings m rvs" "cursor_ok d" "remaining d < m"
  shows "reads 0 opt_ok d (read_value_as_string_from_tag en rvs tag d)"
proof -
  have "user_ok j \<Longrightarrow> opt_ok (Some (jid_ref_to_compact en j))" for j
    using compact_ok [OF assms(1)] by simp
  note jids = reads_jids [OF assms(2-4), where Q = opt_ok and g = "\<lambda>j. Some (jid_ref_to_compact en j)", OF this]
  note bin = reads_bin [OF assms(3), where g = Some and Q = opt_ok]
    and tok = reads_tokens [OF assms(1,3), where g = Some and Q = opt_ok]
  show ?thesis
    unfolding read_value_as_string_from_tag_def
    by (intro reads_if bin jids tok) (simp_all add: assms(3))
qed

lemma reads_rvs_fuel:
  "env_ok en \<Longrightarrow> reads_strings n (read_value_as_string_fuel n en)"
proof (induction n)
  case (Suc n)
  show ?case
    unfolding reads_strings_def read_value_as_string_fuel.simps
  proof (intro allI impI)
    fix d
    assume d: "cursor_ok d" "remaining d < Suc n"
    show "reads 1 opt_ok d (bindR (read_u8 d) (\<lambda>(tag, d).
        read_value_as_string_from_tag en (read_value_as_string_fuel n en) tag d))"
      using Suc remaining_after_strict [OF _ _ _ d(2)]
      by (intro reads_bind [OF reads_ints(1) [OF d(1)], where m = 0] reads_from_tag [where m = n]) auto
  qed
qed (simp add: reads_strings_def)

lemma reads_value_as_string: "env_ok en \<Longrightarrow> cursor_ok d \<Longrightarrow> reads 1 opt_ok d (read_value_as_string en d)"
  unfolding read_value_as_string_def using reads_rvs_fuel by (rule reads_stringsD) auto

lemma reads_rvs: "env_ok en \<Longrightarrow> reads_strings m (read_value_as_string en)"
  unfolding reads_strings_def using reads_value_as_string by blast

abbreviation value_ok :: "str node_value option \<Rightarrow> bool" where
  "value_ok v \<equiv> (case v of None \<Rightarrow> True | Some x \<Rightarrow> list_all str_ok (value_strings x))"

lemma reads_value:
  assumes "env_ok en" "cursor_ok d"
  shows "reads 1 value_ok d (read_value en d)"
  unfolding read_value_def
  apply (rule reads_bind [OF reads_ints(1) [OF assms(2)], where m = 0])
   apply (intro reads_if reads_bin reads_tokens reads_jids [OF reads_rvs [OF assms(1)] _ lessI])
  by (simp_all add: assms(1))

subsection \<open>Nodes\<close>

lemma reads_times:
  assumes "\<And>d'. cursor_ok d' \<Longrightarrow> dc_data d' = dc_data d \<Longrightarrow> dc_position d \<le> dc_position d' \<Longrightarrow> reads 0 Q d' (f d')"
    and "cursor_ok d"
  shows "reads 0 (list_all Q) d (read_times n f d)"
  using assms
proof (induction n arbitrary: d)
  case (Suc n)
  show ?case
    unfolding read_times.simps
    apply (rule reads_bind [where m = 0])
      apply (rule Suc.prems(1) [OF Suc.prems(2)]; simp)
     apply (rule reads_bind [where m = 0])
       apply (rule Suc.IH)
        apply (rule Suc.prems(1); simp)
    by simp_all
qed simp

abbreviation strings_ok :: "str node \<Rightarrow> bool" where
  "strings_ok n \<equiv> list_all str_ok (node_strings n)"

definition reads_nodes :: "nat \<Rightarrow> str node reader \<Rightarrow> bool" where
  "reads_nodes m rnode \<longleftrightarrow>
     (\<forall>d. cursor_ok d \<longrightarrow> remaining d < m \<longrightarrow> reads 1 strings_ok d (rnode d))"

abbreviation attr_ok :: "str \<times> str node_value \<Rightarrow> bool" where
  "attr_ok kv \<equiv> str_ok (fst kv) \<and> list_all str_ok (value_strings (snd kv))"

lemma reads_attribute:
  assumes "env_ok en" "cursor_ok d"
  shows "reads 0 attr_ok d (read_attribute en d)"
  unfolding read_attribute_def
  apply (rule reads_bind [OF reads_value_as_string [OF assms], where m = 0])
   apply (rule reads_ok_or)
   apply (rule reads_bind [OF reads_value [OF assms(1)], where m = 0])
  by (auto split: option.splits)

lemma reads_attributes:
  assumes "env_ok en" "cursor_ok d"
  shows "reads 0 (list_all attr_ok) d (read_attributes en n d)"
  unfolding read_attributes_def
  using assms by (auto intro!: reads_times reads_attribute)

abbreviation cont_ok :: "str node_content option \<Rightarrow> bool" where
  "cont_ok c \<equiv> (case c of None \<Rightarrow> True | Some c \<Rightarrow> list_all str_ok (content_strings c))"

lemma reads_bin_bytes:
  assumes "cursor_ok d"
  shows "reads 0 cont_ok d (bindR (read_u8 d) (\<lambda>(sz, d). bindR (read_bytes (unat sz) d) (\<lambda>(b, d). Inr (Some (CBytes b), d))))"
    "reads 0 cont_ok d (bindR (read_u20_be d) (\<lambda>(sz, d). bindR (read_bytes (unat sz) d) (\<lambda>(b, d). Inr (Some (CBytes b), d))))"
    "reads 0 cont_ok d (bindR (read_u32_be d) (\<lambda>(sz, d). bindR (read_bytes (unat sz) d) (\<lambda>(b, d). Inr (Some (CBytes b), d))))"
  using assms
  by (auto intro!: reads_bind [OF reads_ints(1), where m = 0] reads_bind [OF reads_ints(3), where m = 0]
      reads_bind [OF reads_ints(4), where m = 0] reads_bind [OF reads_ints(5), where m = 0])

lemma reads_content:
  assumes "env_ok en" "reads_nodes m rnode" "cursor_ok d" "remaining d < m"
  shows "reads 0 cont_ok d (read_content en rnode d)"
proof -
  have rn: "reads 0 strings_ok e (rnode e)" if "cursor_ok e" "remaining e < m" for e
  proof (rule reads_weaken)
    show "reads 1 strings_ok e (rnode e)" using assms(2) that unfolding reads_nodes_def by blast
  qed simp_all
  have nodes: "reads 0 cont_ok d' (bindR (read_list_size tag d') (\<lambda>(size, d).
        bindR (read_times size rnode d) (\<lambda>(nodes, d). Inr (Some (CNodes nodes), d))))"
    if "cursor_ok d'" "dc_data d' = dc_data d" "dc_position d + 1 \<le> dc_position d'" for d' tag
    apply (rule reads_bind [OF reads_list_size [OF that(1)], where m = 0])
     apply (rule reads_bind [OF reads_times [where Q = strings_ok], where m = 0])
        apply (rule rn)
    using assms(4) that by (auto simp: remaining_def list_all_iff)
  have strs: "reads 0 cont_ok d' (bindR (read_value_as_string_from_tag en (read_value_as_string en) tag d') (\<lambda>(s, d).
        Inr (map_option CString s, d)))" if "cursor_ok d'" for d' tag
    apply (rule reads_bind [OF reads_from_tag [OF assms(1) reads_rvs [OF assms(1)] that lessI], where m = 0])
    by (auto split: option.split)
  show ?thesis
    unfolding read_content_def read_content_from_tag_def
    apply (rule reads_bind [OF reads_ints(1) [OF assms(3)], where m = 0])
     apply (intro reads_if reads_bin_bytes nodes strs)
    by simp_all
qed

lemma reads_node_body:
  assumes "env_ok en" "reads_nodes m rnode" "cursor_ok d" "remaining d \<le> m"
  shows "reads 1 strings_ok d (read_node_body en rnode d)"
  unfolding read_node_body_def Let_def
  apply (rule reads_bind [OF reads_ints(1) [OF assms(3)], where m = 0])
   apply (rule reads_bind [OF reads_list_size, where m = 0], assumption)
    apply (rule reads_if, simp)
    apply (rule reads_bind [OF reads_value_as_string [OF assms(1)], where m = 0], assumption)
     apply (rule reads_ok_or)
     apply (rule reads_bind [OF reads_attributes [OF assms(1)], where m = 0], assumption)
      apply (rule reads_bind [where Q = cont_ok and k = 0 and m = 0])
  subgoal using assms by (auto intro!: reads_content simp: remaining_def cursor_ok_def)
  by (auto simp: list_all_iff split: option.splits)

lemma reads_node_fuel: "env_ok en \<Longrightarrow> reads_nodes n (read_node_fuel n en)"
proof (induction n)
  case (Suc n)
  then show ?case
    using reads_node_body [of en n "read_node_fuel n en"]
    unfolding reads_nodes_def read_node_fuel.simps less_Suc_eq_le by blast
qed (simp add: reads_nodes_def)

section \<open>Properties\<close>


definition sample_env :: dec_env where
  "sample_env = \<lparr>de_tables = sample_tables, de_simd = True, de_itoa = decimal\<rparr>"

lemma sample_env_ok: "env_ok sample_env"
  by (simp add: env_ok_def sample_env_def sample_tables_ok itoa_ok_decimal)


end
