(* ===== verification/Roundtrip.thy ===== *)
theory Roundtrip
  imports Plan Decoder
begin

text \<open>
  Decoding what was encoded.  The wire format does not keep everything: string content that
  travels as raw bytes comes back as bytes, an empty list of children comes back as no
  content, an attribute value that looks like a JID comes back as a JID, and a structured JID
  keeps only what its wire form carries.  \<open>norm_node\<close> says exactly what comes back, and
  \<open>node_decodable\<close> says when: lengths below \<open>2 ^ 32\<close>, and a known server name after the first
  \<open>@\<close> of every string the encoder takes for a JID.
\<close>

section \<open>What comes back\<close>

text \<open>The JID that the decoder reads for a string the encoder has classified as a JID.\<close>

definition wire_jid :: "str \<Rightarrow> parsed_jid_meta \<Rightarrow> str jid option" where
  "wire_jid s m =
     map_option (\<lambda>sv.
       (case pm_device m of
          Some d \<Rightarrow> Jid (take (pm_user_end m) s) sv (pm_domain_type m) (ucast d) 0
        | None \<Rightarrow> Jid (take (pm_user_end m) s) sv 0 0 0))
       (ok (server_try_from (drop (pm_server_start m) s)))"

definition str_decodable :: "tables \<Rightarrow> str \<Rightarrow> bool" where
  "str_decodable T s \<longleftrightarrow>
     length s < 2 ^ 32 \<and> (case hint_of T s of HJid m \<Rightarrow> wire_jid s m \<noteq> None | _ \<Rightarrow> True)"

definition norm_str :: "tables \<Rightarrow> itoa \<Rightarrow> str \<Rightarrow> str" where
  "norm_str T it s =
     (case hint_of T s of HJid m \<Rightarrow> (case wire_jid s m of Some j \<Rightarrow> to_string it j | None \<Rightarrow> s) | _ \<Rightarrow> s)"

definition norm_jid :: "tables \<Rightarrow> itoa \<Rightarrow> str jid \<Rightarrow> str jid" where
  "norm_jid T it j =
     (if 0 < jid_device j \<and> server_supports_ad_jid (jid_server j)
      then Jid (norm_str T it (jid_user j)) (jid_server j) (server_to_domain_type (jid_server j)) (jid_device j) 0
      else Jid (norm_str T it (jid_user j)) (jid_server j) 0 0 0)"

fun norm_value :: "tables \<Rightarrow> itoa \<Rightarrow> str node_value \<Rightarrow> str node_value" where
  "norm_value T it (VString s) =
     (case hint_of T s of HJid m \<Rightarrow> (case wire_jid s m of Some j \<Rightarrow> VJid j | None \<Rightarrow> VString s) | _ \<Rightarrow> VString s)"
| "norm_value T it (VJid j) = VJid (norm_jid T it j)"

fun norm_node :: "tables \<Rightarrow> itoa \<Rightarrow> str node \<Rightarrow> str node"
and norm_content :: "tables \<Rightarrow> itoa \<Rightarrow> str node_content \<Rightarrow> str node_content option" where
  "norm_node T it (Node t as c) =
     Node (norm_str T it t) (map (map_prod (norm_str T it) (norm_value T it)) as)
       (case c of None \<Rightarrow> None | Some c \<Rightarrow> norm_content T it c)"
| "norm_content T it (CBytes b) = Some (CBytes b)"
| "norm_content T it (CString s) =
     (case hint_of T s of HEmpty \<Rightarrow> Some (CBytes s) | HRawBytes \<Rightarrow> Some (CBytes s) | _ \<Rightarrow> Some (CString (norm_str T it s)))"
| "norm_content T it (CNodes ns) = (if ns = [] then None else Some (CNodes (map (norm_node T it) ns)))"

fun byte_contents :: "'s node \<Rightarrow> u8 list list"
and byte_contents_c :: "'s node_content \<Rightarrow> u8 list list" where
  "byte_contents (Node t as c) = (case c of None \<Rightarrow> [] | Some c \<Rightarrow> byte_contents_c c)"
| "byte_contents_c (CBytes b) = [b]"
| "byte_contents_c (CString s) = []"
| "byte_contents_c (CNodes ns) = concat (map byte_contents ns)"

definition node_decodable :: "tables \<Rightarrow> str node \<Rightarrow> bool" where
  "node_decodable T n \<longleftrightarrow>
     list_all (\<lambda>s. str_ok s \<and> str_decodable T s) (node_strings n) \<and>
     list_all (\<lambda>b. length b < 2 ^ 32) (byte_contents n)"

section \<open>Reading a known prefix\<close>

text \<open>\<open>ahead d bs\<close>: the bytes at the cursor start with \<open>bs\<close>.\<close>

definition ahead :: "decoder \<Rightarrow> u8 list \<Rightarrow> bool" where
  "ahead d bs \<longleftrightarrow> (\<exists>pre post. dc_data d = pre @ bs @ post \<and> dc_position d = length pre)"

definition skip :: "decoder \<Rightarrow> nat \<Rightarrow> decoder" where
  "skip d n = d\<lparr>dc_position := dc_position d + n\<rparr>"

lemma skip_skip [simp]: "skip (skip d a) b = skip d (a + b)"
  by (simp add: skip_def add.assoc)

lemma skip_0 [simp]: "skip d 0 = d"
  by (simp add: skip_def)

lemma ahead_split: "ahead d (a @ b) \<Longrightarrow> ahead d a \<and> ahead (skip d (length a)) b"
proof -
  assume "ahead d (a @ b)"
  then obtain pre post where "dc_data d = pre @ (a @ b) @ post" "dc_position d = length pre"
    by (auto simp: ahead_def)
  then have "dc_data d = pre @ a @ (b @ post)" "dc_data (skip d (length a)) = (pre @ a) @ b @ post"
    "dc_position (skip d (length a)) = length (pre @ a)" "dc_position d = length pre"
    by (simp_all add: skip_def)
  then show ?thesis unfolding ahead_def by blast
qed

lemma ahead_Cons: "ahead d (x # b) \<Longrightarrow> ahead d [x] \<and> ahead (skip d 1) b"
  using ahead_split [of d "[x]" b] by simp

lemma ahead_left: "ahead d bs \<Longrightarrow> length bs \<le> remaining d \<and> cursor_ok d"
  by (auto simp: ahead_def remaining_def cursor_ok_def)

lemma remaining_skip [simp]: "remaining (skip d n) = remaining d - n"
  by (simp add: remaining_def skip_def)

lemma ahead_nth: "ahead d bs \<Longrightarrow> i < length bs \<Longrightarrow> dc_data d ! (dc_position d + i) = bs ! i"
  by (auto simp: ahead_def nth_append)

lemma read_u8_ahead: "ahead d (x # b) \<Longrightarrow> read_u8 d = Inr (x, skip d 1)"
  using ahead_left [of d "x # b"] ahead_nth [of d "x # b" 0]
  by (auto simp: read_u8_def check_eos_def bytes_left_def remaining_def cursor_ok_def index_of_def Let_def skip_def)

lemma read_u16_ahead: "ahead d (u16_to_be_bytes w @ b) \<Longrightarrow> read_u16_be d = Inr (w, skip d 2)"
  using ahead_left [of d "u16_to_be_bytes w @ b"] ahead_nth [of d "u16_to_be_bytes w @ b" 0]
    ahead_nth [of d "u16_to_be_bytes w @ b" 1]
  by (auto simp: read_u16_be_def check_eos_def bytes_left_def remaining_def cursor_ok_def index_of_def Let_def skip_def u16_to_be_bytes_def)

lemma u20_roundtrip:
  assumes "unat w < 2 ^ 20"
  shows "u20_from_bytes (ucast (drop_bit 16 w AND 0x0F)) (ucast (drop_bit 8 w AND 0xFF)) (ucast (w AND 0xFF)) = w"
proof (rule bit_word_eqI)
  have w: "w = take_bit 20 w"
    using assms by (metis nat_take_bit_eq take_bit_nat_eq_self unsigned_take_bit_eq word_unat_eq_iff)
  then have hi: "bit w n \<Longrightarrow> n < 20" for n by (metis bit_take_bit_iff)
  fix n :: nat
  assume "n < LENGTH(32)"
  then consider "n < 8" | "8 \<le> n" "n < 16" | "16 \<le> n" "n < 20" | "20 \<le> n" "n < 32" by fastforce
  then show "bit (u20_from_bytes (ucast (drop_bit 16 w AND 0x0F)) (ucast (drop_bit 8 w AND 0xFF)) (ucast (w AND 0xFF))) n
      \<longleftrightarrow> bit w n"
    by cases (auto simp: u20_from_bytes_def and_mask4 and_mask8 bit_simps dest: hi)
qed

lemma read_u20_ahead:
  "ahead d (u20_bytes w @ b) \<Longrightarrow> unat w < 2 ^ 20 \<Longrightarrow> read_u20_be d = Inr (w, skip d 3)"
  using ahead_left [of d "u20_bytes w @ b"] ahead_nth [of d "u20_bytes w @ b" 0]
    ahead_nth [of d "u20_bytes w @ b" 1] ahead_nth [of d "u20_bytes w @ b" 2] u20_roundtrip [of w]
  by (auto simp: read_u20_be_def check_eos_def bytes_left_def remaining_def cursor_ok_def index_of_def Let_def skip_def u20_bytes_def numeral_2_eq_2)

lemma read_u32_ahead: "ahead d (u32_to_be_bytes w @ b) \<Longrightarrow> read_u32_be d = Inr (w, skip d 4)"
  using ahead_left [of d "u32_to_be_bytes w @ b"] ahead_nth [of d "u32_to_be_bytes w @ b" 0]
    ahead_nth [of d "u32_to_be_bytes w @ b" 1] ahead_nth [of d "u32_to_be_bytes w @ b" 2]
    ahead_nth [of d "u32_to_be_bytes w @ b" 3]
  by (auto simp: read_u32_be_def check_eos_def bytes_left_def remaining_def cursor_ok_def index_of_def Let_def skip_def u32_to_be_bytes_def numeral_2_eq_2 numeral_3_eq_3)

lemma read_bytes_ahead: "ahead d (bs @ b) \<Longrightarrow> n = length bs \<Longrightarrow> read_bytes n d = Inr (bs, skip d n)"
  using ahead_left [of d "bs @ b"]
  by (auto simp: read_bytes_def check_eos_def bytes_left_def range_of_def skip_def ahead_def slice_def Let_def)


text \<open>A length-prefixed string, read as a string or as bytes.\<close>

lemma len_u32: "length bs < 2 ^ 32 \<Longrightarrow> unat (of_nat (length bs) :: u32) = length bs"
  by (simp add: unat_of_nat take_bit_eq_mod)

lemma len_u8: "n < 256 \<Longrightarrow> unat (of_nat n :: u8) = n"
  by (simp add: unat_of_nat take_bit_eq_mod)

lemma len_u16: "n < 65536 \<Longrightarrow> unat (of_nat n :: u16) = n"
  by (simp add: unat_of_nat take_bit_eq_mod)

text \<open>Both readers of length-prefixed data, by the tag that announces the width of the length.\<close>

definition read_sized :: "u8 \<Rightarrow> (nat \<Rightarrow> 'a reader) \<Rightarrow> 'a reader" where
  "read_sized tag f d =
     (if tag = BINARY_8 then bindR (read_u8 d) (\<lambda>(n, d). f (unat n) d)
      else if tag = BINARY_20 then bindR (read_u20_be d) (\<lambda>(n, d). f (unat n) d)
      else bindR (read_u32_be d) (\<lambda>(n, d). f (unat n) d))"

lemma wire_lengths [simp]:
  "length (u20_bytes w) = 3" "length (u32_to_be_bytes w) = 4" "length (u16_to_be_bytes v) = 2"
  by (simp_all add: u20_bytes_def u32_to_be_bytes_def u16_to_be_bytes_def)

lemma bytes_with_len_header:
  assumes "length bs < 2 ^ 32"
  shows "\<exists>tag hdr. bytes_with_len bs = tag # hdr @ bs \<and> tag \<in> {BINARY_8, BINARY_20, BINARY_32} \<and>
    (\<forall>d b. ahead d (hdr @ b) \<longrightarrow> (\<forall>f :: nat \<Rightarrow> 'a reader. read_sized tag f d = f (length bs) (skip d (length hdr))))"
proof -
  have u: "unat (of_nat (length bs) :: u32) = length bs" using assms by (rule len_u32)
  consider "length bs < 256" | "256 \<le> length bs" "length bs < 2 ^ 20" | "2 ^ 20 \<le> length bs" by fastforce
  then show ?thesis
  proof cases
    case 1
    then show ?thesis
      by (intro exI [of _ BINARY_8] exI [of _ "[of_nat (length bs)]"])
        (auto simp: bytes_with_len_def read_sized_def read_u8_ahead len_u8)
  next
    case 2
    with u show ?thesis
      by (intro exI [of _ BINARY_20] exI [of _ "u20_bytes (of_nat (length bs))"])
        (auto simp: bytes_with_len_def read_sized_def read_u20_ahead)
  next
    case 3
    with u show ?thesis
      by (intro exI [of _ BINARY_32] exI [of _ "u32_to_be_bytes (of_nat (length bs))"])
        (auto simp: bytes_with_len_def read_sized_def read_u32_ahead)
  qed
qed

lemma read_sized_ahead:
  assumes "ahead d (bytes_with_len bs)" "length bs < 2 ^ 32"
  shows "\<exists>tag k. tag \<in> {BINARY_8, BINARY_20, BINARY_32} \<and> read_u8 d = Inr (tag, skip d 1) \<and>
    (\<forall>f :: nat \<Rightarrow> 'a reader. read_sized tag f (skip d 1) = f (length bs) (skip d (1 + k))) \<and>
    ahead (skip d (1 + k)) bs \<and> length (bytes_with_len bs) = 1 + k + length bs"
proof -
  from bytes_with_len_header [OF assms(2)] obtain tag hdr where
    h: "bytes_with_len bs = tag # hdr @ bs" "tag \<in> {BINARY_8, BINARY_20, BINARY_32}"
      "\<And>d b. ahead d (hdr @ b) \<Longrightarrow> (\<forall>f :: nat \<Rightarrow> 'a reader. read_sized tag f d = f (length bs) (skip d (length hdr)))"
    by blast
  have a: "ahead (skip d 1) (hdr @ bs)"
    using assms(1) h(1) ahead_Cons [of d tag "hdr @ bs"] by simp
  have "read_u8 d = Inr (tag, skip d 1)" using assms(1) h(1) by (simp add: read_u8_ahead)
  with h(1,2) h(3) [OF a] ahead_split [OF a] show ?thesis
    by (intro exI [of _ tag] exI [of _ "length hdr"]) simp
qed


subsection \<open>Packed strings\<close>

lemma packed_len_byte:
  assumes "n \<le> 64"
  shows "unat (of_nat n AND 0x7F :: u8) = n" "unat ((of_nat n OR 0x80) AND 0x7F :: u8) = n"
    "(of_nat n AND 0x80 :: u8) = 0" "((of_nat n OR 0x80) AND 0x80 :: u8) \<noteq> 0"
proof -
  from assms have "n \<in> set [0..<65]" by simp
  then show "unat (of_nat n AND 0x7F :: u8) = n" "unat ((of_nat n OR 0x80) AND 0x7F :: u8) = n"
      "(of_nat n AND 0x80 :: u8) = 0" "((of_nat n OR 0x80) AND 0x80 :: u8) \<noteq> 0"
    by (simp_all add: upt_rec) (elim disjE; simp)+
qed

lemma read_packed_ahead:
  assumes "ahead d (tl (packed_bytes tag v s) @ b)" "s \<noteq> []"
    and "validate_nibble s \<and> tag = NIBBLE_8 \<and> v = nibble_val \<or> validate_hex s \<and> tag = HEX_8 \<and> v = hex_val"
  shows "read_packed en tag d = Inr (s, skip d (length (packed_bytes tag v s) - 1))"
proof -
  let ?n = "(length s + 1) div 2" and ?data = "pack_pairs v s"
  let ?f = "if tag = HEX_8 then unpack_hex else unpack_nibble"
  define lb :: u8 where "lb = (if odd (length s) then of_nat ?n OR 0x80 else of_nat ?n)"
  have len: "length s \<le> 127" using assms(3) by (auto simp: validate_nibble_def validate_hex_def)
  then have n: "?n \<le> 64" by simp
  have asc: "list_all (\<lambda>b. b < 0x80) s"
    using assms(3) nibble_char(6) hex_char(5) by (auto simp: validate_nibble_def validate_hex_def list_all_iff)
  have lb: "unat (lb AND 0x7F) = ?n" "(lb AND 0x80 \<noteq> 0) = odd (length s)"
    using packed_len_byte [OF n] by (auto simp: lb_def)
  have d: "ahead d (lb # ?data @ b)" using assms(1) by (simp add: packed_bytes_def lb_def)
  have r1: "read_u8 d = Inr (lb, skip d 1)" using d by (rule read_u8_ahead)
  have r2: "read_bytes ?n (skip d 1) = Inr (?data, skip d (1 + ?n))"
    using read_bytes_ahead [OF conjunct2 [OF ahead_Cons [OF d]], of ?n] by simp
  have "\<exists>p. unpack_list ?f ?data = Inr (s @ (if odd (length s) then [p] else []))"
    using assms(3) nibble_char hex_char pack_pad
    by (elim disjE) (rule exI, rule unpack_pack_pairs; force simp: validate_nibble_def validate_hex_def list_all_iff)+
  then obtain p where up: "unpack_list ?f ?data = Inr (s @ (if odd (length s) then [p] else []))" ..
  have dec: "(if tag = HEX_8 then decode_packed_hex (de_simd en) ?data (replicate 254 0, 0)
        else if tag = NIBBLE_8 then decode_packed_nibble (de_simd en) ?data (replicate 254 0, 0)
        else Inl (Err (InvalidToken tag))) =
      Inr (store (replicate 254 0, 0) (s @ (if odd (length s) then [p] else [])))"
    using decode_packed_list [of ?data "de_simd en"] n assms(3) up by auto
  have cut: "take (if odd (length s) \<and> 0 < length (s @ (if odd (length s) then [p] else []))
      then length (s @ (if odd (length s) then [p] else [])) - 1
      else length (s @ (if odd (length s) then [p] else []))) ((s @ (if odd (length s) then [p] else [])) @ r) = s" for r
    by simp
  have "?n \<noteq> 0" using assms(2) by (cases s) auto
  then show ?thesis
    using r1 r2 dec cut utf8_valid_ascii [OF asc] lb
    by (simp add: read_packed_def Let_def store_def packed_bytes_def range_of_def slice_def)
qed


subsection \<open>Strings\<close>

abbreviation bin_tag :: "u8 \<Rightarrow> bool" where
  "bin_tag t \<equiv> t = BINARY_8 \<or> t = BINARY_20 \<or> t = BINARY_32"

abbreviation jid_tag :: "u8 \<Rightarrow> bool" where
  "jid_tag t \<equiv> t = JID_PAIR \<or> t = AD_JID \<or> t = INTEROP_JID \<or> t = FB_JID"

abbreviation list_tag :: "u8 \<Rightarrow> bool" where
  "list_tag t \<equiv> t = LIST_EMPTY \<or> t = LIST_8 \<or> t = LIST_16"

lemma from_tag_bin:
  "bin_tag t \<Longrightarrow> read_value_as_string_from_tag en rvs t d =
     read_sized t (\<lambda>n d. bindR (read_string n d) (\<lambda>(s, d). Inr (Some s, d))) d"
  by (auto simp: read_value_as_string_from_tag_def read_sized_def)

lemma read_value_plain:
  "read_u8 d = Inr (t, d') \<Longrightarrow> \<not> jid_tag t \<Longrightarrow>
   read_value en d = bindR (read_value_as_string_from_tag en rvs t d') (\<lambda>(s, d). Inr (map_option VString s, d))"
  by (simp add: read_value_def read_value_as_string_from_tag_def bindR_assoc split_def)

lemma content_plain:
  "\<not> list_tag t \<Longrightarrow> \<not> bin_tag t \<Longrightarrow>
   read_content_from_tag en rn t d =
     bindR (read_value_as_string_from_tag en (read_value_as_string en) t d) (\<lambda>(s, d). Inr (map_option CString s, d))"
  by (simp add: read_content_from_tag_def)

lemma content_bin:
  "bin_tag t \<Longrightarrow> read_content_from_tag en rn t d =
     read_sized t (\<lambda>n d. bindR (read_bytes n d) (\<lambda>(b, d). Inr (Some (CBytes b), d))) d"
  by (auto simp: read_content_from_tag_def read_sized_def)

definition raw_hint :: "string_hint \<Rightarrow> bool" where
  "raw_hint h \<longleftrightarrow> h = HEmpty \<or> h = HRawBytes"

definition jid_hint :: "string_hint \<Rightarrow> bool" where
  "jid_hint h \<longleftrightarrow> (\<exists>m. h = HJid m)"

lemma string_bytes_raw: "raw_hint (hint_of T s) \<Longrightarrow> string_bytes T s = bytes_with_len s"
  by (subst string_bytes.simps)
    (auto simp: raw_hint_def bytes_with_len_def hint_of_def classify_string_hint_def Let_def
      split: if_splits option.splits token_kind.splits)

text \<open>\<open>plain_at d s n tag\<close>: at \<open>d\<close> the tag \<open>tag\<close> announces the string \<open>s\<close>, which takes \<open>n\<close> bytes.\<close>

definition plain_at :: "dec_env \<Rightarrow> decoder \<Rightarrow> str \<Rightarrow> nat \<Rightarrow> u8 \<Rightarrow> bool" where
  "plain_at en d s n tag \<longleftrightarrow>
     read_u8 d = Inr (tag, skip d 1) \<and>
     (\<forall>rvs. read_value_as_string_from_tag en rvs tag (skip d 1) = Inr (Some s, skip d n)) \<and>
     \<not> jid_tag tag \<and> \<not> list_tag tag"

lemma plain_raw:
  assumes "ahead d (bytes_with_len s)" "length s < 2 ^ 32" "str_ok s"
  shows "\<exists>tag. plain_at en d s (length (bytes_with_len s)) tag \<and> bin_tag tag"
proof -
  from read_sized_ahead [OF assms(1,2)] obtain tag k where
    t: "tag \<in> {BINARY_8, BINARY_20, BINARY_32}" "read_u8 d = Inr (tag, skip d 1)"
      "\<And>f :: nat \<Rightarrow> str option reader. read_sized tag f (skip d 1) = f (length s) (skip d (1 + k))"
      "ahead (skip d (1 + k)) s" "length (bytes_with_len s) = 1 + k + length s" by blast
  have "read_string (length s) (skip d (1 + k)) = Inr (s, skip d (length (bytes_with_len s)))"
    using read_bytes_ahead [of "skip d (1 + k)" s "[]"] t(4,5) assms(3) by (simp add: read_string_def)
  then have "read_value_as_string_from_tag en rvs tag (skip d 1) = Inr (Some s, skip d (length (bytes_with_len s)))" for rvs
    using t(1,3) by (subst from_tag_bin) auto
  with t show ?thesis by (intro exI [of _ tag]) (auto simp: plain_at_def)
qed

lemma plain_single:
  assumes "env_ok en" "ahead d [t]" "index_of_token (de_tables en) s = Some (Single t)"
  shows "plain_at en d s 1 t \<and> \<not> bin_tag t"
proof -
  have g: "get_single_token (de_tables en) t = Some s" "0 < t" "t < 236"
    using assms lookup_single [of "de_tables en" s t] by (auto simp: env_ok_def)
  then have "t \<noteq> 0" "t \<notin> {245, 246, 247, 248, 249, 250, 251, 252, 253, 254, 255}" "\<not> DICTIONARY_0 \<le> t"
    by auto
  with g(1) assms(2) show ?thesis
    by (simp add: plain_at_def read_u8_ahead read_value_as_string_from_tag_def)
qed

lemma plain_double:
  assumes "env_ok en" "ahead d [DICTIONARY_0 + dict, t]" "index_of_token (de_tables en) s = Some (Double dict t)"
  shows "plain_at en d s 2 (DICTIONARY_0 + dict) \<and> \<not> bin_tag (DICTIONARY_0 + dict)"
proof -
  have g: "get_double_token (de_tables en) dict t = Some s" "unat dict < 4"
    using assms lookup_double [of "de_tables en" s dict t] by (auto simp: env_ok_def)
  then have "dict \<in> {0, 1, 2, 3}" using u8_range [of 0 dict 4] by (simp add: upt_rec)
  moreover have "read_u8 (skip d 1) = Inr (t, skip d 2)"
    using ahead_Cons [OF assms(2)] read_u8_ahead [of "skip d 1" t "[]"] by (simp add: numeral_2_eq_2)
  ultimately show ?thesis
    using g(1) read_u8_ahead [OF assms(2)]
    by (auto simp: plain_at_def read_value_as_string_from_tag_def)
qed

lemma plain_packed:
  assumes "ahead d (packed_bytes tag v s)" "s \<noteq> []"
    and "validate_nibble s \<and> tag = NIBBLE_8 \<and> v = nibble_val \<or> validate_hex s \<and> tag = HEX_8 \<and> v = hex_val"
  shows "plain_at en d s (length (packed_bytes tag v s)) tag \<and> \<not> bin_tag tag"
proof -
  have pb: "packed_bytes tag v s = tag # tl (packed_bytes tag v s)" by (simp add: packed_bytes_def)
  then have d: "ahead d (tag # tl (packed_bytes tag v s))" using assms(1) by simp
  have "ahead (skip d 1) (tl (packed_bytes tag v s) @ [])" using ahead_Cons [OF d] by simp
  from read_packed_ahead [OF this assms(2,3)]
  have "read_packed en tag (skip d 1) = Inr (s, skip d (length (packed_bytes tag v s)))"
    by (simp add: packed_encoded_size_def)
  moreover have "tag = NIBBLE_8 \<or> tag = HEX_8" using assms(3) by auto
  ultimately show ?thesis
    using read_u8_ahead [OF d] by (auto simp: plain_at_def read_value_as_string_from_tag_def)
qed

lemma hint_of_nonempty: "hint_of T s = HPackedNibble \<or> hint_of T s = HPackedHex \<Longrightarrow> s \<noteq> []"
  by (auto simp: hint_of_def classify_string_hint_def)

lemma hint_of_tokens:
  "hint_of T s = HSingleToken t \<Longrightarrow> index_of_token T s = Some (Single t)"
  "hint_of T s = HDoubleToken d t \<Longrightarrow> index_of_token T s = Some (Double d t)"
  by (auto simp: hint_of_def classify_string_hint_def Let_def split: if_splits option.splits token_kind.splits)

lemma plain_string:
  assumes "env_ok en" "T = de_tables en" "ahead d (string_bytes T s)" "length s < 2 ^ 32" "str_ok s"
    "\<not> jid_hint (hint_of T s)"
  shows "\<exists>tag. plain_at en d s (length (string_bytes T s)) tag \<and> (bin_tag tag \<longleftrightarrow> raw_hint (hint_of T s))"
proof (cases "raw_hint (hint_of T s)")
  case True
  with assms plain_raw [of d s en] show ?thesis by (auto simp: string_bytes_raw)
next
  case False
  note sb = string_bytes.simps [of T s]
  show ?thesis
  proof (cases "hint_of T s")
    case (HSingleToken t)
    then have e: "string_bytes T s = [t]" by (simp add: sb)
    have "plain_at en d s 1 t \<and> \<not> bin_tag t"
      using assms(1-3) hint_of_tokens(1) [OF HSingleToken] e by (intro plain_single) simp_all
    with e False show ?thesis by auto
  next
    case (HDoubleToken dict t)
    then have e: "string_bytes T s = [DICTIONARY_0 + dict, t]" by (simp add: sb)
    have "plain_at en d s 2 (DICTIONARY_0 + dict) \<and> \<not> bin_tag (DICTIONARY_0 + dict)"
      using assms(1-3) hint_of_tokens(2) [OF HDoubleToken] e by (intro plain_double [where t = t]) simp_all
    with e False show ?thesis by (auto simp: numeral_2_eq_2)
  next
    case HPackedNibble
    then have e: "string_bytes T s = packed_bytes NIBBLE_8 nibble_val s" by (simp add: sb)
    have "plain_at en d s (length (packed_bytes NIBBLE_8 nibble_val s)) NIBBLE_8 \<and> \<not> bin_tag NIBBLE_8"
      using assms(3) HPackedNibble e hint_of_validated [of T s] hint_of_nonempty [of T s]
      by (intro plain_packed) simp_all
    with e False show ?thesis by auto
  next
    case HPackedHex
    then have e: "string_bytes T s = packed_bytes HEX_8 hex_val s" by (simp add: sb)
    have "plain_at en d s (length (packed_bytes HEX_8 hex_val s)) HEX_8 \<and> \<not> bin_tag HEX_8"
      using assms(3) HPackedHex e hint_of_validated [of T s] hint_of_nonempty [of T s]
      by (intro plain_packed) simp_all
    with e False show ?thesis by auto
  qed (use False assms(6) in \<open>auto simp: raw_hint_def jid_hint_def\<close>)
qed


subsection \<open>JIDs\<close>

text \<open>A reader that is good for strings that do not travel as JIDs.\<close>

definition reads_plain :: "dec_env \<Rightarrow> str option reader \<Rightarrow> bool" where
  "reads_plain en rvs \<longleftrightarrow>
     (\<forall>d s. ahead d (string_bytes (de_tables en) s) \<longrightarrow> length s < 2 ^ 32 \<longrightarrow> str_ok s \<longrightarrow>
        \<not> jid_hint (hint_of (de_tables en) s) \<longrightarrow>
        rvs d = Inr (Some s, skip d (length (string_bytes (de_tables en) s)))) \<and>
     (\<forall>d. ahead d [LIST_EMPTY] \<longrightarrow> rvs d = Inr (None, skip d 1))"

lemma reads_plain_fuel: "env_ok en \<Longrightarrow> reads_plain en (read_value_as_string_fuel (Suc k) en)"
proof -
  assume en: "env_ok en"
  have "read_value_as_string_fuel (Suc k) en d = Inr (Some s, skip d (length (string_bytes (de_tables en) s)))"
    if "ahead d (string_bytes (de_tables en) s)" "length s < 2 ^ 32" "str_ok s" "\<not> jid_hint (hint_of (de_tables en) s)"
    for d s
    using plain_string [OF en refl that] by (auto simp: plain_at_def)
  moreover have "read_value_as_string_fuel (Suc k) en d = Inr (None, skip d 1)" if "ahead d [LIST_EMPTY]" for d
    using read_u8_ahead [OF that] by (simp add: read_value_as_string_from_tag_def)
  ultimately show ?thesis by (simp add: reads_plain_def)
qed

lemma no_at_plain: "64 \<notin> set s \<Longrightarrow> \<not> jid_hint (hint_of T s)"
  by (auto simp: jid_hint_def dest!: hint_of_HJid simp: parse_jid_meta_def)

lemma parse_jid_meta_device:
  assumes "parse_jid_meta s = Some m" "server_try_from (drop (pm_server_start m) s) = Inr sv" "pm_device m = Some d"
  shows "pm_domain_type m = server_to_domain_type sv" "server_supports_ad_jid sv"
proof -
  from assms(1) obtain i where i: "find_char 64 s = Some i" "pm_server_start m = Suc i"
    by (auto simp: parse_jid_meta_def Let_def split: option.splits prod.splits)
  with assms show "pm_domain_type m = server_to_domain_type sv" "server_supports_ad_jid sv"
    by (auto simp: parse_jid_meta_def Let_def server_to_domain_type_def
        split: option.splits prod.splits if_splits server.splits)
qed

lemma domain_server_inverse: "server_supports_ad_jid sv \<Longrightarrow> domain_server (server_to_domain_type sv) = Inr sv"
  by (auto simp: server_supports_ad_jid_def domain_server_def server_to_domain_type_def)

lemma read_ad_jid_ahead:
  assumes "ahead d (dt # dv # b)" "domain_server dt = Inr sv" "rvs (skip d 2) = Inr (Some u, d')"
  shows "read_ad_jid rvs d = Inr (Jid u sv dt (ucast dv) 0, d')"
  using assms read_u8_ahead [OF assms(1)] ahead_Cons [OF assms(1)] read_u8_ahead [of "skip d 1" dv b]
  by (simp add: read_ad_jid_def numeral_2_eq_2)

lemma read_jid_pair_ahead:
  assumes "rvs d = Inr (u, d1)" "rvs d1 = Inr (Some (server_as_str sv), d2)"
  shows "read_jid_pair rvs d = Inr (Jid (unwrap_or_default u) sv 0 0 0, d2)"
  using assms by (simp add: read_jid_pair_def unwrap_or_default_def)

text \<open>\<open>jid_at\<close>: one of the two wire forms of a JID, read with \<open>rvs\<close>.\<close>

definition jid_at :: "str option reader \<Rightarrow> decoder \<Rightarrow> str jid \<Rightarrow> nat \<Rightarrow> u8 \<Rightarrow> bool" where
  "jid_at rvs d j n tag \<longleftrightarrow>
     read_u8 d = Inr (tag, skip d 1) \<and>
     (tag = JID_PAIR \<and> read_jid_pair rvs (skip d 1) = Inr (j, skip d n) \<or>
      tag = AD_JID \<and> read_ad_jid rvs (skip d 1) = Inr (j, skip d n))"

lemma jid_pair_at:
  assumes "ahead d ([JID_PAIR] @ ub @ sb)"
    "\<And>d. ahead d ub \<Longrightarrow> rvs d = Inr (u, skip d (length ub))"
    "\<And>d. ahead d sb \<Longrightarrow> rvs d = Inr (Some (server_as_str sv), skip d (length sb))"
  shows "jid_at rvs d (Jid (unwrap_or_default u) sv 0 0 0) (1 + length ub + length sb) JID_PAIR"
proof -
  have a: "ahead (skip d 1) ub" "ahead (skip d (1 + length ub)) sb" "read_u8 d = Inr (JID_PAIR, skip d 1)"
    using ahead_Cons [of d JID_PAIR "ub @ sb"] ahead_split [of "skip d 1" ub sb] read_u8_ahead [of d JID_PAIR "ub @ sb"]
      assms(1) by simp_all
  then show ?thesis
    using read_jid_pair_ahead [of rvs "skip d 1" u "skip d (1 + length ub)" sv] assms(2) [OF a(1)] assms(3) [OF a(2)]
    by (simp add: jid_at_def)
qed

lemma ad_jid_at:
  assumes "ahead d ([AD_JID, dt, dv] @ ub)" "domain_server dt = Inr sv"
    "\<And>d. ahead d ub \<Longrightarrow> rvs d = Inr (Some u, skip d (length ub))"
  shows "jid_at rvs d (Jid u sv dt (ucast dv) 0) (3 + length ub) AD_JID"
proof -
  have a: "ahead (skip d 1) (dt # dv # ub)" "read_u8 d = Inr (AD_JID, skip d 1)"
    using ahead_Cons [of d AD_JID "dt # dv # ub"] read_u8_ahead [of d AD_JID "dt # dv # ub"] assms(1) by simp_all
  have b: "ahead (skip d 3) ub"
    using ahead_split [of "skip d 1" "[dt, dv]" ub] a(1) by (simp add: numeral_3_eq_3)
  show ?thesis
    using a(2) read_ad_jid_ahead [OF a(1) assms(2), of rvs u "skip d (3 + length ub)"] assms(3) [OF b]
    by (simp add: jid_at_def numeral_2_eq_2 numeral_3_eq_3)
qed

lemma server_plain: "server_try_from t = Inr sv \<Longrightarrow> t = server_as_str sv \<and> \<not> jid_hint (hint_of T t) \<and> length t < 2 ^ 32 \<and> str_ok t"
  by (cases sv) (auto simp: server_try_from_Inr intro!: no_at_plain)

lemma jid_string:
  assumes "env_ok en" "reads_plain en rvs" "T = de_tables en" "hint_of T s = HJid m" "wire_jid s m = Some j"
    "str_ok s" "ahead d (string_bytes T s)"
  shows "\<exists>tag. jid_at rvs d j (length (string_bytes T s)) tag"
proof -
  note m = hint_of_HJid [OF assms(4)]
  let ?u = "take (pm_user_end m) s" and ?v = "drop (pm_server_start m) s"
  from assms(5) obtain sv where sv: "server_try_from ?v = Inr sv"
    by (auto simp: wire_jid_def)
  note b = parse_jid_meta_boundaries [OF m assms(6)] and sh = parse_jid_meta_shorter [OF m]
  have len: "length s \<le> 48" using assms(4) classify_HJid by (auto simp: hint_of_def split: if_splits)
  have u: "rvs d = Inr (Some ?u, skip d (length (string_bytes T ?u)))" if "ahead d (string_bytes T ?u)" for d
    using assms(2,3) that b len no_at_plain [OF b(5), of T] unfolding reads_plain_def by simp
  have v: "rvs d = Inr (Some (server_as_str sv), skip d (length (string_bytes T ?v)))" if "ahead d (string_bytes T ?v)" for d
  proof -
    have e: "?v = server_as_str sv" and p: "\<not> jid_hint (hint_of T ?v)" "length ?v < 2 ^ 32" "str_ok ?v"
      using server_plain [OF sv, of T] by blast+
    have "rvs d = Inr (Some ?v, skip d (length (string_bytes T ?v)))"
      using assms(2,3) that p unfolding reads_plain_def by blast
    then show ?thesis using e by simp
  qed
  show ?thesis
  proof (cases "pm_device m")
    case (Some dv)
    then have sb: "string_bytes T s = [AD_JID, pm_domain_type m, dv] @ string_bytes T ?u"
      using assms(4) by (subst string_bytes.simps) (simp add: Let_def)
    have "domain_server (pm_domain_type m) = Inr sv"
      using parse_jid_meta_device [OF m sv Some] by (simp add: domain_server_inverse)
    from ad_jid_at [OF assms(7) [unfolded sb] this u] assms(5) Some sv sb show ?thesis
      by (intro exI [of _ AD_JID]) (auto simp: wire_jid_def numeral_3_eq_3)
  next
    case None
    let ?ub = "if ?u = [] then [LIST_EMPTY] else string_bytes T ?u"
    let ?uo = "if ?u = [] then None else Some ?u"
    have sb: "string_bytes T s = [JID_PAIR] @ ?ub @ string_bytes T ?v"
      using assms(4) None by (subst string_bytes.simps) (simp add: Let_def)
    have u': "rvs d = Inr (?uo, skip d (length ?ub))" if "ahead d ?ub" for d
      using u [of d] that assms(2) unfolding reads_plain_def by (auto split: if_splits)
    have j: "j = Jid (unwrap_or_default ?uo) sv 0 0 0"
      using assms(5) None sv by (auto simp: wire_jid_def unwrap_or_default_def)
    from jid_pair_at [OF assms(7) [unfolded sb] u' v] show ?thesis
      unfolding j sb by (intro exI [of _ JID_PAIR]) (simp add: add.assoc)
  qed
qed


lemma read_value_jid:
  "jid_at (read_value_as_string en) d j n tag \<Longrightarrow> read_value en d = Inr (Some (VJid j), skip d n)"
  by (auto simp: jid_at_def read_value_def)

lemma from_tag_jid:
  "jid_at rvs d j n tag \<Longrightarrow>
   read_value_as_string_from_tag en rvs tag (skip d 1) = Inr (Some (to_string (de_itoa en) j), skip d n)"
  by (auto simp: jid_at_def read_value_as_string_from_tag_def jid_ref_to_compact_alt)

lemma reads_plain_rvs: "env_ok en \<Longrightarrow> reads_plain en (read_value_as_string en)"
  using reads_plain_fuel unfolding reads_plain_def read_value_as_string_def by blast

lemma string_roundtrip:
  assumes "env_ok en" "T = de_tables en" "str_ok s" "str_decodable T s" "ahead d (string_bytes T s)"
  shows "read_value_as_string en d = Inr (Some (norm_str T (de_itoa en) s), skip d (length (string_bytes T s)))"
proof (cases "jid_hint (hint_of T s)")
  case False
  then have "norm_str T (de_itoa en) s = s"
    by (auto simp: norm_str_def jid_hint_def split: string_hint.split)
  with False assms reads_plain_rvs [OF assms(1)] show ?thesis
    unfolding reads_plain_def str_decodable_def by simp
next
  case True
  then obtain m where m: "hint_of T s = HJid m" by (auto simp: jid_hint_def)
  with assms(4) obtain j where j: "wire_jid s m = Some j" by (auto simp: str_decodable_def)
  have "string_bytes T s \<noteq> []" using m by (subst string_bytes.simps) (auto simp: Let_def split: option.split)
  then have "1 \<le> remaining d" using ahead_left [OF assms(5)] by (cases "string_bytes T s") auto
  then obtain k where k: "remaining d = Suc k" by (cases "remaining d") auto
  from jid_string [OF assms(1) reads_plain_fuel [OF assms(1), of k] assms(2) m j assms(3,5)]
  obtain tag where t: "jid_at (read_value_as_string_fuel (Suc k) en) d j (length (string_bytes T s)) tag" ..
  then have "read_u8 d = Inr (tag, skip d 1)" by (simp add: jid_at_def)
  with from_tag_jid [OF t, of en] k m j show ?thesis
    by (simp add: read_value_as_string_def norm_str_def)
qed

lemma jid_value_roundtrip:
  assumes "env_ok en" "T = de_tables en" "str_ok (jid_user j)" "str_decodable T (jid_user j)"
    "jid_bytes T j = Inr b" "ahead d b"
  shows "read_value en d = Inr (Some (VJid (norm_jid T (de_itoa en) j)), skip d (length b))"
proof -
  let ?rvs = "read_value_as_string en" and ?u = "jid_user j" and ?sv = "jid_server j"
  have u: "?rvs d = Inr (Some (norm_str T (de_itoa en) ?u), skip d (length (string_bytes T ?u)))"
    if "ahead d (string_bytes T ?u)" for d using string_roundtrip [OF assms(1-4) that] .
  have v: "?rvs d = Inr (Some (server_as_str ?sv), skip d (length (string_bytes T (server_as_str ?sv))))"
    if "ahead d (string_bytes T (server_as_str ?sv))" for d
    using reads_plain_rvs [OF assms(1)] that server_plain [OF server_try_from_as_str, of ?sv T] assms(2)
    unfolding reads_plain_def by simp
  show ?thesis
  proof (cases "0 < jid_device j \<and> server_supports_ad_jid ?sv")
    case True
    then have b: "b = [AD_JID, server_to_domain_type ?sv, ucast (jid_device j)] @ string_bytes T ?u"
      and dv: "unat (jid_device j) \<le> 255"
      using assms(5) by (auto simp: jid_bytes_def split: if_splits)
    have "ucast (ucast (jid_device j) :: u8) = jid_device j"
      using dv by (simp add: word_unat_eq_iff unsigned_ucast_eq take_bit_eq_mod unat_mod_distrib)
    with read_value_jid [OF ad_jid_at [OF assms(6) [unfolded b] domain_server_inverse [OF conjunct2 [OF True]] u]]
    show ?thesis using True by (simp add: b norm_jid_def numeral_3_eq_3)
  next
    case False
    let ?ub = "if ?u = [] then [LIST_EMPTY] else string_bytes T ?u"
    let ?uo = "if ?u = [] then None else Some (norm_str T (de_itoa en) ?u)"
    have b: "b = [JID_PAIR] @ ?ub @ string_bytes T (server_as_str ?sv)"
      using assms(5) unfolding jid_bytes_def if_not_P [OF False] by simp
    have u': "?rvs d = Inr (?uo, skip d (length ?ub))" if "ahead d ?ub" for d
      using u [of d] that reads_plain_rvs [OF assms(1)] unfolding reads_plain_def by (auto split: if_splits)
    have n: "norm_str T it [] = []" for it
      by (simp add: norm_str_def hint_of_def classify_string_hint_def)
    show ?thesis
      using read_value_jid [OF jid_pair_at [OF assms(6) [unfolded b] u' v]] False n
      unfolding norm_jid_def if_not_P [OF False] b by (auto simp: unwrap_or_default_def split: if_splits)
  qed
qed


subsection \<open>Attributes, contents and nodes\<close>

lemma value_roundtrip:
  assumes "env_ok en" "T = de_tables en" "list_all (\<lambda>s. str_ok s \<and> str_decodable T s) (value_strings v)"
    "value_bytes T v = Inr b" "ahead d b"
  shows "read_value en d = Inr (Some (norm_value T (de_itoa en) v), skip d (length b))"
proof (cases v)
  case (VJid j)
  with assms show ?thesis using jid_value_roundtrip [of en T j b d] by simp
next
  case (VString s)
  with assms have s: "str_ok s" "str_decodable T s" and b: "b = string_bytes T s" by auto
  show ?thesis
  proof (cases "jid_hint (hint_of T s)")
    case True
    then obtain m where m: "hint_of T s = HJid m" by (auto simp: jid_hint_def)
    with s(2) obtain j where j: "wire_jid s m = Some j" by (auto simp: str_decodable_def)
    from jid_string [OF assms(1) reads_plain_rvs [OF assms(1)] assms(2) m j s(1)] assms(5) b
    obtain tag where "jid_at (read_value_as_string en) d j (length b) tag" by auto
    from read_value_jid [OF this] VString m j show ?thesis by simp
  next
    case False
    from plain_string [OF assms(1,2) _ _ s(1) False, of d] assms(5) b s(2)
    obtain tag where t: "plain_at en d s (length b) tag" by (auto simp: str_decodable_def)
    then have "read_value en d = Inr (Some (VString s), skip d (length b))"
      using read_value_plain [of d tag "skip d 1" en undefined] by (simp add: plain_at_def)
    moreover have "norm_value T (de_itoa en) (VString s) = VString s"
      using False by (auto simp: jid_hint_def split: string_hint.split)
    ultimately show ?thesis using VString by simp
  qed
qed

lemma times_roundtrip:
  assumes "\<And>x b d. x \<in> set xs \<Longrightarrow> g x = Inr b \<Longrightarrow> ahead d b \<Longrightarrow> remaining d < k \<Longrightarrow> f d = Inr (h x, skip d (length b))"
    and "concatR g xs = Inr b" "ahead d b" "remaining d < k"
  shows "read_times (length xs) f d = Inr (map h xs, skip d (length b))"
  using assms
proof (induction xs arbitrary: b d)
  case (Cons x xs)
  from Cons.prems(2) obtain b1 b2 where b: "g x = Inr b1" "concatR g xs = Inr b2" "b = b1 @ b2" by auto
  with Cons.prems(3) ahead_split have a: "ahead d b1" "ahead (skip d (length b1)) b2" by auto
  have "f d = Inr (h x, skip d (length b1))" using Cons.prems(1,4) a(1) b(1) by simp
  moreover have "read_times (length xs) f (skip d (length b1)) = Inr (map h xs, skip d (length b1 + length b2))"
    using Cons.IH [OF _ b(2) a(2)] Cons.prems(1,4) by simp
  ultimately show ?case using b(3) by simp
qed simp

lemma attr_roundtrip:
  assumes "env_ok en" "T = de_tables en" "list_all (\<lambda>s. str_ok s \<and> str_decodable T s) (fst kv # value_strings (snd kv))"
    "attr_bytes T kv = Inr b" "ahead d b"
  shows "read_attribute en d = Inr (map_prod (norm_str T (de_itoa en)) (norm_value T (de_itoa en)) kv, skip d (length b))"
proof -
  from assms(4) obtain c where b: "value_bytes T (snd kv) = Inr c" "b = string_bytes T (fst kv) @ c"
    by (auto simp: attr_bytes_def seqR_def)
  with assms(5) ahead_split have a: "ahead d (string_bytes T (fst kv))"
    "ahead (skip d (length (string_bytes T (fst kv)))) c" by auto
  have k: "read_value_as_string en d = Inr (Some (norm_str T (de_itoa en) (fst kv)), skip d (length (string_bytes T (fst kv))))"
    using string_roundtrip [OF assms(1,2) _ _ a(1)] assms(3) by simp
  have v: "read_value en (skip d (length (string_bytes T (fst kv)))) =
      Inr (Some (norm_value T (de_itoa en) (snd kv)), skip d (length b))"
    using value_roundtrip [OF assms(1,2) _ b(1) a(2)] assms(3) b(2) by simp
  show ?thesis using k v by (cases kv) (simp add: read_attribute_def)
qed

lemma attrs_roundtrip:
  assumes "env_ok en" "T = de_tables en"
    "list_all (\<lambda>s. str_ok s \<and> str_decodable T s) (concat (map (\<lambda>(k, v). k # value_strings v) as))"
    "concatR (attr_bytes T) as = Inr b" "ahead d b"
  shows "read_attributes en (length as) d =
    Inr (map (map_prod (norm_str T (de_itoa en)) (norm_value T (de_itoa en))) as, skip d (length b))"
proof (cases "as = []")
  case True
  with assms(4) show ?thesis by (simp add: read_attributes_def)
next
  case False
  have "read_attribute en d = Inr (map_prod (norm_str T (de_itoa en)) (norm_value T (de_itoa en)) kv, skip d (length b))"
    if "kv \<in> set as" "attr_bytes T kv = Inr b" "ahead d b" for kv b d
  proof (rule attr_roundtrip [OF assms(1,2) _ that(2,3)])
    show "list_all (\<lambda>s. str_ok s \<and> str_decodable T s) (fst kv # value_strings (snd kv))"
      using assms(3) that(1) by (cases kv) (force simp: list_all_iff)
  qed
  then have "read_times (length as) (read_attribute en) d =
      Inr (map (map_prod (norm_str T (de_itoa en)) (norm_value T (de_itoa en))) as, skip d (length b))"
    by (intro times_roundtrip [OF _ assms(4,5) lessI]) blast
  with False show ?thesis by (simp add: read_attributes_def)
qed

lemma list_start_roundtrip:
  assumes "list_start_bytes n = Inr b" "ahead d b"
  shows "\<exists>tag. list_tag tag \<and> (tag = LIST_EMPTY \<longleftrightarrow> n = 0) \<and> read_u8 d = Inr (tag, skip d 1) \<and>
    read_list_size tag (skip d 1) = Inr (n, skip d (length b)) \<and> 1 \<le> length b"
proof -
  consider "n = 0" "b = [LIST_EMPTY]" | "0 < n" "n < 256" "b = [LIST_8, of_nat n]"
    | "256 \<le> n" "n \<le> 65535" "b = LIST_16 # u16_to_be_bytes (of_nat n)"
    using assms(1) by (auto simp: list_start_bytes_def split: if_splits)
  then show ?thesis
  proof cases
    case 1
    with assms(2) show ?thesis by (auto simp: read_u8_ahead read_list_size_def)
  next
    case 2
    with assms(2) ahead_Cons [of d LIST_8 "[of_nat n]"] show ?thesis
      by (intro exI [of _ LIST_8]) (auto simp: read_u8_ahead read_list_size_def len_u8)
  next
    case 3
    with assms(2) ahead_Cons [of d LIST_16 "u16_to_be_bytes (of_nat n)"]
      read_u16_ahead [of "skip d 1" "of_nat n" "[]"] show ?thesis
      by (intro exI [of _ LIST_16]) (auto simp: read_u8_ahead read_list_size_def len_u16 numeral_3_eq_3)
  qed
qed


lemma content_string_roundtrip:
  assumes "env_ok en" "T = de_tables en" "str_ok s" "str_decodable T s" "ahead d (string_bytes T s)"
  shows "read_content en rn d = Inr (norm_content T (de_itoa en) (CString s), skip d (length (string_bytes T s)))"
proof (cases "jid_hint (hint_of T s)")
  case True
  then obtain m where m: "hint_of T s = HJid m" by (auto simp: jid_hint_def)
  with assms(4) obtain j where j: "wire_jid s m = Some j" by (auto simp: str_decodable_def)
  from jid_string [OF assms(1) reads_plain_rvs [OF assms(1)] assms(2) m j assms(3,5)]
  obtain tag where t: "jid_at (read_value_as_string en) d j (length (string_bytes T s)) tag" ..
  then have "read_u8 d = Inr (tag, skip d 1)" "\<not> list_tag tag" "\<not> bin_tag tag" by (auto simp: jid_at_def)
  with from_tag_jid [OF t, of en] m j show ?thesis
    by (simp add: read_content_def content_plain norm_str_def)
next
  case False
  from plain_string [OF assms(1,2,5) _ assms(3) False] assms(4)
  obtain tag where t: "plain_at en d s (length (string_bytes T s)) tag" "bin_tag tag \<longleftrightarrow> raw_hint (hint_of T s)"
    by (auto simp: str_decodable_def)
  then have r: "read_u8 d = Inr (tag, skip d 1)" "\<not> list_tag tag" by (auto simp: plain_at_def)
  show ?thesis
  proof (cases "raw_hint (hint_of T s)")
    case True
    then have sb: "string_bytes T s = bytes_with_len s" by (rule string_bytes_raw)
    from read_sized_ahead [of d s] assms(4,5) sb obtain tag' k where
      k: "read_u8 d = Inr (tag', skip d 1)" "ahead (skip d (1 + k)) s" "length (bytes_with_len s) = 1 + k + length s"
        "\<And>f :: nat \<Rightarrow> str node_content option reader. read_sized tag' f (skip d 1) = f (length s) (skip d (1 + k))"
      unfolding str_decodable_def by auto
    have "tag' = tag" using k(1) r(1) by simp
    moreover have "norm_content T (de_itoa en) (CString s) = Some (CBytes s)" using True by (auto simp: raw_hint_def)
    ultimately show ?thesis
      using True t(2) r k read_bytes_ahead [of "skip d (1 + k)" s "[]"]
      by (simp add: read_content_def content_bin sb)
  next
    case neq: False
    have "norm_content T (de_itoa en) (CString s) = Some (CString s)"
      using False neq by (auto simp: raw_hint_def jid_hint_def norm_str_def split: string_hint.split)
    with t r neq show ?thesis by (simp add: read_content_def content_plain plain_at_def)
  qed
qed

lemma content_bytes_roundtrip:
  assumes "ahead d (bytes_with_len b)" "length b < 2 ^ 32"
  shows "read_content en rn d = Inr (Some (CBytes b), skip d (length (bytes_with_len b)))"
proof -
  from read_sized_ahead [OF assms] obtain tag k where
    k: "bin_tag tag" "read_u8 d = Inr (tag, skip d 1)" "ahead (skip d (1 + k)) b"
      "length (bytes_with_len b) = 1 + k + length b"
      "\<And>f :: nat \<Rightarrow> str node_content option reader. read_sized tag f (skip d 1) = f (length b) (skip d (1 + k))"
    by auto
  then show ?thesis
    using read_bytes_ahead [of "skip d (1 + k)" b "[]"] by (simp add: read_content_def content_bin)
qed

definition node_rt :: "dec_env \<Rightarrow> str node \<Rightarrow> bool" where
  "node_rt en n \<longleftrightarrow>
     (\<forall>b d k. node_bytes (de_tables en) n = Inr b \<longrightarrow> ahead d b \<longrightarrow> remaining d < k \<longrightarrow>
        node_decodable (de_tables en) n \<longrightarrow>
        read_node_fuel k en d = Inr (norm_node (de_tables en) (de_itoa en) n, skip d (length b)))"

lemma content_nodes_roundtrip:
  assumes "T = de_tables en" "content_wire T (CNodes ns) = Inr b" "ahead d b" "remaining d \<le> k"
    "\<And>n. n \<in> set ns \<Longrightarrow> node_rt en n \<and> node_decodable T n"
  shows "read_content en (read_node_fuel k en) d =
    Inr (norm_content T (de_itoa en) (CNodes ns), skip d (length b))"
proof -
  from assms(2) obtain b1 b2 where b: "list_start_bytes (length ns) = Inr b1"
      "concatR (node_bytes T) ns = Inr b2" "b = b1 @ b2" by (auto simp: seqR_def)
  with assms(3) ahead_split have a: "ahead d b1" "ahead (skip d (length b1)) b2" by auto
  from list_start_roundtrip [OF b(1) a(1)] obtain tag where
    t: "list_tag tag" "tag = LIST_EMPTY \<longleftrightarrow> length ns = 0" "read_u8 d = Inr (tag, skip d 1)"
      "read_list_size tag (skip d 1) = Inr (length ns, skip d (length b1))" "1 \<le> length b1" by blast
  show ?thesis
  proof (cases "ns = []")
    case True
    with b have "b = [LIST_EMPTY]" by (simp add: list_start_bytes_def)
    with True t show ?thesis by (simp add: read_content_def read_content_from_tag_def)
  next
    case False
    have "length b1 \<le> remaining d" using ahead_left [OF a(1)] by simp
    then have left: "remaining (skip d (length b1)) < k" using assms(4) t(5) by simp
    have "read_times (length ns) (read_node_fuel k en) (skip d (length b1)) =
        Inr (map (norm_node T (de_itoa en)) ns, skip (skip d (length b1)) (length b2))"
      using assms(1,5) by (intro times_roundtrip [OF _ b(2) a(2) left]) (simp add: node_rt_def)
    with False t b(3) show ?thesis
      by (auto simp: read_content_def read_content_from_tag_def)
  qed
qed


lemma node_header:
  assumes "env_ok en" "T = de_tables en" "str_ok t" "str_decodable T t"
    "list_start_bytes N = Inr b1" "N \<noteq> 0" "ahead d (b1 @ string_bytes T t @ b3)"
  shows "read_node_body en rn d =
    bindR (read_attributes en ((N - 1) div 2) (skip d (length b1 + length (string_bytes T t)))) (\<lambda>(attrs, d).
    bindR (if N mod 2 = 0 then read_content en rn d else Inr (None, d)) (\<lambda>(content, d).
    Inr (Node (norm_str T (de_itoa en) t) attrs content, d)))"
    and "ahead (skip d (length b1 + length (string_bytes T t))) b3"
    and "remaining (skip d (length b1 + length (string_bytes T t))) < remaining d"
proof -
  have a: "ahead d b1" "ahead (skip d (length b1)) (string_bytes T t)"
      "ahead (skip d (length b1 + length (string_bytes T t))) b3"
    using ahead_split [OF assms(7)] ahead_split [of "skip d (length b1)" "string_bytes T t" b3] by auto
  from list_start_roundtrip [OF assms(5) a(1)] obtain tag where
    t: "read_u8 d = Inr (tag, skip d 1)" "read_list_size tag (skip d 1) = Inr (N, skip d (length b1))" "1 \<le> length b1"
    by blast
  have "read_value_as_string en (skip d (length b1)) =
      Inr (Some (norm_str T (de_itoa en) t), skip d (length b1 + length (string_bytes T t)))"
    using string_roundtrip [OF assms(1-4) a(2)] by simp
  with t assms(6) show "read_node_body en rn d =
    bindR (read_attributes en ((N - 1) div 2) (skip d (length b1 + length (string_bytes T t)))) (\<lambda>(attrs, d).
    bindR (if N mod 2 = 0 then read_content en rn d else Inr (None, d)) (\<lambda>(content, d).
    Inr (Node (norm_str T (de_itoa en) t) attrs content, d)))"
    by (simp add: read_node_body_def Let_def)
  show "ahead (skip d (length b1 + length (string_bytes T t))) b3" by (rule a(3))
  show "remaining (skip d (length b1 + length (string_bytes T t))) < remaining d"
    using ahead_left [OF a(1)] t(3) unfolding remaining_skip by linarith
qed

lemma node_decodable_Node:
  "node_decodable T (Node t as c) \<longleftrightarrow>
     str_ok t \<and> str_decodable T t \<and>
     list_all (\<lambda>s. str_ok s \<and> str_decodable T s) (concat (map (\<lambda>(k, v). k # value_strings v) as)) \<and>
     (case c of None \<Rightarrow> True
      | Some (CBytes b) \<Rightarrow> length b < 2 ^ 32
      | Some (CString s) \<Rightarrow> str_ok s \<and> str_decodable T s
      | Some (CNodes ns) \<Rightarrow> list_all (node_decodable T) ns)"
  by (auto simp: node_decodable_def list_all_iff split: option.split node_content.split)

lemma node_rt_all:
  assumes "env_ok en"
  shows "node_rt en n"
proof (induction n rule: node.induct [where ?P2.0 = "\<lambda>c. \<forall>ns. c = CNodes ns \<longrightarrow> (\<forall>n \<in> set ns. node_rt en n)"])
  case (Node t as c)
  let ?T = "de_tables en" and ?it = "de_itoa en"
  let ?N = "1 + length as * 2 + (case c of None \<Rightarrow> 0 | Some _ \<Rightarrow> 1)"
  show ?case
    unfolding node_rt_def
  proof (intro allI impI)
    fix b d k
    assume nb: "node_bytes ?T (Node t as c) = Inr b" and a: "ahead d b" and left: "remaining d < k"
      and dec: "node_decodable ?T (Node t as c)"
    obtain b1 b3 b4 where b: "list_start_bytes ?N = Inr b1" "concatR (attr_bytes ?T) as = Inr b3"
        "(case c of None \<Rightarrow> Inr [] | Some c \<Rightarrow> content_wire ?T c) = Inr b4"
        "b = b1 @ string_bytes ?T t @ b3 @ b4"
      using nb by (auto simp: seqR_def)
    obtain k' where k: "k = Suc k'" using left by (cases k) auto
    let ?d1 = "skip d (length b1 + length (string_bytes ?T t))"
    note dec' = dec [unfolded node_decodable_Node]
    note hd = node_header [OF assms refl _ _ b(1) _ a [unfolded b(4)]]
    have h: "read_node_fuel k en d =
        bindR (read_attributes en ((?N - 1) div 2) ?d1) (\<lambda>(attrs, d).
        bindR (if ?N mod 2 = 0 then read_content en (read_node_fuel k' en) d else Inr (None, d)) (\<lambda>(content, d).
        Inr (Node (norm_str ?T ?it t) attrs content, d)))"
      and a1: "ahead ?d1 (b3 @ b4)" and l1: "remaining ?d1 < remaining d"
      using hd dec' unfolding k read_node_fuel.simps by blast+
    have at: "read_attributes en (length as) ?d1 =
        Inr (map (map_prod (norm_str ?T ?it) (norm_value ?T ?it)) as, skip ?d1 (length b3))"
      using attrs_roundtrip [OF assms refl _ b(2)] ahead_split [OF a1] dec' by simp
    have a2: "ahead (skip ?d1 (length b3)) b4" using ahead_split [OF a1] by simp
    have l2: "remaining (skip ?d1 (length b3)) \<le> k'" using l1 left k by simp
    show "read_node_fuel k en d = Inr (norm_node ?T ?it (Node t as c), skip d (length b))"
    proof (cases c)
      case None
      have "Suc (length as * 2) mod 2 = 1" by presburger
      with None b(3) h at b(4) show ?thesis by (simp add: add.assoc)
    next
      case (Some co)
      have "read_content en (read_node_fuel k' en) (skip ?d1 (length b3)) =
          Inr (norm_content ?T ?it co, skip (skip ?d1 (length b3)) (length b4))"
      proof (cases co)
        case (CBytes x)
        with Some b(3) a2 dec' show ?thesis using content_bytes_roundtrip [of "skip ?d1 (length b3)" x] by simp
      next
        case (CString x)
        with Some b(3) a2 dec' show ?thesis using content_string_roundtrip [OF assms refl, of x] by simp
      next
        case (CNodes ns)
        have "\<forall>n \<in> set ns. node_rt en n" using Node Some CNodes by simp
        with CNodes Some b(3) dec' show ?thesis
          by (intro content_nodes_roundtrip [OF refl _ a2 l2, where ns = ns, folded CNodes]) (auto simp: list_all_iff)
      qed
      with Some h at b(4) show ?thesis by (simp add: add.assoc)
    qed
  qed
next
  case (CNodes ns)
  then show ?case by simp
qed simp_all

lemma unmarshal_marshal:
  assumes "ctx_ok cx" and "env_ok en" and "de_tables en = cx_tables cx"
    and "node_decodable (cx_tables cx) (node_text cx n)" and "marshal cx n = Inr p"
  shows "hd p = 0 \<and> unmarshal_ref en (tl p) = Inr (norm_node (cx_tables cx) (de_itoa en) (node_text cx n))"
proof -
  have "node_ok cx n" using assms(4) by (auto simp: node_ok_text node_decodable_def list_all_iff)
  from marshal_wire [OF assms(1) this] assms(5) obtain b where
    b: "node_bytes (cx_tables cx) (node_text cx n) = Inr b" "p = 0 # b" by (cases "node_bytes (cx_tables cx) (node_text cx n)") auto
  have a: "ahead (decoder_new b) b" by (auto simp: ahead_def decoder_new_def)
  have "read_node_ref en (decoder_new b) =
      Inr (norm_node (cx_tables cx) (de_itoa en) (node_text cx n), skip (decoder_new b) (length b))"
    using node_rt_all [OF assms(2), of "node_text cx n"] b(1) a assms(3,4)
    unfolding node_rt_def read_node_ref_def by (simp del: read_node_fuel.simps)
  then show ?thesis
    using b(2) by (simp add: unmarshal_ref_def is_finished_def skip_def decoder_new_def)
qed

section \<open>Properties\<close>

text \<open>C4: for a node in which every string that the encoder takes for a JID has a known server after
  the \<open>@\<close>, and strings and byte contents are shorter than \<open>2\<^sup>3\<^sup>2\<close>, decoding the marshalled node, after the leading format
  byte, gives its normal form \<open>norm_node\<close>: string content may come back as bytes, a string that looks like a JID as a JID, an empty
  list of children as no content, and a JID with the agent, device and integrator that its wire form carries; nothing
  else changes.\<close>

theorem marshal_roundtrip:
  assumes "ctx_ok cx" and "env_ok en" and "de_tables en = cx_tables cx"
    and "node_decodable (cx_tables cx) (node_text cx n)" and "marshal cx n = Inr p"
  shows "hd p = 0 \<and> unmarshal_ref en (tl p) = Inr (norm_node (cx_tables cx) (de_itoa en) (node_text cx n))"
  using assms by (rule unmarshal_marshal)


lemma sample_hints:
  "hint_of sample_tables (lit ''type'') = HSingleToken 2"
  "hint_of sample_tables (lit ''to'') = HSingleToken 3"
  "hint_of sample_tables [49, 50] = HPackedNibble"
  using sample_tokens
  by (simp_all add: hint_of_def classify_string_hint_def validate_nibble_def is_ascii_digit_def)

lemma sample_node_decodable:
  "node_decodable (cx_tables sample_ctx) (node_text sample_ctx sample_node)"
  unfolding sample_node_text using sample_hints
  by (simp add: node_decodable_Node str_decodable_def sample_ctx_def)

theorem marshal_roundtrip_witness:
  "unmarshal_ref sample_env [248, 4, 2, 3, 247, 1, 3, 255, 1, 0x12, 252, 3, 1, 2, 3] =
     Inr (Node (lit ''type'') [(lit ''to'', VJid (Jid [49, 50] Lid 1 3 0))] (Some (CBytes [1, 2, 3])))"
proof -
  have m: "marshal sample_ctx sample_node = Inr [0, 248, 4, 2, 3, 247, 1, 3, 255, 1, 0x12, 252, 3, 1, 2, 3]"
    using marshal_wire [OF sample_ctx_ok sample_node_ok] sample_node_wire by simp
  have e: "de_tables sample_env = cx_tables sample_ctx" "cx_tables sample_ctx = sample_tables" "de_itoa sample_env = decimal"
    by (simp_all add: sample_env_def sample_ctx_def)
  have "norm_node sample_tables decimal (node_text sample_ctx sample_node) =
      Node (lit ''type'') [(lit ''to'', VJid (Jid [49, 50] Lid 1 3 0))] (Some (CBytes [1, 2, 3]))"
    unfolding sample_node_text using sample_hints
    by (simp add: norm_str_def norm_jid_def server_supports_ad_jid_def server_to_domain_type_def)
  then show ?thesis
    using marshal_roundtrip [OF sample_ctx_ok sample_env_ok e(1) sample_node_decodable m] unfolding e by simp
qed

end
