(* ===== verification/Refused.thy ===== *)
theory Refused
  imports Roundtrip
begin

text \<open>What the encoder writes and the decoder of the same crate does not read back: an attribute
  value with an \<open>@\<close> that is not an address of the network.  The encoder takes every short string
  with an \<open>@\<close> for a JID (\<open>classify_string_hint\<close>, \<open>parse_jid_meta\<close> in encoder.rs), the decoder
  checks the server (\<open>read_jid_pair\<close> in decoder.rs).\<close>

section \<open>Strings the decoder refuses\<close>

text \<open>A short string with an \<open>@\<close> is taken for an address even if the part after the \<open>@\<close> is no
  server of the network.\<close>

lemma parse_jid_meta_unknown:
  assumes "parse_jid_meta s = Some m" "server_try_from (drop (pm_server_start m) s) = Inl e"
  shows "pm_device m = None"
proof -
  from assms(1) obtain i where i: "find_char 64 s = Some i" "pm_server_start m = Suc i"
    by (auto simp: parse_jid_meta_def Let_def split: option.splits prod.splits)
  with assms show ?thesis by (auto simp: parse_jid_meta_def Let_def split: prod.splits)
qed

lemma unknown_server_value:
  assumes "env_ok en" "T = de_tables en" "str_ok s" "hint_of T s = HJid m"
    "64 \<notin> set (drop (pm_server_start m) s)" "server_try_from (drop (pm_server_start m) s) = Inl e"
    "ahead d (string_bytes T s)"
  shows "read_value en d =
    Inl (Err (AttrParse (lit ''JID_PAIR unknown server: '' @ drop (pm_server_start m) s)))"
proof -
  let ?u = "take (pm_user_end m) s" and ?v = "drop (pm_server_start m) s"
  let ?ub = "if ?u = [] then [LIST_EMPTY] else string_bytes T ?u"
  note m = hint_of_HJid [OF assms(4)]
  note b = parse_jid_meta_boundaries [OF m assms(3)]
  note rp = reads_plain_rvs [OF assms(1), unfolded reads_plain_def]
  have len: "length s \<le> 48" using assms(4) classify_HJid by (auto simp: hint_of_def split: if_splits)
  have dev: "pm_device m = None" using m assms(6) by (rule parse_jid_meta_unknown)
  have sb: "string_bytes T s = [JID_PAIR] @ ?ub @ string_bytes T ?v"
    using assms(4) dev by (subst string_bytes.simps) (simp add: Let_def)
  have a: "read_u8 d = Inr (JID_PAIR, skip d 1)" "ahead (skip d 1) ?ub"
      "ahead (skip (skip d 1) (length ?ub)) (string_bytes T ?v)"
    using assms(7) read_u8_ahead [of d JID_PAIR] ahead_Cons [of d JID_PAIR]
      ahead_split [of "skip d 1" ?ub "string_bytes T ?v"] unfolding sb by auto
  have u: "\<exists>x. read_value_as_string en (skip d 1) = Inr (x, skip (skip d 1) (length ?ub))"
    using a(2) rp assms(2) b len no_at_plain [OF b(5), of T] by (auto split: if_splits)
  have v: "\<exists>d'. read_value_as_string en (skip (skip d 1) (length ?ub)) = Inr (Some ?v, d')"
    using a(3) rp assms(2,5) b len no_at_plain [of ?v T] by auto
  show ?thesis
    using u v a(1) assms(6) by (auto simp: read_value_def read_jid_pair_def unwrap_or_default_def)
qed


section \<open>Properties\<close>

text \<open>C37: a node with such an attribute is marshalled without an error, and the
  decoder refuses the bytes.\<close>

theorem unknown_server_undecodable:
  assumes "ctx_ok cx" and "env_ok en" and "de_tables en = cx_tables cx" and "node_ok cx n"
    and "node_text cx n = Node t [(k, VString s)] None"
    and "str_decodable (cx_tables cx) t" and "str_decodable (cx_tables cx) k"
    and "hint_of (cx_tables cx) s = HJid m"
    and "64 \<notin> set (drop (pm_server_start m) s)" and "server_try_from (drop (pm_server_start m) s) = Inl e"
  shows "\<exists>p. marshal cx n = Inr p \<and>
    unmarshal_ref en (tl p) =
      Inl (Err (AttrParse (lit ''JID_PAIR unknown server: '' @ drop (pm_server_start m) s)))"
proof -
  let ?T = "de_tables en" and ?d = "decoder_new"
  let ?b = "[LIST_8, 3] @ string_bytes ?T t @ string_bytes ?T k @ string_bytes ?T s"
  have ok: "str_ok t" "str_ok k" "str_ok s"
    using assms(4,5) by (auto simp: node_ok_text list_all_iff)
  have m: "marshal cx n = Inr (0 # ?b)"
    using marshal_wire [OF assms(1,4)] assms(3,5)
    by (simp add: seqR_def list_start_bytes_def attr_bytes_def)
  have a: "ahead (?d ?b) ?b" by (auto simp: ahead_def decoder_new_def)
  let ?d1 = "skip (?d ?b) (2 + length (string_bytes ?T t))"
  have ls: "list_start_bytes 3 = Inr [LIST_8, 3]" by (simp add: list_start_bytes_def)
  have h: "read_node_body en rn (?d ?b) =
      bindR (read_attributes en 1 ?d1) (\<lambda>(attrs, d).
      bindR (Inr (None, d)) (\<lambda>(content, d). Inr (Node (norm_str ?T (de_itoa en) t) attrs content, d)))"
      and a1: "ahead ?d1 (string_bytes ?T k @ string_bytes ?T s)" for rn
    using node_header [OF assms(2) refl ok(1) _ ls _ a] assms(3,6) by simp_all
  have "read_attributes en 1 ?d1 =
      Inl (Err (AttrParse (lit ''JID_PAIR unknown server: '' @ drop (pm_server_start m) s)))"
    using string_roundtrip [OF assms(2) refl ok(2) assms(7) [folded assms(3)]] ahead_split [OF a1]
      unknown_server_value [OF assms(2) refl ok(3) assms(8) [folded assms(3)] assms(9,10)]
    by (simp add: read_attributes_def read_attribute_def ok_or_def)
  with h have "unmarshal_ref en ?b =
      Inl (Err (AttrParse (lit ''JID_PAIR unknown server: '' @ drop (pm_server_start m) s)))"
    by (simp add: unmarshal_ref_def read_node_ref_def)
  with m show ?thesis by simp
qed

definition email_node :: "str_ref node" where
  "email_node =
     (let b = length server_block in Node (StrRef b 4) [(StrRef (b + 4) 2, VString (StrRef (b + 8) 3))] None)"

lemma email_node_text:
  "node_text sample_ctx email_node = Node (lit ''type'') [(lit ''to'', VString [97, 64, 98])] None"
proof -
  have "deref sample_ctx (StrRef (length server_block) (length (lit ''type''))) = lit ''type''"
    by (rule deref_sample [OF refl]) simp
  moreover have "deref sample_ctx (StrRef (length (server_block @ lit ''type'')) (length (lit ''to''))) = lit ''to''"
    by (rule deref_sample [OF refl]) simp
  moreover have "deref sample_ctx (StrRef (length (server_block @ lit ''type'' @ lit ''to'' @ [49, 50]))
      (length [97 :: u8, 64, 98])) = [97, 64, 98]"
    by (rule deref_sample [OF refl, where zs = "[]"]) simp
  ultimately show ?thesis by (simp add: email_node_def Let_def eval_nat_numeral)
qed

theorem unknown_server_undecodable_witness:
  "\<exists>p. marshal sample_ctx email_node = Inr p \<and>
     unmarshal_ref sample_env (tl p) = Inl (Err (AttrParse (lit ''JID_PAIR unknown server: '' @ [98])))"
proof -
  let ?m = "\<lparr>pm_user_end = 1, pm_server_start = 2, pm_domain_type = 0, pm_device = None\<rparr>"
  have e: "de_tables sample_env = cx_tables sample_ctx" "cx_tables sample_ctx = sample_tables"
    by (simp_all add: sample_env_def sample_ctx_def)
  have "index_of_token sample_tables [97, 64, 98] = None"
    using sample_values by (simp add: index_of_token_def sample_tables_def Let_def)
  then have h: "hint_of (cx_tables sample_ctx) [97, 64, 98] = HJid ?m"
    unfolding e by (simp add: hint_of_def classify_string_hint_def validate_nibble_def validate_hex_def
        is_ascii_digit_def is_upper_hex_def parse_jid_meta_def find_char_def server_try_from_def)
  have ok: "node_ok sample_ctx email_node" unfolding node_ok_text email_node_text by simp
  have d: "str_decodable (cx_tables sample_ctx) (lit ''type'')" "str_decodable (cx_tables sample_ctx) (lit ''to'')"
    unfolding e using sample_hints by (simp_all add: str_decodable_def)
  from unknown_server_undecodable [OF sample_ctx_ok sample_env_ok e(1) ok email_node_text d h]
  show ?thesis by (simp add: server_try_from_def)
qed

end
