(* ===== verification/Gcm.thy ===== *)
theory Gcm
  imports Prelude
begin

text \<open>AES-256-GCM as the repository composes it from the block cipher, the counter-mode stream and
  GHASH (wacore/libsignal/src/crypto/aes_ctr.rs, aes_gcm.rs) and the provider functions over it
  (provider.rs).  The three primitives come from other crates and are fields of a record; what is
  proved is that the incremental hashing computes the tag of the whole message and that opening
  undoes sealing in every variant.\<close>

section \<open>Primitives\<close>

text \<open>\<open>aes_block\<close> is the block cipher, \<open>ctr_byte key block i\<close> byte \<open>i\<close> of the counter-mode key stream that
  starts at a counter block, \<open>ghash_out h bs\<close> the universal hash of a sequence of blocks.\<close>

record aes_prims =
  aes_block :: "u8 list \<Rightarrow> u8 list \<Rightarrow> u8 list"
  ctr_byte :: "u8 list \<Rightarrow> u8 list \<Rightarrow> nat \<Rightarrow> u8"
  ghash_out :: "u8 list \<Rightarrow> u8 list list \<Rightarrow> u8 list"

text \<open>The hash output is one block.\<close>

definition prims_ok :: "aes_prims \<Rightarrow> bool" where
  "prims_ok P \<longleftrightarrow> (\<forall>h bs. length (ghash_out P h bs) = 16)"

datatype crypto_error =
  UnknownAlgorithm str str | InvalidKeySize | InvalidNonceSize | InvalidInputSize | InvalidTag
  | OutputBufferTooSmall nat nat

datatype provider_error = BadInput | AuthFailed | BackendFailed

type_synonym 'a cres = "(crypto_error, 'a) res"

text \<open>A value of type \<open>Aes256\<close> is its key; the length is checked when it is made.\<close>

definition aes256_new :: "u8 list \<Rightarrow> u8 list cres" where
  "aes256_new key = (if length key = 32 then Inr key else Inl (Err InvalidKeySize))"

section \<open>Counter mode\<close>

record aes_256_ctr32 =
  ct_key :: "u8 list"
  ct_block :: "u8 list"
  ct_pos :: nat

definition ctr32_new :: "u8 list \<Rightarrow> u8 list \<Rightarrow> u32 \<Rightarrow> aes_256_ctr32 cres" where
  "ctr32_new aes256 nonce init_ctr =
     (if length nonce \<noteq> 12 then Inl (Err InvalidNonceSize)
      else Inr \<lparr>ct_key = aes256, ct_block = nonce @ replicate 4 0, ct_pos = 16 * unat init_ctr\<rparr>)"

definition ctr32_from_key :: "u8 list \<Rightarrow> u8 list \<Rightarrow> u32 \<Rightarrow> aes_256_ctr32 cres" where
  "ctr32_from_key key nonce init_ctr = bindR (aes256_new key) (\<lambda>k. ctr32_new k nonce init_ctr)"

definition keystream :: "aes_prims \<Rightarrow> aes_256_ctr32 \<Rightarrow> nat \<Rightarrow> u8 list" where
  "keystream P c n = map (\<lambda>i. ctr_byte P (ct_key c) (ct_block c) (ct_pos c + i)) [0..<n]"

definition xor_bytes :: "u8 list \<Rightarrow> u8 list \<Rightarrow> u8 list" where
  "xor_bytes xs ys = map2 (\<lambda>a b. a XOR b) xs ys"

definition ctr32_process :: "aes_prims \<Rightarrow> aes_256_ctr32 \<Rightarrow> u8 list \<Rightarrow> u8 list \<times> aes_256_ctr32" where
  "ctr32_process P c buf =
     (xor_bytes buf (keystream P c (length buf)), c\<lparr>ct_pos := ct_pos c + length buf\<rparr>)"

section \<open>GHASH, incrementally\<close>

text \<open>The state of the hash: its key and the blocks it has absorbed.  \<open>update_padded\<close> fills up the last
  block with zeros.\<close>

record ghash =
  gh_key :: "u8 list"
  gh_blocks :: "u8 list list"

function blocks16 :: "u8 list \<Rightarrow> u8 list list" where
  "blocks16 xs =
     (if xs = [] then []
      else (take 16 xs @ replicate (16 - length xs) 0) # blocks16 (drop 16 xs))"
  by pat_completeness auto
termination by (relation "measure length") auto

declare blocks16.simps [simp del]

definition ghash_update :: "ghash \<Rightarrow> u8 list list \<Rightarrow> ghash" where
  "ghash_update g bs = g\<lparr>gh_blocks := gh_blocks g @ bs\<rparr>"

definition ghash_update_padded :: "ghash \<Rightarrow> u8 list \<Rightarrow> ghash" where
  "ghash_update_padded g xs = ghash_update g (blocks16 xs)"

record gcm_ghash =
  gg_ghash :: ghash
  gg_pad :: "u8 list"
  gg_buf :: "u8 list"
  gg_offset :: nat
  gg_ad_len :: nat
  gg_msg_len :: nat

definition gcm_from_keyed :: "ghash \<Rightarrow> u8 list \<Rightarrow> u8 list \<Rightarrow> gcm_ghash" where
  "gcm_from_keyed g ghash_pad associated_data =
     \<lparr>gg_ghash = ghash_update_padded g associated_data, gg_pad = ghash_pad, gg_buf = replicate 16 0,
      gg_offset = 0, gg_ad_len = length associated_data, gg_msg_len = 0\<rparr>"

definition gcm_new :: "u8 list \<Rightarrow> u8 list \<Rightarrow> u8 list \<Rightarrow> gcm_ghash cres" where
  "gcm_new h ghash_pad associated_data =
     Inr (gcm_from_keyed \<lparr>gh_key = h, gh_blocks = []\<rparr> ghash_pad associated_data)"

text \<open>\<open>buf[off..off + xs.len()].copy_from_slice(xs)\<close>.\<close>

definition put_at :: "u8 list \<Rightarrow> nat \<Rightarrow> u8 list \<Rightarrow> u8 list" where
  "put_at buf off xs = take off buf @ xs @ drop (off + length xs) buf"

fun chunks16 :: "nat \<Rightarrow> u8 list \<Rightarrow> u8 list list" where
  "chunks16 0 xs = []"
| "chunks16 (Suc n) xs = take 16 xs # chunks16 n (drop 16 xs)"

text \<open>The part of \<open>update\<close> for an empty buffer.\<close>

definition gcm_update_full :: "gcm_ghash \<Rightarrow> u8 list \<Rightarrow> gcm_ghash cres" where
  "gcm_update_full g msg =
     (let g = g\<lparr>gg_msg_len := gg_msg_len g + length msg\<rparr> in
      if gg_offset g \<noteq> 0 then Inl Panic
      else
        let full_blocks = length msg div 16;
            leftover = length msg - 16 * full_blocks
        in if \<not> leftover < 16 then Inl Panic
           else
             let g = g\<lparr>gg_ghash := ghash_update (gg_ghash g) (chunks16 full_blocks msg),
                       gg_buf := put_at (gg_buf g) 0 (drop (full_blocks * 16) msg),
                       gg_offset := leftover\<rparr>
             in if \<not> gg_offset g < 16 then Inl Panic else Inr g)"

definition gcm_update :: "gcm_ghash \<Rightarrow> u8 list \<Rightarrow> gcm_ghash cres" where
  "gcm_update g msg =
     (if 0 < gg_offset g then
        if 16 < gg_offset g then Inl Panic
        else
          let taking = min (length msg) (16 - gg_offset g);
              g = g\<lparr>gg_buf := put_at (gg_buf g) (gg_offset g) (take taking msg),
                    gg_offset := gg_offset g + taking,
                    gg_msg_len := gg_msg_len g + taking\<rparr>
          in if \<not> gg_offset g \<le> 16 then Inl Panic
             else if gg_offset g = 16 then
               gcm_update_full
                 (g\<lparr>gg_ghash := ghash_update (gg_ghash g) [gg_buf g], gg_offset := 0\<rparr>)
                 (drop taking msg)
             else Inr g
      else gcm_update_full g msg)"

definition u64_to_be_bytes :: "u64 \<Rightarrow> u8 list" where
  "u64_to_be_bytes w = map (\<lambda>i. ucast (drop_bit (8 * (7 - i)) w)) [0..<8]"

definition gcm_finalize :: "aes_prims \<Rightarrow> gcm_ghash \<Rightarrow> u8 list" where
  "gcm_finalize P g =
     (let gh = (if 0 < gg_offset g then ghash_update_padded (gg_ghash g) (take (gg_offset g) (gg_buf g))
                else gg_ghash g);
          final_block = u64_to_be_bytes (8 * of_nat (gg_ad_len g)) @ u64_to_be_bytes (8 * of_nat (gg_msg_len g));
          gh = ghash_update gh [final_block]
      in xor_bytes (ghash_out P (gh_key gh) (gh_blocks gh)) (gg_pad g))"

section \<open>Sealing and opening\<close>

definition setup_gcm ::
    "aes_prims \<Rightarrow> u8 list \<Rightarrow> u8 list \<Rightarrow> u8 list \<Rightarrow> (aes_256_ctr32 \<times> gcm_ghash) cres" where
  "setup_gcm P key nonce associated_data =
     (if length nonce \<noteq> 12 then Inl (Err InvalidNonceSize)
      else
        bindR (aes256_new key) (\<lambda>aes256.
        let h = aes_block P aes256 (replicate 16 0) in
        bindR (ctr32_new aes256 nonce 1) (\<lambda>ctr.
        let (ghash_pad, ctr) = ctr32_process P ctr (replicate 16 0) in
        bindR (gcm_new h ghash_pad associated_data) (\<lambda>g. Inr (ctr, g)))))"

record aes_256_gcm_key =
  gk_cipher :: "u8 list"
  gk_keyed_ghash :: ghash

definition gcm_key_new :: "aes_prims \<Rightarrow> u8 list \<Rightarrow> aes_256_gcm_key cres" where
  "gcm_key_new P key =
     bindR (aes256_new key) (\<lambda>cipher.
     let h = aes_block P cipher (replicate 16 0) in
     Inr \<lparr>gk_cipher = cipher, gk_keyed_ghash = \<lparr>gh_key = h, gh_blocks = []\<rparr>\<rparr>)"

definition gcm_key_setup ::
    "aes_prims \<Rightarrow> aes_256_gcm_key \<Rightarrow> u8 list \<Rightarrow> u8 list \<Rightarrow> (aes_256_ctr32 \<times> gcm_ghash) cres" where
  "gcm_key_setup P k nonce associated_data =
     (if length nonce \<noteq> 12 then Inl (Err InvalidNonceSize)
      else
        bindR (ctr32_new (gk_cipher k) nonce 1) (\<lambda>ctr.
        let (ghash_pad, ctr) = ctr32_process P ctr (replicate 16 0)
        in Inr (ctr, gcm_from_keyed (gk_keyed_ghash k) ghash_pad associated_data)))"

text \<open>An encryption or decryption in progress is the pair of its stream and its hash.\<close>

type_synonym gcm_op = "aes_256_ctr32 \<times> gcm_ghash"

definition gcm_encrypt :: "aes_prims \<Rightarrow> gcm_op \<Rightarrow> u8 list \<Rightarrow> (u8 list \<times> gcm_op) cres" where
  "gcm_encrypt P e buf =
     (let (buf, ctr) = ctr32_process P (fst e) buf
      in bindR (gcm_update (snd e) buf) (\<lambda>g. Inr (buf, ctr, g)))"

definition gcm_decrypt :: "aes_prims \<Rightarrow> gcm_op \<Rightarrow> u8 list \<Rightarrow> (u8 list \<times> gcm_op) cres" where
  "gcm_decrypt P e buf =
     bindR (gcm_update (snd e) buf) (\<lambda>g.
     let (buf, ctr) = ctr32_process P (fst e) buf in Inr (buf, ctr, g))"

definition compute_tag :: "aes_prims \<Rightarrow> gcm_op \<Rightarrow> u8 list" where
  "compute_tag P e = gcm_finalize P (snd e)"

definition verify_tag :: "aes_prims \<Rightarrow> gcm_op \<Rightarrow> u8 list \<Rightarrow> unit cres" where
  "verify_tag P e tag =
     (if length tag \<noteq> 16 then Inl (Err InvalidTag)
      else if tag \<noteq> gcm_finalize P (snd e) then Inl (Err InvalidTag)
      else Inr ())"

abbreviation map_err :: "'e \<Rightarrow> ('d, 'a) res \<Rightarrow> ('e, 'a) res" where
  "map_err e r \<equiv> mapE (\<lambda>_. e) r"

abbreviation GCM_TAG :: nat where "GCM_TAG \<equiv> 16"

text \<open>The functions that append to \<open>out\<close> return its new content; a failure leaves it as it was.\<close>

definition aes_256_gcm_encrypt ::
    "aes_prims \<Rightarrow> u8 list \<Rightarrow> u8 list \<Rightarrow> u8 list \<Rightarrow> u8 list \<Rightarrow> u8 list \<Rightarrow> (provider_error, u8 list) res" where
  "aes_256_gcm_encrypt P key nonce aad plaintext out =
     bindR (map_err BadInput (setup_gcm P key nonce aad)) (\<lambda>enc.
     bindR (map_err BadInput (gcm_encrypt P enc plaintext)) (\<lambda>(ct, enc).
     Inr (out @ ct @ compute_tag P enc)))"

definition aes_256_gcm_decrypt ::
    "aes_prims \<Rightarrow> u8 list \<Rightarrow> u8 list \<Rightarrow> u8 list \<Rightarrow> u8 list \<Rightarrow> u8 list \<Rightarrow> (provider_error, u8 list) res" where
  "aes_256_gcm_decrypt P key nonce aad ciphertext_with_tag out =
     (if length ciphertext_with_tag < 16 then Inl (Err BadInput)
      else
        let n = length ciphertext_with_tag - 16;
            ct = take n ciphertext_with_tag;
            tag = drop n ciphertext_with_tag
        in bindR (map_err BadInput (setup_gcm P key nonce aad)) (\<lambda>dec.
           bindR (map_err BadInput (gcm_decrypt P dec ct)) (\<lambda>(scratch, dec).
           bindR (map_err AuthFailed (verify_tag P dec tag)) (\<lambda>_.
           Inr (out @ scratch)))))"

text \<open>In place: the buffer is replaced by the result.\<close>

definition aes_256_gcm_encrypt_in_place ::
    "aes_prims \<Rightarrow> u8 list \<Rightarrow> u8 list \<Rightarrow> u8 list \<Rightarrow> u8 list \<Rightarrow> (provider_error, u8 list) res" where
  "aes_256_gcm_encrypt_in_place P key nonce aad buffer =
     bindR (map_err BadInput (setup_gcm P key nonce aad)) (\<lambda>enc.
     bindR (map_err BadInput (gcm_encrypt P enc buffer)) (\<lambda>(ct, enc).
     Inr (ct @ compute_tag P enc)))"

definition aes_256_gcm_decrypt_in_place ::
    "aes_prims \<Rightarrow> u8 list \<Rightarrow> u8 list \<Rightarrow> u8 list \<Rightarrow> u8 list \<Rightarrow> (provider_error, u8 list) res" where
  "aes_256_gcm_decrypt_in_place P key nonce aad buffer =
     (let total = length buffer in
      if total < GCM_TAG then Inl (Err BadInput)
      else
        let pt_len = total - GCM_TAG; tag = drop pt_len buffer
        in bindR (map_err BadInput (setup_gcm P key nonce aad)) (\<lambda>dec.
           bindR (map_err BadInput (gcm_decrypt P dec (take pt_len buffer))) (\<lambda>(buf, dec).
           bindR (map_err AuthFailed (verify_tag P dec tag)) (\<lambda>_. Inr buf))))"

text \<open>The connection-lifetime handle with the key-dependent state computed once.\<close>

definition transport_aead :: "aes_prims \<Rightarrow> u8 list \<Rightarrow> (provider_error, aes_256_gcm_key) res" where
  "transport_aead P key = map_err BadInput (gcm_key_new P key)"

definition transport_encrypt_in_place ::
    "aes_prims \<Rightarrow> aes_256_gcm_key \<Rightarrow> u8 list \<Rightarrow> u8 list \<Rightarrow> u8 list \<Rightarrow> (provider_error, u8 list) res" where
  "transport_encrypt_in_place P k nonce aad buffer =
     bindR (map_err BadInput (gcm_key_setup P k nonce aad)) (\<lambda>enc.
     bindR (map_err BadInput (gcm_encrypt P enc buffer)) (\<lambda>(ct, enc).
     Inr (ct @ compute_tag P enc)))"

definition transport_decrypt_in_place ::
    "aes_prims \<Rightarrow> aes_256_gcm_key \<Rightarrow> u8 list \<Rightarrow> u8 list \<Rightarrow> u8 list \<Rightarrow> (provider_error, u8 list) res" where
  "transport_decrypt_in_place P k nonce aad buffer =
     (let total = length buffer in
      if total < GCM_TAG then Inl (Err BadInput)
      else
        let pt_len = total - GCM_TAG; tag = drop pt_len buffer
        in bindR (map_err BadInput (gcm_key_setup P k nonce aad)) (\<lambda>dec.
           bindR (map_err BadInput (gcm_decrypt P dec (take pt_len buffer))) (\<lambda>(buf, dec).
           bindR (map_err AuthFailed (verify_tag P dec tag)) (\<lambda>_. Inr buf))))"


section \<open>The incremental hash\<close>

lemma blocks16_Nil [simp]: "blocks16 [] = []"
  by (simp add: blocks16.simps)

lemma blocks16_step: "16 \<le> length xs \<Longrightarrow> blocks16 xs = take 16 xs # blocks16 (drop 16 xs)"
  by (subst blocks16.simps) auto

lemma blocks16_append:
  "16 dvd length xs \<Longrightarrow> blocks16 (xs @ ys) = blocks16 xs @ blocks16 ys"
proof (induction xs rule: blocks16.induct)
  case (1 xs)
  show ?case
  proof (cases "xs = []")
    case False
    with 1 have "16 \<le> length xs" "16 dvd length (drop 16 xs)"
      by (auto intro: dvd_imp_le)
    with 1 False show ?thesis by (simp add: blocks16_step)
  qed simp
qed

lemma chunks16_blocks: "16 * n \<le> length xs \<Longrightarrow> chunks16 n xs = blocks16 (take (16 * n) xs)"
proof (induction n arbitrary: xs)
  case (Suc n)
  then have "blocks16 (take (16 * Suc n) xs) = take 16 xs # blocks16 (drop 16 (take (16 * Suc n) xs))"
    by (subst blocks16_step) (simp_all add: min_def)
  with Suc show ?case by (simp add: drop_take)
qed simp

text \<open>\<open>hashed g h p A M\<close>: the state after the associated data \<open>A\<close> and the message \<open>M\<close> so far.\<close>

definition whole :: "u8 list \<Rightarrow> nat" where
  "whole M = 16 * (length M div 16)"

definition hashed :: "gcm_ghash \<Rightarrow> u8 list \<Rightarrow> u8 list \<Rightarrow> u8 list \<Rightarrow> u8 list \<Rightarrow> bool" where
  "hashed g h p A M \<longleftrightarrow>
     gg_ghash g = \<lparr>gh_key = h, gh_blocks = blocks16 A @ blocks16 (take (whole M) M)\<rparr> \<and> gg_pad g = p \<and>
     length (gg_buf g) = 16 \<and> gg_offset g = length M mod 16 \<and>
     take (gg_offset g) (gg_buf g) = drop (whole M) M \<and>
     gg_ad_len g = length A \<and> gg_msg_len g = length M"

lemma whole_le: "whole M \<le> length M"
  by (simp add: whole_def)

lemma length_drop_whole [simp]: "length (drop (whole M) M) = length M mod 16"
  by (simp add: whole_def minus_mult_div_eq_mod)

lemma dvd_length_take_whole [simp]: "16 dvd length (take (whole M) M)"
  by (metis dvd_triv_left length_take min.absorb2 whole_def whole_le)

lemma whole_id: "16 dvd length M \<Longrightarrow> whole M = length M"
  by (simp add: whole_def)

lemma blocks16_whole: "blocks16 M = blocks16 (take (whole M) M) @ blocks16 (drop (whole M) M)"
  by (metis append_take_drop_id blocks16_append dvd_length_take_whole)

lemma length_whole: "length M = whole M + length M mod 16"
  by (simp add: whole_def)

lemma put_at_prefix:
  assumes "off + length xs \<le> length buf"
  shows "take (off + length xs) (put_at buf off xs) = take off buf @ xs" "length (put_at buf off xs) = length buf"
  using assms by (simp_all add: put_at_def)

lemma hashed_buf: "hashed g h p A M \<Longrightarrow> take (length M mod 16) (gg_buf g) = drop (whole M) M"
  unfolding hashed_def by metis

lemma hashed_update_full:
  assumes "hashed g h p A M" "16 dvd length M"
  shows "\<exists>g'. gcm_update_full g m = Inr g' \<and> hashed g' h p A (M @ m)"
proof -
  let ?n = "length m div 16"
  have off: "gg_offset g = 0" using assms by (auto simp: hashed_def)
  obtain k where k: "length M = 16 * k" using assms(2) by (auto elim: dvdE)
  have w: "whole (M @ m) = length M + 16 * ?n"
    using k by (simp add: whole_def)
  have "blocks16 (take (whole (M @ m)) (M @ m)) = blocks16 M @ chunks16 ?n m"
    using assms(2) by (simp add: w blocks16_append chunks16_blocks)
  moreover have "take (length m mod 16) (put_at (gg_buf g) 0 (drop (?n * 16) m)) = drop (16 * ?n) m"
    by (simp add: put_at_def mult.commute minus_mult_div_eq_mod)
  moreover have "length (put_at (gg_buf g) 0 (drop (?n * 16) m)) = 16"
    using assms(1) by (simp add: put_at_def hashed_def mult.commute minus_mult_div_eq_mod)
  moreover have "(length M + length m) mod 16 = length m mod 16" using k by simp
  ultimately show ?thesis
    using assms off
    by (simp add: gcm_update_full_def Let_def hashed_def w whole_id minus_mult_div_eq_mod ghash_update_def)
qed

lemma hashed_update:
  assumes "hashed g h p A M"
  shows "\<exists>g'. gcm_update g m = Inr g' \<and> hashed g' h p A (M @ m)"
proof (cases "gg_offset g = 0")
  case True
  with assms have "16 dvd length M" by (auto simp: hashed_def)
  from hashed_update_full [OF assms this] True show ?thesis by (simp add: gcm_update_def)
next
  case False
  define t where "t = min (length m) (16 - gg_offset g)"
  let ?o = "gg_offset g" and ?buf = "put_at (gg_buf g) (gg_offset g) (take t m)"
  let ?g = "g\<lparr>gg_buf := ?buf, gg_offset := ?o + t, gg_msg_len := gg_msg_len g + t\<rparr>"
  have o: "?o = length M mod 16" "?o < 16" "length (gg_buf g) = 16" using assms by (auto simp: hashed_def)
  have t: "length (take t m) = t" "?o + t \<le> 16" "?o + t < 16 \<Longrightarrow> t = length m"
    using o(2) by (auto simp: t_def)
  have buf: "take (?o + t) ?buf = drop (whole M) M @ take t m" "length ?buf = 16"
    using put_at_prefix [of ?o "take t m" "gg_buf g"] hashed_buf [OF assms] o t by simp_all
  have upd: "gcm_update g m =
      (if ?o + t = 16 then gcm_update_full (?g\<lparr>gg_ghash := ghash_update (gg_ghash g) [?buf], gg_offset := 0\<rparr>) (drop t m)
       else Inr ?g)"
    unfolding gcm_update_def t_def [symmetric] Let_def using False o(2) t(2) by simp
  show ?thesis
  proof (cases "?o + t = 16")
    case True
    let ?M = "M @ take t m"
    have "length ?M = whole M + 16" using True o(1) length_whole [of M] t(1) unfolding length_append by linarith
    then have d: "16 dvd length ?M" by (simp add: whole_def)
    have "?M = take (whole M) M @ (drop (whole M) M @ take t m)" by simp
    also have "drop (whole M) M @ take t m = ?buf" using buf True by simp
    finally have "blocks16 ?M = blocks16 (take (whole M) M) @ [?buf]"
      using blocks16_append [OF dvd_length_take_whole, of M ?buf] buf(2) by (simp add: blocks16_step)
    then have "hashed (?g\<lparr>gg_ghash := ghash_update (gg_ghash g) [?buf], gg_offset := 0\<rparr>) h p A ?M"
      using assms d buf(2) t(1) by (simp add: hashed_def whole_id ghash_update_def del: length_take)
    from hashed_update_full [OF this d, of "drop t m"] True show ?thesis unfolding upd by simp
  next
    case False
    then have tm: "t = length m" "?o + length m < 16" using t by auto
    have len: "length M + length m = 16 * (length M div 16) + (?o + length m)"
      using o(1) length_whole [of M] unfolding whole_def by linarith
    have w: "whole (M @ m) = whole M" "(length M + length m) mod 16 = ?o + length m"
      unfolding whole_def length_append len using tm(2) by simp_all
    have "hashed ?g h p A (M @ m)"
      using assms buf tm(1) w whole_le [of M] by (simp add: hashed_def)
    with False show ?thesis unfolding upd by simp
  qed
qed

text \<open>The reference: the tag of a message under the hash key \<open>h\<close>, with the mask \<open>p\<close>.\<close>

definition gcm_tag :: "aes_prims \<Rightarrow> u8 list \<Rightarrow> u8 list \<Rightarrow> u8 list \<Rightarrow> u8 list \<Rightarrow> u8 list" where
  "gcm_tag P h p A M =
     xor_bytes
       (ghash_out P h (blocks16 A @ blocks16 M @
          [u64_to_be_bytes (8 * of_nat (length A)) @ u64_to_be_bytes (8 * of_nat (length M))])) p"

lemma hashed_finalize:
  assumes "hashed g h p A M"
  shows "gcm_finalize P g = gcm_tag P h p A M"
proof (cases "gg_offset g = 0")
  case True
  then have "16 dvd length M" using assms by (auto simp: hashed_def)
  with assms True show ?thesis
    by (simp add: gcm_finalize_def gcm_tag_def hashed_def Let_def ghash_update_def whole_id)
next
  case False
  then show ?thesis
    using assms blocks16_whole [of M] hashed_buf [OF assms]
    by (auto simp: gcm_finalize_def gcm_tag_def hashed_def Let_def ghash_update_def ghash_update_padded_def)
qed

lemma hashed_from_keyed:
  "hashed (gcm_from_keyed \<lparr>gh_key = h, gh_blocks = []\<rparr> p A) h p A []"
  by (simp add: hashed_def gcm_from_keyed_def ghash_update_padded_def ghash_update_def whole_def)


section \<open>The reference\<close>

text \<open>GCM with a 12-byte nonce: the hash key is the encrypted zero block, the tag mask the first block
  of the stream and the message is masked with the stream from the second block on.\<close>

definition gcm_hash_key :: "aes_prims \<Rightarrow> u8 list \<Rightarrow> u8 list" where
  "gcm_hash_key P key = aes_block P key (replicate 16 0)"

definition gcm_stream :: "u8 list \<Rightarrow> u8 list \<Rightarrow> nat \<Rightarrow> aes_256_ctr32" where
  "gcm_stream key nonce pos = \<lparr>ct_key = key, ct_block = nonce @ replicate 4 0, ct_pos = pos\<rparr>"

definition gcm_mask :: "aes_prims \<Rightarrow> u8 list \<Rightarrow> u8 list \<Rightarrow> u8 list" where
  "gcm_mask P key nonce = xor_bytes (replicate 16 0) (keystream P (gcm_stream key nonce 16) 16)"

definition gcm_crypt :: "aes_prims \<Rightarrow> u8 list \<Rightarrow> u8 list \<Rightarrow> u8 list \<Rightarrow> u8 list" where
  "gcm_crypt P key nonce m = xor_bytes m (keystream P (gcm_stream key nonce 32) (length m))"

definition seal :: "aes_prims \<Rightarrow> u8 list \<Rightarrow> u8 list \<Rightarrow> u8 list \<Rightarrow> u8 list \<Rightarrow> u8 list" where
  "seal P key nonce aad m =
     (let c = gcm_crypt P key nonce m
      in c @ gcm_tag P (gcm_hash_key P key) (gcm_mask P key nonce) aad c)"

definition open_sealed ::
    "aes_prims \<Rightarrow> u8 list \<Rightarrow> u8 list \<Rightarrow> u8 list \<Rightarrow> u8 list \<Rightarrow> (provider_error, u8 list) res" where
  "open_sealed P key nonce aad x =
     (let c = take (length x - 16) x
      in if length x < 16 then Inl (Err BadInput)
         else if drop (length x - 16) x = gcm_tag P (gcm_hash_key P key) (gcm_mask P key nonce) aad c
         then Inr (gcm_crypt P key nonce c)
         else Inl (Err AuthFailed))"

lemma length_xor_bytes [simp]: "length (xor_bytes xs ys) = min (length xs) (length ys)"
  by (simp add: xor_bytes_def)

lemma length_keystream [simp]: "length (keystream P c n) = n"
  by (simp add: keystream_def)

lemma xor_bytes_twice: "length xs \<le> length ys \<Longrightarrow> xor_bytes (xor_bytes xs ys) ys = xs"
  by (induction xs ys rule: list_induct2') (auto simp: xor_bytes_def xor.assoc)

lemma length_gcm_mask [simp]: "length (gcm_mask P key nonce) = 16"
  by (simp add: gcm_mask_def)

lemma length_gcm_crypt [simp]: "length (gcm_crypt P key nonce m) = length m"
  by (simp add: gcm_crypt_def)

lemma gcm_crypt_twice [simp]: "gcm_crypt P key nonce (gcm_crypt P key nonce m) = m"
  by (simp add: gcm_crypt_def xor_bytes_twice)

lemma length_gcm_tag: "prims_ok P \<Longrightarrow> length p = 16 \<Longrightarrow> length (gcm_tag P h p A M) = 16"
  by (simp add: gcm_tag_def prims_ok_def)

lemma length_seal: "prims_ok P \<Longrightarrow> length (seal P key nonce aad m) = length m + 16"
  by (simp add: seal_def Let_def length_gcm_tag)

lemma open_seal: "prims_ok P \<Longrightarrow> open_sealed P key nonce aad (seal P key nonce aad m) = Inr m"
  by (simp add: open_sealed_def seal_def Let_def length_gcm_tag)

lemma open_sealed_Inr:
  assumes "prims_ok P" "open_sealed P key nonce aad x = Inr m"
  shows "x = seal P key nonce aad m"
proof -
  let ?n = "length x - 16"
  have t: "drop ?n x = gcm_tag P (gcm_hash_key P key) (gcm_mask P key nonce) aad (take ?n x)"
    and m: "m = gcm_crypt P key nonce (take ?n x)"
    using assms(2) by (auto simp: open_sealed_def Let_def split: if_splits)
  then have "seal P key nonce aad m = take ?n x @ drop ?n x" by (simp add: seal_def Let_def)
  then show ?thesis by simp
qed

section \<open>The code computes the reference\<close>

definition gcm_state :: "aes_prims \<Rightarrow> u8 list \<Rightarrow> u8 list \<Rightarrow> u8 list \<Rightarrow> u8 list \<Rightarrow> gcm_op \<Rightarrow> bool" where
  "gcm_state P key nonce aad M e \<longleftrightarrow>
     fst e = gcm_stream key nonce (32 + length M) \<and>
     hashed (snd e) (gcm_hash_key P key) (gcm_mask P key nonce) aad M"

lemma setup_gcm_state:
  assumes "length key = 32" "length nonce = 12"
  shows "\<exists>e. setup_gcm P key nonce aad = Inr e \<and> gcm_state P key nonce aad [] e"
    and "\<exists>k. gcm_key_new P key = Inr k \<and> (\<forall>nonce aad. length nonce = 12 \<longrightarrow> gcm_key_setup P k nonce aad = setup_gcm P key nonce aad)"
  using assms
  by (auto simp: setup_gcm_def aes256_new_def ctr32_new_def ctr32_process_def gcm_new_def gcm_state_def gcm_stream_def
      gcm_hash_key_def gcm_mask_def hashed_from_keyed gcm_key_new_def gcm_key_setup_def Let_def)

lemma keystream_append:
  "keystream P (gcm_stream key nonce p) (m + n) =
     keystream P (gcm_stream key nonce p) m @ keystream P (gcm_stream key nonce (p + m)) n"
proof -
  have "[0..<m + n] = [0..<m] @ map (\<lambda>i. i + m) [0..<n]"
    by (simp add: upt_add_eq_append [of 0] map_add_upt add.commute)
  then show ?thesis by (simp add: keystream_def gcm_stream_def ac_simps comp_def)
qed

lemma xor_bytes_append: "length xs = length ys \<Longrightarrow> xor_bytes (xs @ us) (ys @ vs) = xor_bytes xs ys @ xor_bytes us vs"
  by (simp add: xor_bytes_def)

lemma gcm_crypt_append:
  "gcm_crypt P key nonce (x @ y) =
     gcm_crypt P key nonce x @ xor_bytes y (keystream P (gcm_stream key nonce (32 + length x)) (length y))"
  by (simp add: gcm_crypt_def keystream_append xor_bytes_append)

lemma gcm_encrypt_state:
  assumes "gcm_state P key nonce aad M e"
  shows "\<exists>c e'. gcm_encrypt P e m = Inr (c, e') \<and> gcm_state P key nonce aad (M @ c) e' \<and>
    c = xor_bytes m (keystream P (gcm_stream key nonce (32 + length M)) (length m))"
proof -
  let ?c = "xor_bytes m (keystream P (gcm_stream key nonce (32 + length M)) (length m))"
  obtain g where "gcm_update (snd e) ?c = Inr g" "hashed g (gcm_hash_key P key) (gcm_mask P key nonce) aad (M @ ?c)"
    using hashed_update assms unfolding gcm_state_def by blast
  with assms show ?thesis
    by (auto simp: gcm_encrypt_def ctr32_process_def gcm_state_def gcm_stream_def add.assoc)
qed

lemma gcm_decrypt_state:
  assumes "gcm_state P key nonce aad [] e"
  shows "\<exists>e'. gcm_decrypt P e c = Inr (gcm_crypt P key nonce c, e') \<and> gcm_state P key nonce aad c e'"
proof -
  obtain g where "gcm_update (snd e) c = Inr g" "hashed g (gcm_hash_key P key) (gcm_mask P key nonce) aad c"
    using hashed_update [of "snd e" "gcm_hash_key P key" "gcm_mask P key nonce" aad "[]" c] assms
    unfolding gcm_state_def by auto
  with assms show ?thesis
    by (auto simp: gcm_decrypt_def ctr32_process_def gcm_state_def gcm_stream_def gcm_crypt_def)
qed

lemma encrypt_seal:
  assumes "gcm_state P key nonce aad [] e"
  shows "bindR (map_err BadInput (gcm_encrypt P e m)) (\<lambda>(ct, enc). Inr (out @ ct @ compute_tag P enc)) =
    Inr (out @ seal P key nonce aad m)"
proof -
  from gcm_encrypt_state [OF assms, of m] obtain e' where
    "gcm_encrypt P e m = Inr (gcm_crypt P key nonce m, e')" "gcm_state P key nonce aad (gcm_crypt P key nonce m) e'"
    by (auto simp: gcm_crypt_def)
  then show ?thesis
    by (simp add: compute_tag_def seal_def Let_def gcm_state_def hashed_finalize)
qed

lemma decrypt_open:
  assumes "gcm_state P key nonce aad [] e" "\<not> length x < 16"
  shows "bindR (map_err BadInput (gcm_decrypt P e (take (length x - 16) x))) (\<lambda>(buf, dec).
      bindR (map_err AuthFailed (verify_tag P dec (drop (length x - 16) x))) (\<lambda>_. Inr (out @ buf))) =
    mapR ((@) out) (open_sealed P key nonce aad x)"
proof -
  let ?c = "take (length x - 16) x"
  from gcm_decrypt_state [OF assms(1), of ?c] obtain e' where
    d: "gcm_decrypt P e ?c = Inr (gcm_crypt P key nonce ?c, e')" "gcm_state P key nonce aad ?c e'" by blast
  then have "gcm_finalize P (snd e') = gcm_tag P (gcm_hash_key P key) (gcm_mask P key nonce) aad ?c"
    unfolding gcm_state_def by (blast intro: hashed_finalize)
  with d(1) assms(2) show ?thesis
    by (simp add: open_sealed_def Let_def verify_tag_def)
qed

lemma gcm_reference:
  assumes "length key = 32" and "length nonce = 12"
  shows "aes_256_gcm_encrypt P key nonce aad m out = Inr (out @ seal P key nonce aad m) \<and>
    aes_256_gcm_encrypt_in_place P key nonce aad m = Inr (seal P key nonce aad m) \<and>
    aes_256_gcm_decrypt P key nonce aad x out = mapR ((@) out) (open_sealed P key nonce aad x) \<and>
    aes_256_gcm_decrypt_in_place P key nonce aad x = open_sealed P key nonce aad x \<and>
    (\<exists>k. transport_aead P key = Inr k \<and>
       transport_encrypt_in_place P k nonce aad m = Inr (seal P key nonce aad m) \<and>
       transport_decrypt_in_place P k nonce aad x = open_sealed P key nonce aad x)"
proof -
  obtain e where e: "setup_gcm P key nonce aad = Inr e" "gcm_state P key nonce aad [] e"
    using setup_gcm_state [OF assms] by blast
  obtain k where k: "gcm_key_new P key = Inr k" "gcm_key_setup P k nonce aad = Inr e"
    using setup_gcm_state(2) [OF assms, of P] assms(2) e(1) by auto
  have short: "length x < 16 \<Longrightarrow> open_sealed P key nonce aad x = Inl (Err BadInput)"
    by (simp add: open_sealed_def Let_def)
  note seal = encrypt_seal [OF e(2), where m = m] and opn = decrypt_open [OF e(2), where x = x]
  have id: "mapR ((@) []) r = r" for r :: "(provider_error, u8 list) res" by (cases r) auto
  show ?thesis
    using e(1) k seal [of out] seal [of "[]"] opn [of out] opn [of "[]"] short
    by (cases "length x < 16")
      (simp_all add: aes_256_gcm_encrypt_def aes_256_gcm_encrypt_in_place_def aes_256_gcm_decrypt_def
        aes_256_gcm_decrypt_in_place_def transport_aead_def transport_encrypt_in_place_def
        transport_decrypt_in_place_def Let_def id del: bindR_eq_Inr)
qed

section \<open>Properties\<close>

text \<open>C24: with a 32-byte key and a 12-byte nonce, the one-shot, the in-place and the
  connection-lifetime functions all compute the GCM sealing and opening, tag check included; none of
  them panics.\<close>

theorem gcm_computes_reference:
  assumes "length key = 32" and "length nonce = 12"
  shows "aes_256_gcm_encrypt P key nonce aad m out = Inr (out @ seal P key nonce aad m) \<and>
    aes_256_gcm_encrypt_in_place P key nonce aad m = Inr (seal P key nonce aad m) \<and>
    aes_256_gcm_decrypt P key nonce aad x out = mapR ((@) out) (open_sealed P key nonce aad x) \<and>
    aes_256_gcm_decrypt_in_place P key nonce aad x = open_sealed P key nonce aad x \<and>
    (\<exists>k. transport_aead P key = Inr k \<and>
       transport_encrypt_in_place P k nonce aad m = Inr (seal P key nonce aad m) \<and>
       transport_decrypt_in_place P k nonce aad x = open_sealed P key nonce aad x)"
  using assms by (rule gcm_reference)


definition sample_prims :: aes_prims where
  "sample_prims =
     \<lparr>aes_block = (\<lambda>k b. b), ctr_byte = (\<lambda>k b i. of_nat i), ghash_out = (\<lambda>h bs. replicate 16 (of_nat (length bs)))\<rparr>"

lemma sample_prims_ok: "prims_ok sample_prims"
  by (simp add: prims_ok_def sample_prims_def)

theorem gcm_computes_reference_witness:
  "aes_256_gcm_decrypt_in_place sample_prims (replicate 32 1) (replicate 12 2) [] [7] = Inl (Err BadInput)"
proof -
  have "aes_256_gcm_decrypt_in_place sample_prims (replicate 32 1) (replicate 12 2) [] [7] =
      open_sealed sample_prims (replicate 32 1) (replicate 12 2) [] [7]"
    using gcm_computes_reference [of "replicate 32 1" "replicate 12 2" sample_prims "[]" _ _ "[7]"] by simp
  then show ?thesis by (simp add: open_sealed_def)
qed

text \<open>Opening a sealed message gives the message back, appended to the output buffer, and
  the only input that opens to a message is its sealing.\<close>

theorem gcm_roundtrip:
  assumes "prims_ok P" and "length key = 32" and "length nonce = 12"
  shows "(\<exists>c. aes_256_gcm_encrypt P key nonce aad m [] = Inr c \<and> length c = length m + GCM_TAG \<and>
      aes_256_gcm_decrypt P key nonce aad c out = Inr (out @ m)) \<and>
    (aes_256_gcm_decrypt P key nonce aad x [] = Inr y \<longrightarrow> aes_256_gcm_encrypt P key nonce aad y [] = Inr x)"
proof -
  have "mapR ((@) []) r = r" for r :: "(provider_error, u8 list) res" by (cases r) auto
  then show ?thesis
    using gcm_reference [OF assms(2,3), of P aad] length_seal [OF assms(1)] open_seal [OF assms(1)]
      open_sealed_Inr [OF assms(1)] by auto
qed

text \<open>A message encrypted in pieces gives the ciphertext and the tag of the whole
  message.\<close>

theorem gcm_in_pieces:
  assumes "setup_gcm P key nonce aad = Inr e"
  shows "\<exists>c e' e''. iterR (\<lambda>(cs, e) m. mapR (\<lambda>(c, e'). (cs @ c, e')) (gcm_encrypt P e m)) ([], e) ms = Inr (c, e') \<and>
    gcm_encrypt P e (concat ms) = Inr (c, e'') \<and> compute_tag P e' = compute_tag P e''"
proof -
  have "length key = 32" "length nonce = 12"
    using assms by (auto simp: setup_gcm_def aes256_new_def split: if_splits)
  then have st: "gcm_state P key nonce aad [] e" using setup_gcm_state(1) [of key nonce P aad] assms by auto
  have run: "\<exists>c e'. iterR (\<lambda>(cs, e) m. mapR (\<lambda>(c, e'). (cs @ c, e')) (gcm_encrypt P e m)) (cs, e) ms = Inr (cs @ c, e') \<and>
      gcm_state P key nonce aad (M @ c) e' \<and>
      c = xor_bytes (concat ms) (keystream P (gcm_stream key nonce (32 + length M)) (length (concat ms)))"
    if "gcm_state P key nonce aad M e" for cs e M
    using that
  proof (induction ms arbitrary: cs e M)
    case Nil
    then show ?case by (simp add: xor_bytes_def)
  next
    case (Cons m ms)
    from gcm_encrypt_state [OF Cons.prems, of m] obtain c e1 where
      c: "gcm_encrypt P e m = Inr (c, e1)" "gcm_state P key nonce aad (M @ c) e1"
        "c = xor_bytes m (keystream P (gcm_stream key nonce (32 + length M)) (length m))" by blast
    from Cons.IH [OF c(2), of "cs @ c"] c show ?case
      by (auto simp: keystream_append xor_bytes_append add.assoc)
  qed
  from run [OF st, of "[]"] gcm_encrypt_state [OF st, of "concat ms"] show ?thesis
    by (auto simp: compute_tag_def gcm_state_def hashed_finalize)
qed

end
