(* ===== verification/Noise.thy ===== *)
theory Noise
  imports Gcm
begin

text \<open>The Noise symmetric state and the transport ciphers (wacore/noise/src/state.rs).  Hashing and key
  derivation come from other crates and are fields of a record next to the AES primitives.  The
  central fact is that two parties in the same state stay in the same state: decrypting what the
  other one encrypted gives the plaintext and mixes in the same ciphertext.\<close>

section \<open>Primitives and errors\<close>

text \<open>\<open>hkdf salt ikm info n\<close>: the first \<open>n\<close> bytes of HKDF-SHA256, which has an output limit of 255 hash
  lengths.\<close>

record noise_prims =
  np_aes :: aes_prims
  sha256 :: "u8 list \<Rightarrow> u8 list"
  hkdf :: "u8 list \<Rightarrow> u8 list \<Rightarrow> u8 list \<Rightarrow> nat \<Rightarrow> u8 list option"

definition noise_prims_ok :: "noise_prims \<Rightarrow> bool" where
  "noise_prims_ok N \<longleftrightarrow>
     prims_ok (np_aes N) \<and> (\<forall>x. length (sha256 N x) = 32) \<and>
     (\<forall>s i f n. n \<le> 255 * 32 \<longrightarrow> (\<exists>k. hkdf N s i f n = Some k \<and> length k = n))"

datatype noise_error =
  InvalidPatternLength nat nat | NoiseEncrypt provider_error | NoiseDecrypt provider_error | CiphertextTooShort
  | HkdfExpandFailed | NoiseInvalidKeyLength str nat nat | CounterExhausted

definition generate_iv :: "u32 \<Rightarrow> u8 list" where
  "generate_iv counter = put_at (replicate 12 0) 8 (u32_to_be_bytes counter)"

abbreviation TAG_LEN :: nat where "TAG_LEN \<equiv> 16"

section \<open>Transport ciphers\<close>

type_synonym noise_cipher = aes_256_gcm_key

definition noise_cipher_new :: "noise_prims \<Rightarrow> u8 list \<Rightarrow> (noise_error, noise_cipher) res" where
  "noise_cipher_new N key = mapE NoiseEncrypt (transport_aead (np_aes N) key)"

definition encrypt_with_counter ::
    "noise_prims \<Rightarrow> noise_cipher \<Rightarrow> u32 \<Rightarrow> u8 list \<Rightarrow> (noise_error, u8 list) res" where
  "encrypt_with_counter N k counter plaintext =
     (let iv = generate_iv counter
      in mapE NoiseEncrypt (transport_encrypt_in_place (np_aes N) k iv [] plaintext))"

definition encrypt_in_place_with_counter ::
    "noise_prims \<Rightarrow> noise_cipher \<Rightarrow> u32 \<Rightarrow> u8 list \<Rightarrow> (noise_error, u8 list) res" where
  "encrypt_in_place_with_counter N k counter buffer =
     (let iv = generate_iv counter
      in mapE NoiseEncrypt (transport_encrypt_in_place (np_aes N) k iv [] buffer))"

definition decrypt_in_place_with_counter ::
    "noise_prims \<Rightarrow> noise_cipher \<Rightarrow> u32 \<Rightarrow> u8 list \<Rightarrow> (noise_error, u8 list) res" where
  "decrypt_in_place_with_counter N k counter buffer =
     (let iv = generate_iv counter
      in mapE NoiseDecrypt (transport_decrypt_in_place (np_aes N) k iv [] buffer))"

section \<open>Symmetric state\<close>

record noise_state =
  ns_hash :: "u8 list"
  ns_salt :: "u8 list"
  ns_key :: "u8 list"
  ns_counter :: u32

definition authenticate :: "noise_prims \<Rightarrow> u8 list \<Rightarrow> noise_state \<Rightarrow> noise_state" where
  "authenticate N data st = st\<lparr>ns_hash := sha256 N (ns_hash st @ data)\<rparr>"

definition noise_state_new :: "noise_prims \<Rightarrow> u8 list \<Rightarrow> u8 list \<Rightarrow> noise_state" where
  "noise_state_new N pattern prologue =
     (let h = (if length pattern \<le> 32 then put_at (replicate 32 0) 0 pattern else sha256 N pattern)
      in authenticate N prologue \<lparr>ns_hash = h, ns_salt = h, ns_key = h, ns_counter = 0\<rparr>)"

definition post_increment_counter :: "(noise_state, noise_error, u32) meth" where
  "post_increment_counter st =
     (let count = ns_counter st in
      if unat count = 2 ^ 32 - 1 then (Inl (Err CounterExhausted), st)
      else (Inr count, st\<lparr>ns_counter := count + 1\<rparr>))"

definition noise_encrypt :: "noise_prims \<Rightarrow> u8 list \<Rightarrow> (noise_state, noise_error, u8 list) meth" where
  "noise_encrypt N plaintext =
     bindS post_increment_counter (\<lambda>counter.
     let iv = generate_iv counter in
     bindS getS (\<lambda>st.
     bindS (liftS (mapE NoiseEncrypt
             (aes_256_gcm_encrypt (np_aes N) (ns_key st) iv (ns_hash st) plaintext []))) (\<lambda>out.
     bindS (modifyS (authenticate N out)) (\<lambda>_.
     returnS out))))"

text \<open>Appends to \<open>out\<close>; the new content of \<open>out\<close> is the result.\<close>

definition noise_encrypt_into :: "noise_prims \<Rightarrow> u8 list \<Rightarrow> u8 list \<Rightarrow> (noise_state, noise_error, u8 list) meth" where
  "noise_encrypt_into N plaintext out =
     bindS post_increment_counter (\<lambda>counter.
     let iv = generate_iv counter in
     bindS getS (\<lambda>st.
     let start = length out in
     bindS (liftS (mapE NoiseEncrypt
             (aes_256_gcm_encrypt (np_aes N) (ns_key st) iv (ns_hash st) plaintext out))) (\<lambda>out.
     bindS (modifyS (authenticate N (drop start out))) (\<lambda>_.
     returnS out))))"

definition noise_decrypt :: "noise_prims \<Rightarrow> u8 list \<Rightarrow> (noise_state, noise_error, u8 list) meth" where
  "noise_decrypt N ciphertext =
     bindS getS (\<lambda>st.
     let aad = ns_hash st in
     bindS post_increment_counter (\<lambda>counter.
     let iv = generate_iv counter in
     bindS (liftS (mapE NoiseDecrypt
             (aes_256_gcm_decrypt (np_aes N) (ns_key st) iv aad ciphertext []))) (\<lambda>out.
     bindS (modifyS (authenticate N ciphertext)) (\<lambda>_.
     returnS out))))"

definition noise_decrypt_into :: "noise_prims \<Rightarrow> u8 list \<Rightarrow> u8 list \<Rightarrow> (noise_state, noise_error, u8 list) meth" where
  "noise_decrypt_into N ciphertext out =
     (if length ciphertext < TAG_LEN then liftS (Inl (Err CiphertextTooShort))
      else
        bindS getS (\<lambda>st.
        let aad = ns_hash st in
        bindS post_increment_counter (\<lambda>counter.
        let iv = generate_iv counter in
        bindS (liftS (mapE NoiseDecrypt
                (aes_256_gcm_decrypt (np_aes N) (ns_key st) iv aad ciphertext out))) (\<lambda>out.
        bindS (modifyS (authenticate N ciphertext)) (\<lambda>_.
        returnS out)))))"

definition extract_and_expand ::
    "noise_prims \<Rightarrow> noise_state \<Rightarrow> u8 list option \<Rightarrow> (noise_error, u8 list \<times> u8 list) res" where
  "extract_and_expand N st ikm =
     bindR (ok_or (hkdf N (ns_salt st) (case ikm of Some i \<Rightarrow> i | None \<Rightarrow> []) [] 64) HkdfExpandFailed) (\<lambda>okm.
     Inr (take 32 okm, drop 32 okm))"

definition mix_key :: "noise_prims \<Rightarrow> u8 list \<Rightarrow> (noise_state, noise_error, unit) meth" where
  "mix_key N input_key_material =
     bindS (modifyS (\<lambda>st. st\<lparr>ns_counter := 0\<rparr>)) (\<lambda>_.
     bindS getS (\<lambda>st.
     bindS (liftS (extract_and_expand N st (Some input_key_material))) (\<lambda>(new_salt, new_key).
     modifyS (\<lambda>st. st\<lparr>ns_salt := new_salt, ns_key := new_key\<rparr>))))"

record noise_keys =
  nk_write :: noise_cipher
  nk_read :: noise_cipher

definition noise_split :: "noise_prims \<Rightarrow> noise_state \<Rightarrow> (noise_error, noise_keys) res" where
  "noise_split N st =
     bindR (extract_and_expand N st None) (\<lambda>(write_bytes, read_bytes).
     bindR (noise_cipher_new N write_bytes) (\<lambda>write.
     bindR (noise_cipher_new N read_bytes) (\<lambda>read.
     Inr \<lparr>nk_write = write, nk_read = read\<rparr>)))"

section \<open>Nonces\<close>

lemma length_generate_iv [simp]: "length (generate_iv c) = 12"
  by (simp add: generate_iv_def put_at_def u32_to_be_bytes_def)

lemma u32_to_be_bytes_inj: "u32_to_be_bytes a = u32_to_be_bytes b \<longleftrightarrow> a = b"
proof
  assume "u32_to_be_bytes a = u32_to_be_bytes b"
  then have "u32_from_be_bytes (ucast (drop_bit 24 a)) (ucast (drop_bit 16 a)) (ucast (drop_bit 8 a)) (ucast a) =
      u32_from_be_bytes (ucast (drop_bit 24 b)) (ucast (drop_bit 16 b)) (ucast (drop_bit 8 b)) (ucast b)"
    unfolding u32_to_be_bytes_def by (simp only: list.inject)
  then show "a = b" unfolding u32_be_roundtrip .
qed simp

lemma length_u32_to_be_bytes [simp]: "length (u32_to_be_bytes w) = 4"
  by (simp add: u32_to_be_bytes_def)

lemma generate_iv_inj: "generate_iv a = generate_iv b \<longleftrightarrow> a = b"
  by (simp add: generate_iv_def put_at_def u32_to_be_bytes_inj)

section \<open>Well-formed states\<close>

definition noise_wf :: "noise_state \<Rightarrow> bool" where
  "noise_wf st \<longleftrightarrow> length (ns_hash st) = 32 \<and> length (ns_salt st) = 32 \<and> length (ns_key st) = 32"

lemma noise_wf_new: "noise_prims_ok N \<Longrightarrow> noise_wf (noise_state_new N pattern prologue)"
  by (simp add: noise_wf_def noise_state_new_def authenticate_def noise_prims_ok_def put_at_def Let_def)

lemma noise_wf_authenticate: "noise_prims_ok N \<Longrightarrow> noise_wf st \<Longrightarrow> noise_wf (authenticate N x st)"
  by (simp add: noise_wf_def authenticate_def noise_prims_ok_def)

lemma authenticate_frame [frame, simp]:
  "ns_key (authenticate N x st) = ns_key st" "ns_salt (authenticate N x st) = ns_salt st"
  "ns_counter (authenticate N x st) = ns_counter st"
  by (simp_all add: authenticate_def)

lemma noise_wf_counter [simp]: "noise_wf (st\<lparr>ns_counter := c\<rparr>) = noise_wf st"
  by (simp add: noise_wf_def)

lemma extract_and_expand_ok:
  assumes "noise_prims_ok N"
  shows "\<exists>a b. extract_and_expand N st ikm = Inr (a, b) \<and> length a = 32 \<and> length b = 32"
proof -
  let ?i = "case ikm of Some i \<Rightarrow> i | None \<Rightarrow> []"
  have "(64 :: nat) \<le> 255 * 32" by simp
  then obtain k where "hkdf N (ns_salt st) ?i [] 64 = Some k" "length k = 64"
    using assms unfolding noise_prims_ok_def by blast
  then show ?thesis by (simp add: extract_and_expand_def)
qed

lemma mix_key_ok:
  assumes "noise_prims_ok N" "noise_wf st"
  shows "\<exists>st'. mix_key N ikm st = (Inr (), st') \<and> noise_wf st' \<and> ns_counter st' = 0 \<and> ns_hash st' = ns_hash st"
proof -
  obtain a b where "extract_and_expand N (st\<lparr>ns_counter := 0\<rparr>) (Some ikm) = Inr (a, b)" "length a = 32" "length b = 32"
    using extract_and_expand_ok [OF assms(1)] by blast
  with assms(2) show ?thesis by (simp add: mix_key_def noise_wf_def)
qed

text \<open>One encryption.  The counter is the only reason it can fail.\<close>

lemma noise_encrypt_ok:
  assumes "noise_prims_ok N" "noise_wf st" "unat (ns_counter st) < 2 ^ 32 - 1"
  shows "\<exists>c st'. noise_encrypt N m st = (Inr c, st') \<and> noise_decrypt N c st = (Inr m, st') \<and> noise_wf st' \<and>
    length c = length m + TAG_LEN \<and> ns_counter st' = ns_counter st + 1 \<and> ns_key st' = ns_key st \<and>
    c = seal (np_aes N) (ns_key st) (generate_iv (ns_counter st)) (ns_hash st) m"
proof -
  let ?c = "seal (np_aes N) (ns_key st) (generate_iv (ns_counter st)) (ns_hash st) m"
  have P: "prims_ok (np_aes N)" using assms(1) by (simp add: noise_prims_ok_def)
  have k: "length (ns_key st) = 32" using assms(2) by (simp add: noise_wf_def)
  note r = gcm_reference [OF k length_generate_iv, of "np_aes N"]
  have "aes_256_gcm_encrypt (np_aes N) (ns_key st) (generate_iv (ns_counter st)) (ns_hash st) m [] = Inr ?c"
    using r by simp
  moreover have "aes_256_gcm_decrypt (np_aes N) (ns_key st) (generate_iv (ns_counter st)) (ns_hash st) ?c [] = Inr m"
    using r open_seal [OF P] by simp
  moreover have "bindS post_increment_counter f st = f (ns_counter st) (st\<lparr>ns_counter := ns_counter st + 1\<rparr>)"
    for f :: "u32 \<Rightarrow> (noise_state, noise_error, u8 list) meth"
    using assms(3) by (intro bindS_Inr) (simp add: post_increment_counter_def Let_def)
  ultimately show ?thesis
    using length_seal [OF P] noise_wf_authenticate [OF assms(1), of "st\<lparr>ns_counter := ns_counter st + 1\<rparr>"] assms(2)
    by (simp add: noise_encrypt_def noise_decrypt_def Let_def)
qed


definition sample_noise :: noise_prims where
  "sample_noise =
     \<lparr>np_aes = sample_prims, sha256 = (\<lambda>x. replicate 32 (of_nat (length x))),
      hkdf = (\<lambda>s i f n. if n \<le> 255 * 32 then Some (replicate n (of_nat (length i))) else None)\<rparr>"

lemma sample_noise_ok: "noise_prims_ok sample_noise"
  by (simp add: noise_prims_ok_def sample_noise_def sample_prims_ok)

end
