(* ===== verification/Framing.thy ===== *)
theory Framing
  imports Prelude
begin

text \<open>The three-byte length framing of the socket (wacore/noise/src/framing.rs), the connection header
  (edge_routing.rs) and the loops that take frames from what the transport delivers
  (\<open>read_messages_loop\<close> in src/client/node_io.rs, \<open>recv_frame\<close> in src/handshake.rs).  The main result
  is that the frames taken do not depend on how the transport cuts the stream into chunks.\<close>

section \<open>Frames\<close>

abbreviation FRAME_LENGTH_SIZE :: nat where "FRAME_LENGTH_SIZE \<equiv> 3"
abbreviation FRAME_MAX_SIZE :: nat where "FRAME_MAX_SIZE \<equiv> 16777216"

text \<open>The buffer passed in is cleared once the size check has passed, so the result does not depend on
  it; the result is the buffer's new content.\<close>

definition encode_frame_into :: "u8 list \<Rightarrow> u8 list option \<Rightarrow> (str, u8 list) res" where
  "encode_frame_into payload header =
     (let payload_len = length payload in
      if FRAME_MAX_SIZE \<le> payload_len then
        Inl (Err (lit ''Frame is too large (max: '' @ decimal FRAME_MAX_SIZE @ lit '', got: '' @
                  decimal payload_len @ lit '')''))
      else
        let out = (case header of Some h \<Rightarrow> h | None \<Rightarrow> []);
            len_bytes = u32_to_be_bytes (of_nat payload_len);
            out = out @ drop 1 len_bytes
        in Inr (out @ payload))"

definition encode_frame :: "u8 list \<Rightarrow> u8 list option \<Rightarrow> (str, u8 list) res" where
  "encode_frame payload header = encode_frame_into payload header"

record frame_decoder =
  fd_buffer :: "u8 list"

definition frame_decoder_new :: frame_decoder where
  "frame_decoder_new = \<lparr>fd_buffer = []\<rparr>"

definition feed :: "frame_decoder \<Rightarrow> u8 list \<Rightarrow> frame_decoder" where
  "feed d xs = d\<lparr>fd_buffer := fd_buffer d @ xs\<rparr>"

text \<open>\<open>unshared\<close>: the payload has no other owner, so its allocation can be adopted.\<close>

definition feed_bytes :: "bool \<Rightarrow> frame_decoder \<Rightarrow> u8 list \<Rightarrow> frame_decoder" where
  "feed_bytes unshared d xs =
     (if fd_buffer d = [] then
        if unshared then d\<lparr>fd_buffer := xs\<rparr> else d\<lparr>fd_buffer := fd_buffer d @ xs\<rparr>
      else d\<lparr>fd_buffer := fd_buffer d @ xs\<rparr>)"

definition frame_len_of :: "u8 \<Rightarrow> u8 \<Rightarrow> u8 \<Rightarrow> nat" where
  "frame_len_of a b c = unat (push_bit 16 (ucast a :: u64) OR push_bit 8 (ucast b) OR ucast c)"

definition decode_frame :: "frame_decoder \<Rightarrow> u8 list option \<times> frame_decoder" where
  "decode_frame d =
     (let b = fd_buffer d in
      if length b < FRAME_LENGTH_SIZE then (None, d)
      else
        let frame_len = frame_len_of (b ! 0) (b ! 1) (b ! 2) in
        if FRAME_LENGTH_SIZE + frame_len \<le> length b then
          let b = drop FRAME_LENGTH_SIZE b
          in (Some (take frame_len b), d\<lparr>fd_buffer := drop frame_len b\<rparr>)
        else (None, d))"

definition buffered_len :: "frame_decoder \<Rightarrow> nat" where
  "buffered_len d = length (fd_buffer d)"

definition frame_decoder_clear :: "frame_decoder \<Rightarrow> frame_decoder" where
  "frame_decoder_clear d = d\<lparr>fd_buffer := []\<rparr>"

section \<open>Connection header\<close>

abbreviation MAX_EDGE_ROUTING_LEN :: nat where "MAX_EDGE_ROUTING_LEN \<equiv> 16777215"

datatype edge_routing_error = RoutingInfoTooLarge

definition WA_CONN_HEADER :: "u8 list" where
  "WA_CONN_HEADER = [87, 65, 6, 3]"

text \<open>A cast of a length to \<open>u8\<close> keeps its low eight bits.\<close>

definition build_edge_routing_preintro :: "u8 list \<Rightarrow> (edge_routing_error, u8 list) res" where
  "build_edge_routing_preintro routing_info =
     (let len = length routing_info in
      if MAX_EDGE_ROUTING_LEN < len then Inl (Err RoutingInfoTooLarge)
      else Inr ([69, 68, 0, 1] @ [of_nat (len div 2 ^ 16), of_nat (len div 2 ^ 8), of_nat len] @ routing_info))"

definition build_handshake_header :: "u8 list option \<Rightarrow> u8 list \<times> bool" where
  "build_handshake_header edge_routing_info =
     (case edge_routing_info of
        None \<Rightarrow> (WA_CONN_HEADER, False)
      | Some routing_info \<Rightarrow>
          (case build_edge_routing_preintro routing_info of
             Inr header \<Rightarrow> (header @ WA_CONN_HEADER, True)
           | Inl _ \<Rightarrow> (WA_CONN_HEADER, False)))"

section \<open>Receive loops\<close>

lemma decode_frame_shrinks:
  "decode_frame d = (Some f, d') \<Longrightarrow> length (fd_buffer d') < length (fd_buffer d)"
  by (auto simp: decode_frame_def Let_def split: if_splits)

text \<open>The inner loop of the message loop: take frames while there are complete ones.\<close>

function decode_frames :: "frame_decoder \<Rightarrow> u8 list list \<times> frame_decoder" where
  "decode_frames d =
     (case decode_frame d of
        (Some f, d') \<Rightarrow> (let (fs, d'') = decode_frames d' in (f # fs, d''))
      | (None, d') \<Rightarrow> ([], d'))"
  by pat_completeness auto
termination
  by (relation "measure (\<lambda>d. length (fd_buffer d))") (auto dest!: sym [of "(Some _, _)"] decode_frame_shrinks)

declare decode_frames.simps [simp del]

text \<open>The outer loop over the chunks the transport delivers, each with the ownership of its
  allocation.\<close>

fun receive_chunks :: "frame_decoder \<Rightarrow> (bool \<times> u8 list) list \<Rightarrow> u8 list list \<times> frame_decoder" where
  "receive_chunks d [] = ([], d)"
| "receive_chunks d ((unshared, xs) # cs) =
     (let (fs, d) = decode_frames (feed_bytes unshared d xs);
          (gs, d) = receive_chunks d cs
      in (fs @ gs, d))"

datatype transport_event = Connected | DataReceived "u8 list" | Disconnected

datatype recv_error = RecvDisconnected | RecvStreamClosed | RecvTimeout

text \<open>\<open>recv_frame\<close> of the handshake: the events that come in before the timeout, with what ends them
  if no frame is complete by then.\<close>

fun recv_frame ::
    "recv_error \<Rightarrow> transport_event list \<Rightarrow> frame_decoder \<Rightarrow>
     ((recv_error, u8 list) res \<times> transport_event list) \<times> frame_decoder" where
  "recv_frame e [] d = ((Inl (Err e), []), d)"
| "recv_frame e (Connected # evs) d = recv_frame e evs d"
| "recv_frame e (Disconnected # evs) d = ((Inl (Err RecvDisconnected), evs), d)"
| "recv_frame e (DataReceived xs # evs) d =
     (case decode_frame (feed d xs) of
        (Some f, d) \<Rightarrow> ((Inr f, evs), d)
      | (None, d) \<Rightarrow> recv_frame e evs d)"

section \<open>One frame\<close>

lemma unat_of_nat_u32: "n < 2 ^ 32 \<Longrightarrow> unat (of_nat n :: u32) = n"
  by (simp add: unat_of_nat take_bit_eq_mod)

lemma frame_len_roundtrip:
  assumes "n < FRAME_MAX_SIZE"
  shows "frame_len_of (ucast (drop_bit 16 (of_nat n :: u32))) (ucast (drop_bit 8 (of_nat n :: u32)))
    (ucast (of_nat n :: u32)) = n"
proof -
  let ?w = "of_nat n :: u32"
  have "take_bit 24 n = n" using assms by (simp add: take_bit_nat_eq_self)
  then have hi: "bit n k \<Longrightarrow> k < 24" for k by (metis bit_take_bit_iff)
  have "push_bit 16 (ucast (ucast (drop_bit 16 ?w) :: u8) :: u64) OR
      push_bit 8 (ucast (ucast (drop_bit 8 ?w) :: u8)) OR ucast (ucast ?w :: u8) = ucast ?w" (is "?l = _")
  proof (rule bit_word_eqI)
    fix k :: nat
    assume "k < LENGTH(64)"
    then consider "k < 8" | "8 \<le> k" "k < 16" | "16 \<le> k" "k < 24" | "24 \<le> k" "k < 64" by fastforce
    then show "bit ?l k \<longleftrightarrow> bit (ucast ?w :: u64) k"
      by cases (auto simp: bit_simps dest: hi)
  qed
  then have "frame_len_of (ucast (drop_bit 16 ?w)) (ucast (drop_bit 8 ?w)) (ucast ?w) = unat (ucast ?w :: u64)"
    unfolding frame_len_of_def by (rule arg_cong)
  also have "\<dots> = n"
    using assms by (simp add: unsigned_ucast_eq take_bit_nat_eq_self unat_of_nat_u32)
  finally show ?thesis .
qed


definition frame :: "u8 list \<Rightarrow> u8 list" where
  "frame p = drop 1 (u32_to_be_bytes (of_nat (length p))) @ p"

lemma encode_frame_Inr:
  "encode_frame p None = Inr f \<longleftrightarrow> length p < FRAME_MAX_SIZE \<and> f = frame p"
  by (auto simp: encode_frame_def encode_frame_into_def frame_def Let_def)

lemma decode_frame_frame [codec]:
  assumes "length p < FRAME_MAX_SIZE"
  shows "decode_frame \<lparr>fd_buffer = frame p @ x\<rparr> = (Some p, \<lparr>fd_buffer = x\<rparr>)"
proof -
  obtain a b c where abc: "drop 1 (u32_to_be_bytes (of_nat (length p))) = [a, b, c]" "frame_len_of a b c = length p"
    using frame_len_roundtrip [OF assms] by (auto simp: u32_to_be_bytes_def)
  then show ?thesis by (simp add: decode_frame_def frame_def Let_def)
qed

lemma decode_frame_more:
  assumes "decode_frame d = (Some f, d')"
  shows "decode_frame (feed d x) = (Some f, feed d' x)"
  using assms by (auto simp: decode_frame_def feed_def Let_def nth_append split: if_splits)

lemma decode_frame_None: "decode_frame d = (None, d') \<Longrightarrow> d' = d"
  by (auto simp: decode_frame_def Let_def split: if_splits)

lemma feed_bytes_feed [simp]: "feed_bytes unshared d xs = feed d xs"
  by (simp add: feed_bytes_def feed_def)

lemma feed_feed [simp]: "feed (feed d x) y = feed d (x @ y)"
  by (simp add: feed_def)

lemma feed_Nil [simp]: "feed d [] = d"
  by (simp add: feed_def)

section \<open>The stream of frames\<close>

lemma decode_frames_Some:
  "decode_frame d = (Some f, d') \<Longrightarrow> decode_frames d = apfst ((#) f) (decode_frames d')"
  by (subst decode_frames.simps) (simp add: split_def apfst_def map_prod_def Let_def)

lemma decode_frames_None: "decode_frame d = (None, d') \<Longrightarrow> decode_frames d = ([], d)"
  by (subst decode_frames.simps) (simp add: decode_frame_None)

text \<open>Feeding more after draining is draining after feeding more.\<close>

lemma decode_frames_feed:
  "decode_frames (feed d x) =
     apfst ((@) (fst (decode_frames d))) (decode_frames (feed (snd (decode_frames d)) x))"
proof (induction d rule: decode_frames.induct)
  case (1 d)
  show ?case
  proof (cases "decode_frame d")
    case (Pair r d')
    show ?thesis
    proof (cases r)
      case None
      with Pair show ?thesis by (simp add: decode_frames_None apfst_def map_prod_def split_def)
    next
      case (Some f)
      with Pair have d: "decode_frame d = (Some f, d')" by simp
      with 1 have "decode_frames (feed d' x) =
          apfst ((@) (fst (decode_frames d'))) (decode_frames (feed (snd (decode_frames d')) x))" by simp
      then show ?thesis
        by (simp add: decode_frames_Some [OF d] decode_frames_Some [OF decode_frame_more [OF d]] apfst_def map_prod_def split_def)
    qed
  qed
qed

lemma decode_frames_drained: "decode_frames (snd (decode_frames d)) = ([], snd (decode_frames d))"
proof (induction d rule: decode_frames.induct)
  case (1 d)
  obtain r d' where d: "decode_frame d = (r, d')" by (cases "decode_frame d")
  with 1 show ?case
    by (cases r) (simp_all add: decode_frames_None decode_frames_Some apfst_def map_prod_def split_def)
qed

lemma receive_chunks_stream:
  "decode_frames d = ([], d) \<Longrightarrow>
   receive_chunks d cs = decode_frames (feed d (concat (map snd cs)))"
proof (induction cs arbitrary: d)
  case (Cons c cs)
  obtain u xs where c: "c = (u, xs)" by (cases c)
  let ?r = "decode_frames (feed d xs)"
  have "receive_chunks (snd ?r) cs = decode_frames (feed (snd ?r) (concat (map snd cs)))"
    by (rule Cons.IH [OF decode_frames_drained])
  then show ?case
    using decode_frames_feed [of "feed d xs" "concat (map snd cs)"]
    by (simp add: c split_def apfst_def map_prod_def Let_def)
qed simp

lemma decode_frames_concat:
  assumes "list_all2 (\<lambda>p f. encode_frame p None = Inr f) ps fs" "decode_frame \<lparr>fd_buffer = t\<rparr> = (None, d)"
  shows "decode_frames \<lparr>fd_buffer = concat fs @ t\<rparr> = (ps, \<lparr>fd_buffer = t\<rparr>)"
  using assms
proof (induction ps fs rule: list_all2_induct)
  case (Cons p ps f fs)
  then show ?case
    by (simp add: encode_frame_Inr decode_frames_Some [OF decode_frame_frame] apfst_def map_prod_def)
qed (simp add: decode_frames_None)

lemma receive_chunks_frames:
  assumes "list_all2 (\<lambda>p f. encode_frame p None = Inr f) ps fs"
    and "fst (decode_frame \<lparr>fd_buffer = t\<rparr>) = None" and "concat (map snd cs) = concat fs @ t"
  shows "receive_chunks frame_decoder_new cs = (ps, \<lparr>fd_buffer = t\<rparr>)"
proof -
  have "decode_frame frame_decoder_new = (None, frame_decoder_new)"
    by (simp add: decode_frame_def frame_decoder_new_def)
  then have "receive_chunks frame_decoder_new cs = decode_frames (feed frame_decoder_new (concat fs @ t))"
    using receive_chunks_stream [of frame_decoder_new cs] assms(3) by (simp add: decode_frames_None)
  also have "feed frame_decoder_new (concat fs @ t) = \<lparr>fd_buffer = concat fs @ t\<rparr>"
    by (simp add: feed_def frame_decoder_new_def)
  also have "decode_frames \<dots> = (ps, \<lparr>fd_buffer = t\<rparr>)"
    using assms(2)
    by (intro decode_frames_concat [OF assms(1), where d = "snd (decode_frame \<lparr>fd_buffer = t\<rparr>)"])
      (simp add: prod_eq_iff)
  finally show ?thesis .
qed

section \<open>Properties\<close>

text \<open>C17: however the transport cuts a stream of encoded frames into chunks, the
  receive loop takes exactly the payloads that were sent, in order, and what is left in the
  decoder is the start of a frame that is not complete yet.\<close>

theorem frames_survive_chunking:
  assumes "list_all2 (\<lambda>p f. encode_frame p None = Inr f) ps fs"
    and "fst (decode_frame \<lparr>fd_buffer = t\<rparr>) = None" and "concat (map snd cs) = concat fs @ t"
  shows "receive_chunks frame_decoder_new cs = (ps, \<lparr>fd_buffer = t\<rparr>)"
  using assms by (rule receive_chunks_frames)

theorem frames_survive_chunking_witness:
  "receive_chunks frame_decoder_new [(True, [0]), (True, [0, 2, 7]), (False, [8, 0, 0, 0, 0])] =
     ([[7, 8], []], \<lparr>fd_buffer = [0]\<rparr>)"
  by (rule frames_survive_chunking [where fs = "[[0, 0, 2, 7, 8], [0, 0, 0]]"])
    (simp_all add: encode_frame_Inr frame_def u32_to_be_bytes_def decode_frame_def)

end
