(* ===== verification/Socket.thy ===== *)
theory Socket
  imports Noise Framing
begin

text \<open>The encrypted socket (src/socket/noise_socket.rs): the sender task, which owns the write counter and
  processes its jobs one after the other, and the decryption of received frames.  The transport of a
  job either takes the frame or fails.\<close>

section \<open>Sending\<close>

datatype send_error_kind = SendCrypto | SendFraming | SendTransport | SendJoin | SendChannelClosed

text \<open>The sender's state: the write counter, and every frame handed to the transport with whether the
  transport took it.\<close>

record sender =
  sd_counter :: u32
  sd_handed :: "(bool \<times> u8 list) list"

definition sender_new :: sender where
  "sender_new = \<lparr>sd_counter = 0, sd_handed = []\<rparr>"

abbreviation INLINE_ENCRYPT_THRESHOLD :: nat where "INLINE_ENCRYPT_THRESHOLD \<equiv> 16384"

definition process_send_job ::
    "noise_prims \<Rightarrow> noise_cipher \<Rightarrow> bool \<Rightarrow> u8 list \<Rightarrow> (sender, send_error_kind, unit) meth" where
  "process_send_job N write_key taken plaintext =
     bindS getS (\<lambda>s.
     let counter = sd_counter s in
     if unat counter = 2 ^ 32 - 1 then liftS (Inl (Err SendCrypto))
     else
       bindS (if length plaintext \<le> INLINE_ENCRYPT_THRESHOLD then
                bindS (liftS (mapE (\<lambda>_. SendCrypto) (encrypt_in_place_with_counter N write_key counter plaintext))) (\<lambda>enc_buf.
                liftS (mapE (\<lambda>_. SendFraming) (encode_frame_into enc_buf None)))
              else
                bindS (liftS (mapE (\<lambda>_. SendCrypto) (encrypt_with_counter N write_key counter plaintext))) (\<lambda>ciphertext.
                liftS (mapE (\<lambda>_. SendFraming) (encode_frame_into ciphertext None)))) (\<lambda>frame.
       bindS (modifyS (\<lambda>s. s\<lparr>sd_handed := sd_handed s @ [(taken, frame)]\<rparr>)) (\<lambda>_.
       bindS (if taken then returnS () else liftS (Inl (Err SendTransport))) (\<lambda>_.
       modifyS (\<lambda>s. s\<lparr>sd_counter := sd_counter s + 1\<rparr>)))))"

fun sender_task ::
    "noise_prims \<Rightarrow> noise_cipher \<Rightarrow> (bool \<times> u8 list) list \<Rightarrow> sender \<Rightarrow> (send_error_kind, unit) res list \<times> sender" where
  "sender_task N write_key [] s = ([], s)"
| "sender_task N write_key ((taken, plaintext) # jobs) s =
     (let (r, s) = process_send_job N write_key taken plaintext s;
          (rs, s) = sender_task N write_key jobs s
      in (r # rs, s))"

section \<open>Receiving\<close>

text \<open>The receiver's state is its read counter, which moves on even if the decryption fails.\<close>

definition decrypt_frame :: "noise_prims \<Rightarrow> noise_cipher \<Rightarrow> u8 list \<Rightarrow> (u32, noise_error, u8 list) meth" where
  "decrypt_frame N read_key ciphertext read_counter =
     (if unat read_counter = 2 ^ 32 - 1 then (Inl (Err CounterExhausted), read_counter)
      else (decrypt_in_place_with_counter N read_key read_counter ciphertext, read_counter + 1))"

fun decrypt_frames ::
    "noise_prims \<Rightarrow> noise_cipher \<Rightarrow> u8 list list \<Rightarrow> u32 \<Rightarrow> (noise_error, u8 list) res list \<times> u32" where
  "decrypt_frames N read_key [] c = ([], c)"
| "decrypt_frames N read_key (f # fs) c =
     (let (r, c) = decrypt_frame N read_key f c;
          (rs, c) = decrypt_frames N read_key fs c
      in (r # rs, c))"

section \<open>Frames on the wire\<close>

definition cipher_ok :: "noise_prims \<Rightarrow> u8 list \<Rightarrow> noise_cipher \<Rightarrow> bool" where
  "cipher_ok N key k \<longleftrightarrow> noise_prims_ok N \<and> length key = 32 \<and> noise_cipher_new N key = Inr k"

lemma cipher_ok_aead:
  assumes "cipher_ok N key k" "length nonce = 12"
  shows "transport_encrypt_in_place (np_aes N) k nonce aad m = Inr (seal (np_aes N) key nonce aad m)"
    "transport_decrypt_in_place (np_aes N) k nonce aad x = open_sealed (np_aes N) key nonce aad x"
  using gcm_reference [OF _ assms(2), of key "np_aes N" aad m _ x] assms(1)
  by (auto simp: cipher_ok_def noise_cipher_new_def)

definition sealed :: "noise_prims \<Rightarrow> u8 list \<Rightarrow> u32 \<Rightarrow> u8 list \<Rightarrow> u8 list" where
  "sealed N key c m = seal (np_aes N) key (generate_iv c) [] m"

lemma counter_ciphers:
  assumes "cipher_ok N key k"
  shows "encrypt_with_counter N k c m = Inr (sealed N key c m)"
    "encrypt_in_place_with_counter N k c m = Inr (sealed N key c m)"
    "decrypt_in_place_with_counter N k c (sealed N key c m) = Inr m"
    "length (sealed N key c m) = length m + 16"
proof -
  have "prims_ok (np_aes N)" using assms by (simp add: cipher_ok_def noise_prims_ok_def)
  then show "encrypt_with_counter N k c m = Inr (sealed N key c m)"
    "encrypt_in_place_with_counter N k c m = Inr (sealed N key c m)"
    "decrypt_in_place_with_counter N k c (sealed N key c m) = Inr m"
    "length (sealed N key c m) = length m + 16"
    using cipher_ok_aead [OF assms length_generate_iv]
    by (simp_all add: encrypt_with_counter_def encrypt_in_place_with_counter_def decrypt_in_place_with_counter_def
        sealed_def open_seal length_seal Let_def)
qed

text \<open>A job goes through if the transport takes its frame and the frame is not too large.\<close>

definition fits :: "u8 list \<Rightarrow> bool" where
  "fits m \<longleftrightarrow> length m + 16 < FRAME_MAX_SIZE"

lemma process_send_job_eq:
  assumes "cipher_ok N key k" "unat (sd_counter s) < 2 ^ 32 - 1"
  shows "process_send_job N k taken m s =
    (let c = sd_counter s; f = frame (sealed N key c m) in
     if \<not> fits m then (Inl (Err SendFraming), s)
     else if taken then (Inr (), s\<lparr>sd_handed := sd_handed s @ [(True, f)], sd_counter := c + 1\<rparr>)
     else (Inl (Err SendTransport), s\<lparr>sd_handed := sd_handed s @ [(False, f)]\<rparr>))"
proof -
  let ?c = "sealed N key (sd_counter s) m"
  have "encode_frame_into ?c None = Inr (frame ?c)" if "fits m"
    using that encode_frame_Inr [of ?c "frame ?c"] counter_ciphers(4) [OF assms(1)]
    by (simp add: fits_def encode_frame_def)
  moreover have "\<exists>e. encode_frame_into ?c None = Inl (Err e)" if "\<not> fits m"
    using that counter_ciphers(4) [OF assms(1)] by (simp add: fits_def encode_frame_into_def Let_def)
  ultimately show ?thesis
    using assms(2) counter_ciphers [OF assms(1)]
    by (cases "fits m") (auto simp: process_send_job_def Let_def)
qed


section \<open>Runs\<close>

definition goes_through :: "bool \<times> u8 list \<Rightarrow> bool" where
  "goes_through j \<longleftrightarrow> fst j \<and> fits (snd j)"

definition delivered :: "(bool \<times> u8 list) list \<Rightarrow> u8 list list" where
  "delivered jobs = map snd (filter goes_through jobs)"

definition wire :: "sender \<Rightarrow> u8 list list" where
  "wire s = map snd (filter fst (sd_handed s))"

fun sealed_from :: "noise_prims \<Rightarrow> u8 list \<Rightarrow> u32 \<Rightarrow> u8 list list \<Rightarrow> u8 list list" where
  "sealed_from N key c [] = []"
| "sealed_from N key c (m # ms) = sealed N key c m # sealed_from N key (c + 1) ms"

lemma unat_Suc_u32: "unat (c :: u32) < 2 ^ 32 - 1 \<Longrightarrow> unat (c + 1) = Suc (unat c)"
  by (simp add: unat_word_ariths)

definition answer :: "bool \<times> u8 list \<Rightarrow> (send_error_kind, unit) res" where
  "answer j =
     (if \<not> fits (snd j) then Inl (Err SendFraming) else if fst j then Inr () else Inl (Err SendTransport))"

lemma length_delivered: "length (delivered jobs) \<le> length jobs"
  by (simp add: delivered_def)

lemma sender_task_run:
  assumes "cipher_ok N key k" "unat (sd_counter s) + length jobs < 2 ^ 32"
  shows "fst (sender_task N k jobs s) = map answer jobs \<and>
    wire (snd (sender_task N k jobs s)) = wire s @ map frame (sealed_from N key (sd_counter s) (delivered jobs))"
  using assms(2)
proof (induction jobs arbitrary: s)
  case (Cons j jobs)
  obtain t m where j: "j = (t, m)" by (cases j)
  have c: "unat (sd_counter s) < 2 ^ 32 - 1" using Cons.prems by simp
  note e = process_send_job_eq [OF assms(1) c, of t m]
  let ?s = "snd (process_send_job N k t m s)"
  have "unat (sd_counter ?s) + length jobs < 2 ^ 32"
    using e Cons.prems unat_Suc_u32 [OF c] by (simp add: Let_def)
  note IH = Cons.IH [OF this]
  have w: "wire ?s = wire s @ (if goes_through j then [frame (sealed N key (sd_counter s) m)] else [])"
    and n: "sd_counter ?s = (if goes_through j then sd_counter s + 1 else sd_counter s)"
    and r: "fst (process_send_job N k t m s) = answer j"
    by (auto simp: e j goes_through_def wire_def answer_def Let_def)
  have st: "sender_task N k (j # jobs) s =
      (fst (process_send_job N k t m s) # fst (sender_task N k jobs ?s), snd (sender_task N k jobs ?s))"
    by (simp add: j split_def Let_def)
  show ?case
    unfolding st using IH w n r by (simp add: delivered_def j)
qed (simp add: delivered_def)

lemma decrypt_frames_run:
  assumes "cipher_ok N key k" "unat c + length ms < 2 ^ 32"
  shows "fst (decrypt_frames N k (sealed_from N key c ms) c) = map Inr ms"
  using assms(2)
proof (induction ms arbitrary: c)
  case (Cons m ms)
  then have c: "unat c < 2 ^ 32 - 1" by simp
  from Cons unat_Suc_u32 [OF c] have "fst (decrypt_frames N k (sealed_from N key (c + 1) ms) (c + 1)) = map Inr ms"
    by simp
  with c show ?case
    by (simp add: decrypt_frame_def counter_ciphers [OF assms(1)] split_def)
qed simp

lemma delivered_fits: "m \<in> set (delivered jobs) \<Longrightarrow> fits m"
  by (auto simp: delivered_def goes_through_def)

lemma encode_sealed_from:
  assumes "cipher_ok N key k" "\<forall>m \<in> set ms. fits m"
  shows "list_all2 (\<lambda>p f. encode_frame p None = Inr f) (sealed_from N key c ms) (map frame (sealed_from N key c ms))"
  using assms(2) counter_ciphers(4) [OF assms(1)]
  by (induction ms arbitrary: c) (auto simp: encode_frame_Inr fits_def)

lemma socket_run:
  assumes "cipher_ok N key k" and "length jobs < 2 ^ 32"
    and "sender_task N k jobs sender_new = (rs, s)"
    and "concat (map snd chunks) = concat (wire s)"
  shows "rs = map answer jobs \<and>
    (\<exists>fs c. receive_chunks frame_decoder_new chunks = (fs, frame_decoder_new) \<and>
       decrypt_frames N k fs 0 = (map Inr (delivered jobs), c))"
proof -
  let ?ms = "delivered jobs"
  have c0: "unat (sd_counter sender_new) + length jobs < 2 ^ 32" using assms(2) by (simp add: sender_new_def)
  note run = sender_task_run [OF assms(1) c0, unfolded assms(3)]
  have w: "wire s = map frame (sealed_from N key 0 ?ms)"
    using run by (simp add: wire_def sender_new_def)
  have "receive_chunks frame_decoder_new chunks = (sealed_from N key 0 ?ms, \<lparr>fd_buffer = []\<rparr>)"
    using encode_sealed_from [OF assms(1), of ?ms 0] assms(4) w
    by (intro receive_chunks_frames) (auto simp: decode_frame_def dest: delivered_fits)
  moreover have "fst (decrypt_frames N k (sealed_from N key 0 ?ms) 0) = map Inr ?ms"
    using length_delivered [of jobs] assms(2) by (intro decrypt_frames_run [OF assms(1)]) simp
  ultimately show ?thesis
    using run by (auto simp: frame_decoder_new_def intro!: exI prod_eqI)
qed

section \<open>Properties\<close>

text \<open>C16: whatever the transport does with single frames and however it cuts the
  stream, the peer with the same key decrypts exactly the messages whose frames the transport took,
  in the order of the jobs, and each job is answered with what happened to it.\<close>

theorem socket_delivers_in_order:
  assumes "cipher_ok N key k" and "length jobs < 2 ^ 32"
    and "sender_task N k jobs sender_new = (rs, s)"
    and "concat (map snd chunks) = concat (wire s)"
  shows "rs = map answer jobs \<and>
    (\<exists>fs c. receive_chunks frame_decoder_new chunks = (fs, frame_decoder_new) \<and>
       decrypt_frames N k fs 0 = (map Inr (delivered jobs), c))"
  using assms by (rule socket_run)


lemma sample_cipher: "\<exists>k. cipher_ok sample_noise (replicate 32 1) k"
  using sample_noise_ok
  by (simp add: cipher_ok_def noise_cipher_new_def transport_aead_def gcm_key_new_def aes256_new_def Let_def)

theorem socket_delivers_in_order_witness:
  "\<exists>k rs s fs c. sender_task sample_noise k [(True, [1, 2]), (False, [3]), (True, [4])] sender_new = (rs, s) \<and>
     receive_chunks frame_decoder_new [(True, concat (wire s))] = (fs, frame_decoder_new) \<and>
     decrypt_frames sample_noise k fs 0 = ([Inr [1, 2], Inr [4]], c)"
proof -
  obtain k where k: "cipher_ok sample_noise (replicate 32 1) k" using sample_cipher ..
  let ?jobs = "[(True, [1, 2]), (False, [3]), (True, [4])] :: (bool \<times> u8 list) list"
  obtain rs s where s: "sender_task sample_noise k ?jobs sender_new = (rs, s)"
    by (cases "sender_task sample_noise k ?jobs sender_new") auto
  have d: "map Inr (delivered ?jobs) = [Inr [1, 2], Inr [4]]"
    by (simp add: delivered_def goes_through_def fits_def)
  obtain fs c where "receive_chunks frame_decoder_new [(True, concat (wire s))] = (fs, frame_decoder_new)"
      "decrypt_frames sample_noise k fs 0 = ([Inr [1, 2], Inr [4]], c)"
    using socket_delivers_in_order [OF k _ s, of "[(True, concat (wire s))]"] unfolding d by auto
  with s show ?thesis by blast
qed

text \<open>The key stream of a counter cancels out.\<close>

lemma xor_bytes_cancel:
  "length xs = n \<Longrightarrow> length ys = n \<Longrightarrow> length ks = n \<Longrightarrow> xor_bytes (xor_bytes xs ks) (xor_bytes ys ks) = xor_bytes xs ys"
  by (rule nth_equalityI) (auto simp: xor_bytes_def xor.assoc xor.commute xor.left_commute)

lemma xor_bytes_take: "take n (xor_bytes xs ys) = xor_bytes (take n xs) (take n ys)"
  by (simp add: xor_bytes_def take_map take_zip)

lemma take_sealed:
  assumes "n \<le> length m"
  shows "take n (sealed N key c m) =
    xor_bytes (take n m) (keystream (np_aes N) (gcm_stream key (generate_iv c) 32) n)"
  using assms by (simp add: sealed_def seal_def Let_def gcm_crypt_def xor_bytes_take keystream_def take_map)

text \<open>C36: after a send that the transport failed, the next message is encrypted
  under the same counter, so the two ciphertexts handed to the transport combine to the combination of
  the two plaintexts.\<close>

theorem failed_send_reuses_nonce:
  assumes "cipher_ok N key k" and "unat (sd_counter s) < 2 ^ 32 - 1" and "fits m" and "fits m'"
    and "process_send_job N k False m s = (r, s')" and "process_send_job N k taken m' s' = (r', s'')"
    and "n \<le> length m" and "n \<le> length m'"
  shows "\<exists>c c'. sd_handed s'' = sd_handed s @ [(False, frame c), (taken, frame c')] \<and>
    xor_bytes (take n c) (take n c') = xor_bytes (take n m) (take n m')"
proof -
  let ?c = "sealed N key (sd_counter s)"
  have s': "s' = s\<lparr>sd_handed := sd_handed s @ [(False, frame (?c m))]\<rparr>"
    using process_send_job_eq [OF assms(1,2), of False m] assms(3,5) by (simp add: Let_def)
  with process_send_job_eq [OF assms(1), of s' taken m'] assms(2,4,6)
  have "sd_handed s'' = sd_handed s @ [(False, frame (?c m)), (taken, frame (?c m'))]"
    by (auto simp: Let_def split: if_splits)
  moreover have "xor_bytes (take n (?c m)) (take n (?c m')) = xor_bytes (take n m) (take n m')"
    unfolding take_sealed [OF assms(7)] take_sealed [OF assms(8)]
    using assms(7,8) by (intro xor_bytes_cancel) auto
  ultimately show ?thesis by blast
qed

theorem failed_send_reuses_nonce_witness:
  "\<exists>k s' s'' c c'. process_send_job sample_noise k False [1, 2] sender_new = (Inl (Err SendTransport), s') \<and>
     process_send_job sample_noise k True [4, 7] s' = (Inr (), s'') \<and>
     sd_handed s'' = [(False, frame c), (True, frame c')] \<and>
     xor_bytes (take 2 c) (take 2 c') = [5, 5]"
proof -
  obtain k where k: "cipher_ok sample_noise (replicate 32 1) k" using sample_cipher ..
  have f: "fits [1, 2]" "fits [4, 7]" by (simp_all add: fits_def)
  have c: "unat (sd_counter sender_new) < 2 ^ 32 - 1" by (simp add: sender_new_def)
  obtain r s' where 1: "process_send_job sample_noise k False [1, 2] sender_new = (r, s')" by fastforce
  then have r: "r = Inl (Err SendTransport)" and c': "unat (sd_counter s') < 2 ^ 32 - 1"
    using process_send_job_eq [OF k c, of False "[1, 2]"] f c by (auto simp: Let_def)
  obtain r' s'' where 2: "process_send_job sample_noise k True [4, 7] s' = (r', s'')" by fastforce
  then have r': "r' = Inr ()" using process_send_job_eq [OF k c', of True "[4, 7]"] f by (simp add: Let_def)
  have x: "xor_bytes (take 2 [1, 2]) (take 2 [4, 7]) = [5, 5]" by (simp add: xor_bytes_def)
  obtain c c' where "sd_handed s'' = [(False, frame c), (True, frame c')]" "xor_bytes (take 2 c) (take 2 c') = [5, 5]"
    using failed_send_reuses_nonce [OF k c f 1 2, of 2] unfolding x by (auto simp: sender_new_def)
  with 1 2 r r' show ?thesis by blast
qed

end
