(* ===== verification/Link.thy ===== *)
theory Link
  imports Socket Roundtrip
begin

text \<open>The whole path of a stanza: \<open>send_node\<close> (src/client/messaging.rs) marshals it and hands it to the
  encrypted socket, the message loop (src/client/node_io.rs) takes frames, decrypts them, strips the
  format byte, inflates if the byte says so (wacore/binary/src/util.rs) and decodes the node.
  Decompression is a parameter.\<close>

section \<open>Unpacking\<close>

definition unpack :: "(u8 list \<Rightarrow> u8 list bres) \<Rightarrow> u8 list \<Rightarrow> u8 list bres" where
  "unpack decompress_zlib data =
     (case data of
        [] \<Rightarrow> Inl (Err EmptyData)
      | data_type # data \<Rightarrow> if 0 < data_type AND 2 then decompress_zlib data else Inr data)"

definition unpack_bytes :: "(u8 list \<Rightarrow> u8 list bres) \<Rightarrow> u8 list \<Rightarrow> u8 list bres" where
  "unpack_bytes decompress_zlib data =
     (if data = [] then Inl (Err EmptyData)
      else
        let data_type = data ! 0 in
        if 0 < data_type AND 2 then decompress_zlib (drop 1 data) else Inr (drop 1 data))"

section \<open>Receiving a stanza\<close>

text \<open>An error at any stage is logged and the frame dropped; a panic is a panic.\<close>

definition or_none :: "('e, 'a) res \<Rightarrow> ('a \<Rightarrow> (unit, 'b option) res) \<Rightarrow> (unit, 'b option) res" where
  "or_none r f = (case r of Inr x \<Rightarrow> f x | Inl (Err _) \<Rightarrow> Inr None | Inl Panic \<Rightarrow> Inl Panic | Inl OutOfFuel \<Rightarrow> Inl OutOfFuel)"

definition client_decrypt_frame ::
    "dec_env \<Rightarrow> (u8 list \<Rightarrow> u8 list bres) \<Rightarrow> noise_prims \<Rightarrow> noise_cipher \<Rightarrow> u8 list \<Rightarrow> u32 \<Rightarrow>
     (unit, str node option) res \<times> u32" where
  "client_decrypt_frame en decompress_zlib N read_key encrypted_frame c =
     (let (r, c) = decrypt_frame N read_key encrypted_frame c
      in (or_none r (\<lambda>decrypted_payload.
          or_none (unpack_bytes decompress_zlib decrypted_payload) (\<lambda>buffer.
          or_none (unmarshal_ref en buffer) (\<lambda>node. Inr (Some node)))), c))"

fun client_decrypt_frames ::
    "dec_env \<Rightarrow> (u8 list \<Rightarrow> u8 list bres) \<Rightarrow> noise_prims \<Rightarrow> noise_cipher \<Rightarrow> u8 list list \<Rightarrow> u32 \<Rightarrow>
     (unit, str node option) res list \<times> u32" where
  "client_decrypt_frames en z N k [] c = ([], c)"
| "client_decrypt_frames en z N k (f # fs) c =
     (let (r, c) = client_decrypt_frame en z N k f c;
          (rs, c) = client_decrypt_frames en z N k fs c
      in (r # rs, c))"

lemma unpack_bytes_unpack: "unpack_bytes z data = unpack z data"
  by (cases data) (simp_all add: unpack_bytes_def unpack_def Let_def)

text \<open>What the client makes of a decrypted payload.\<close>

definition stanza_of :: "dec_env \<Rightarrow> (u8 list \<Rightarrow> u8 list bres) \<Rightarrow> (noise_error, u8 list) res \<Rightarrow> (unit, str node option) res" where
  "stanza_of en z r = or_none r (\<lambda>p. or_none (unpack z p) (\<lambda>b. or_none (unmarshal_ref en b) (\<lambda>n. Inr (Some n))))"

lemma client_decrypt_frames_eq:
  "fst (client_decrypt_frames en z N k fs c) = map (stanza_of en z) (fst (decrypt_frames N k fs c))"
  by (induction fs arbitrary: c)
    (simp_all add: client_decrypt_frame_def stanza_of_def unpack_bytes_unpack split_def Let_def)

lemma stanza_of_marshal:
  assumes "ctx_ok cx" "env_ok en" "de_tables en = cx_tables cx"
    "node_decodable (cx_tables cx) (node_text cx n)" "marshal_auto cx n = Inr p"
  shows "stanza_of en z (Inr p) = Inr (Some (norm_node (cx_tables cx) (de_itoa en) (node_text cx n)))"
proof -
  have ok: "node_ok cx n" using assms(4) by (auto simp: node_ok_text node_decodable_def list_all_iff)
  have m: "marshal cx n = Inr p"
    using assms(5) by (simp add: marshal_auto_def marshal_with_capacity_def marshal_def split: if_splits)
  from unmarshal_marshal [OF assms(1-4) m]
  have "hd p = 0" "unmarshal_ref en (tl p) = Inr (norm_node (cx_tables cx) (de_itoa en) (node_text cx n))" by auto
  moreover have "p \<noteq> []" using marshal_wire [OF assms(1) ok] m
    by (cases "node_bytes (cx_tables cx) (node_text cx n)") auto
  ultimately show ?thesis by (cases p) (simp_all add: stanza_of_def or_none_def unpack_def)
qed

section \<open>Properties\<close>

text \<open>C1: fewer than \<open>2\<^sup>3\<^sup>2\<close> stanzas, each decodable (in every string that the encoder takes for a JID a
  known server follows the \<open>@\<close>, and lengths are below \<open>2\<^sup>3\<^sup>2\<close>) and small enough for a frame, that are marshalled, encrypted,
  framed and sent over any chunking of the stream arrive at a client with the same key in order, each one as the
  wire normal form of the sent stanza; none is lost and none is taken for compressed data.\<close>

theorem link_delivers_stanzas:
  assumes "ctx_ok cx" and "env_ok en" and "de_tables en = cx_tables cx" and "cipher_ok N key k"
    and "list_all (\<lambda>n. node_decodable (cx_tables cx) (node_text cx n)) ns"
    and "list_all2 (\<lambda>n p. marshal_auto cx n = Inr p \<and> fits p) ns ps" and "length ns < 2 ^ 32"
    and "sender_task N k (map (Pair True) ps) sender_new = (rs, s)"
    and "concat (map snd chunks) = concat (wire s)"
  shows "rs = replicate (length ns) (Inr ()) \<and>
    (\<exists>fs c. receive_chunks frame_decoder_new chunks = (fs, frame_decoder_new) \<and>
       client_decrypt_frames en z N k fs 0 =
         (map (\<lambda>n. Inr (Some (norm_node (cx_tables cx) (de_itoa en) (node_text cx n)))) ns, c))"
proof -
  have len: "length ps = length ns" using assms(6) by (simp add: list_all2_lengthD)
  have fit: "list_all fits ps" using assms(6) by (induction rule: list_all2_induct) auto
  then have "delivered (map (Pair True) ps) = ps" "map answer (map (Pair True) ps) = replicate (length ps) (Inr ())"
    by (induction ps) (auto simp: delivered_def goes_through_def answer_def)
  with len obtain fs c where rs: "rs = replicate (length ns) (Inr ())"
    and fs: "receive_chunks frame_decoder_new chunks = (fs, frame_decoder_new)" "decrypt_frames N k fs 0 = (map Inr ps, c)"
    using socket_run [OF assms(4) _ assms(8,9)] assms(7) by auto
  have "map (stanza_of en z) (map Inr ps) =
      map (\<lambda>n. Inr (Some (norm_node (cx_tables cx) (de_itoa en) (node_text cx n)))) ns"
    using assms(6,5) stanza_of_marshal [OF assms(1-3)]
    by (induction rule: list_all2_induct) auto
  then have "fst (client_decrypt_frames en z N k fs 0) =
      map (\<lambda>n. Inr (Some (norm_node (cx_tables cx) (de_itoa en) (node_text cx n)))) ns"
    using client_decrypt_frames_eq [of en z N k fs 0] fs(2) by simp
  then show ?thesis
    using rs fs(1) by (metis prod.collapse)
qed

theorem link_delivers_stanzas_witness:
  "\<exists>k rs s fs c. sender_task sample_noise k [(True, [0, 248, 4, 2, 3, 247, 1, 3, 255, 1, 0x12, 252, 3, 1, 2, 3])] sender_new = (rs, s) \<and>
     receive_chunks frame_decoder_new [(True, concat (wire s))] = (fs, frame_decoder_new) \<and>
     client_decrypt_frames sample_env (\<lambda>_. Inl (Err EmptyData)) sample_noise k fs 0 =
       ([Inr (Some (norm_node sample_tables decimal (node_text sample_ctx sample_node)))], c)"
proof -
  let ?p = "[0, 248, 4, 2, 3, 247, 1, 3, 255, 1, 0x12, 252, 3, 1, 2, 3] :: u8 list"
  obtain k where k: "cipher_ok sample_noise (replicate 32 1) k" using sample_cipher ..
  obtain rs s where s: "sender_task sample_noise k (map (Pair True) [?p]) sender_new = (rs, s)"
    by (cases "sender_task sample_noise k (map (Pair True) [?p]) sender_new") auto
  have m: "marshal_auto sample_ctx sample_node = Inr ?p"
    using marshal_wire [OF sample_ctx_ok sample_node_ok] sample_node_wire
    by (simp add: marshal_auto_def marshal_with_capacity_def marshal_def split: if_splits)
  have e: "de_tables sample_env = cx_tables sample_ctx" "cx_tables sample_ctx = sample_tables" "de_itoa sample_env = decimal"
    by (simp_all add: sample_env_def sample_ctx_def)
  obtain fs c where "receive_chunks frame_decoder_new [(True, concat (wire s))] = (fs, frame_decoder_new)"
    "client_decrypt_frames sample_env (\<lambda>_. Inl (Err EmptyData)) sample_noise k fs 0 =
       ([Inr (Some (norm_node sample_tables decimal (node_text sample_ctx sample_node)))], c)"
    using link_delivers_stanzas [OF sample_ctx_ok sample_env_ok e(1) k, of "[sample_node]" "[?p]" rs s "[(True, concat (wire s))]" "\<lambda>_. Inl (Err EmptyData)"]
      sample_node_decodable m s unfolding e by (auto simp: fits_def)
  with s show ?thesis by (simp only: list.map) blast
qed

end
