(* ===== verification/Curve.thy ===== *)
theory Curve
  imports Prelude
begin

text \<open>Key types of wacore/libsignal/src/core/curve.rs: encoding and decoding of public and private keys and
  key agreement.  The curve arithmetic comes from the dalek crates; it is a record of functions.\<close>

text \<open>\<open>clamp\<close> is \<open>clamp_integer\<close>, \<open>x25519\<close> the agreement of a private scalar and a public point,
  \<open>x25519_base\<close> the public point of a scalar, \<open>xeddsa_verify\<close> the verification equation of a 64-byte
  signature.\<close>

record curve_prims =
  clamp :: "u8 list \<Rightarrow> u8 list"
  x25519 :: "u8 list \<Rightarrow> u8 list \<Rightarrow> u8 list"
  x25519_base :: "u8 list \<Rightarrow> u8 list"
  xeddsa_verify :: "u8 list \<Rightarrow> u8 list \<Rightarrow> u8 list \<Rightarrow> bool"

definition curve_prims_ok :: "curve_prims \<Rightarrow> bool" where
  "curve_prims_ok C \<longleftrightarrow>
     (\<forall>a. length a = 32 \<longrightarrow> length (clamp C a) = 32 \<and> clamp C (clamp C a) = clamp C a) \<and>
     (\<forall>a. length (x25519_base C a) = 32) \<and> (\<forall>a A. length (x25519 C a A) = 32) \<and>
     (\<forall>a b. x25519 C (clamp C a) (x25519_base C (clamp C b)) = x25519 C (clamp C b) (x25519_base C (clamp C a)))"

datatype key_type = Djb

definition key_type_value :: "key_type \<Rightarrow> u8" where
  "key_type_value t = (case t of Djb \<Rightarrow> 0x05)"

datatype curve_error = NoKeyTypeIdentifier | BadKeyType u8 | BadKeyLength key_type nat

definition key_type_try_from :: "u8 \<Rightarrow> (curve_error, key_type) res" where
  "key_type_try_from x = (if x = 0x05 then Inr Djb else Inl (Err (BadKeyType x)))"

datatype public_key = DjbPublicKey "u8 list"

definition public_key_bytes :: "public_key \<Rightarrow> u8 list" where
  "public_key_bytes k = (case k of DjbPublicKey v \<Rightarrow> v)"

definition public_key_deserialize :: "u8 list \<Rightarrow> (curve_error, public_key) res" where
  "public_key_deserialize value =
     (case value of
        [] \<Rightarrow> Inl (Err NoKeyTypeIdentifier)
      | t # rest \<Rightarrow>
          bindR (key_type_try_from t) (\<lambda>kt.
          case kt of
            Djb \<Rightarrow>
              if length value < 33 then Inl (Err (BadKeyLength Djb (length value)))
              else Inr (DjbPublicKey (take 32 (drop 1 value)))))"

definition from_djb_public_key_bytes :: "u8 list \<Rightarrow> (curve_error, public_key) res" where
  "from_djb_public_key_bytes bytes =
     (if length bytes = 32 then Inr (DjbPublicKey bytes) else Inl (Err (BadKeyLength Djb (length bytes))))"

definition public_key_type :: "public_key \<Rightarrow> key_type" where
  "public_key_type k = (case k of DjbPublicKey _ \<Rightarrow> Djb)"

definition public_key_serialize :: "public_key \<Rightarrow> u8 list" where
  "public_key_serialize k = key_type_value (public_key_type k) # (case k of DjbPublicKey v \<Rightarrow> v)"

definition verify_signature :: "curve_prims \<Rightarrow> public_key \<Rightarrow> u8 list \<Rightarrow> u8 list \<Rightarrow> bool" where
  "verify_signature C k message signature =
     (case k of DjbPublicKey pub_key \<Rightarrow> length signature = 64 \<and> xeddsa_verify C pub_key message signature)"

datatype private_key = DjbPrivateKey "u8 list"

definition private_key_deserialize :: "curve_prims \<Rightarrow> u8 list \<Rightarrow> (curve_error, private_key) res" where
  "private_key_deserialize C value =
     (if length value \<noteq> 32 then Inl (Err (BadKeyLength Djb (length value)))
      else Inr (DjbPrivateKey (clamp C value)))"

definition private_key_serialize :: "private_key \<Rightarrow> u8 list" where
  "private_key_serialize k = (case k of DjbPrivateKey key \<Rightarrow> key)"

definition private_key_public_key :: "curve_prims \<Rightarrow> private_key \<Rightarrow> public_key" where
  "private_key_public_key C k = (case k of DjbPrivateKey key \<Rightarrow> DjbPublicKey (x25519_base C (clamp C key)))"

definition calculate_agreement :: "curve_prims \<Rightarrow> private_key \<Rightarrow> public_key \<Rightarrow> u8 list" where
  "calculate_agreement C k their_key =
     (case (k, their_key) of (DjbPrivateKey key, DjbPublicKey pub_key) \<Rightarrow> x25519 C (clamp C key) pub_key)"

record key_pair =
  kp_public :: public_key
  kp_private :: private_key

text \<open>\<open>generate\<close> on the 32 bytes the random generator supplies.\<close>

definition key_pair_generate :: "curve_prims \<Rightarrow> u8 list \<Rightarrow> key_pair" where
  "key_pair_generate C rnd =
     (let key = clamp C rnd
      in \<lparr>kp_public = DjbPublicKey (x25519_base C key), kp_private = DjbPrivateKey key\<rparr>)"

definition from_public_and_private :: "curve_prims \<Rightarrow> u8 list \<Rightarrow> u8 list \<Rightarrow> (curve_error, key_pair) res" where
  "from_public_and_private C public_key private_key =
     bindR (public_key_deserialize public_key) (\<lambda>public_key.
     bindR (private_key_deserialize C private_key) (\<lambda>private_key.
     Inr \<lparr>kp_public = public_key, kp_private = private_key\<rparr>))"

definition key_pair_try_from :: "curve_prims \<Rightarrow> private_key \<Rightarrow> key_pair" where
  "key_pair_try_from C k = \<lparr>kp_public = private_key_public_key C k, kp_private = k\<rparr>"

section \<open>Key pairs of the two sides agree\<close>

text \<open>A private key in clamped form with the public key that belongs to it.\<close>

definition key_pair_ok :: "curve_prims \<Rightarrow> key_pair \<Rightarrow> bool" where
  "key_pair_ok C kp \<longleftrightarrow>
     (\<exists>k. length k = 32 \<and> clamp C k = k \<and> kp_private kp = DjbPrivateKey k \<and> kp_public kp = DjbPublicKey (x25519_base C k))"

lemma key_pair_generate_ok: "curve_prims_ok C \<Longrightarrow> length rnd = 32 \<Longrightarrow> key_pair_ok C (key_pair_generate C rnd)"
  by (auto simp: key_pair_ok_def key_pair_generate_def curve_prims_ok_def Let_def)

text \<open>The shared secret from the serialized private and public keys, as the handshake computes it.\<close>

definition shared_secret :: "curve_prims \<Rightarrow> key_pair \<Rightarrow> key_pair \<Rightarrow> u8 list" where
  "shared_secret C a b =
     calculate_agreement C (kp_private a) (kp_public b)"

lemma shared_secret_commute: "curve_prims_ok C \<Longrightarrow> key_pair_ok C a \<Longrightarrow> key_pair_ok C b \<Longrightarrow> shared_secret C a b = shared_secret C b a"
  unfolding key_pair_ok_def curve_prims_ok_def
  by (auto simp: shared_secret_def calculate_agreement_def) metis

lemma length_public_key_bytes: "curve_prims_ok C \<Longrightarrow> key_pair_ok C a \<Longrightarrow> length (public_key_bytes (kp_public a)) = 32"
  by (auto simp: key_pair_ok_def public_key_bytes_def curve_prims_ok_def)

lemma private_key_reserialize:
  "key_pair_ok C a \<Longrightarrow> private_key_deserialize C (private_key_serialize (kp_private a)) = Inr (kp_private a)"
  by (auto simp: key_pair_ok_def private_key_deserialize_def private_key_serialize_def)

lemma public_key_rebuild:
  "curve_prims_ok C \<Longrightarrow> key_pair_ok C a \<Longrightarrow> from_djb_public_key_bytes (public_key_bytes (kp_public a)) = Inr (kp_public a)"
  by (auto simp: key_pair_ok_def public_key_bytes_def from_djb_public_key_bytes_def curve_prims_ok_def)

section \<open>Properties\<close>

definition sample_curve :: curve_prims where
  "sample_curve =
     \<lparr>clamp = (\<lambda>x. x), x25519 = (\<lambda>a b. map2 (+) (take 32 (a @ replicate 32 0)) (take 32 (b @ replicate 32 0))),
      x25519_base = (\<lambda>a. take 32 (a @ replicate 32 0)), xeddsa_verify = (\<lambda>_ _ _. True)\<rparr>"

lemma map2_plus_commute: "map2 (+) (xs :: u8 list) ys = map2 (+) ys xs"
  by (induction xs ys rule: list_induct2') (auto simp: add.commute)

lemma sample_curve_ok: "curve_prims_ok sample_curve"
  by (auto simp: curve_prims_ok_def sample_curve_def map2_plus_commute min_def)

text \<open>A public key survives its 33-byte encoding, a generated key pair survives
  the encoding of both halves and rederiving the public half, and two generated pairs agree on their
  shared secret.\<close>

theorem key_encodings_roundtrip:
  assumes "curve_prims_ok C" and "length r = 32" and "length r' = 32"
    and "a = key_pair_generate C r" and "b = key_pair_generate C r'"
  shows "length (public_key_serialize (kp_public a)) = 33 \<and>
    from_public_and_private C (public_key_serialize (kp_public a)) (private_key_serialize (kp_private a)) = Inr a \<and>
    key_pair_try_from C (kp_private a) = a \<and>
    calculate_agreement C (kp_private a) (kp_public b) = calculate_agreement C (kp_private b) (kp_public a)"
  using assms shared_secret_commute [OF assms(1), of a b] key_pair_generate_ok [OF assms(1)]
  by (auto simp: key_pair_generate_def Let_def public_key_serialize_def public_key_type_def key_type_value_def
      from_public_and_private_def public_key_deserialize_def key_type_try_from_def private_key_deserialize_def
      private_key_serialize_def key_pair_try_from_def private_key_public_key_def shared_secret_def curve_prims_ok_def)

end
