(* ===== verification/Handshake.thy ===== *)
theory Handshake
  imports Noise Curve
begin

text \<open>The handshakes of wacore/noise/src/handshake.rs: the XX pattern for a first connection, IK with a
  cached server key and the fall back from IK to XX, with the verification of the server's
  certificate chain.  Protobuf coding and the curve arithmetic are parameters.  The responder used
  in the agreement theorems follows the Noise patterns.\<close>

section \<open>Messages and errors\<close>

record client_hello =
  ch_ephemeral :: "u8 list option"
  ch_static :: "u8 list option"
  ch_payload :: "u8 list option"

record server_hello =
  sh_ephemeral :: "u8 list option"
  sh_static :: "u8 list option"
  sh_payload :: "u8 list option"

record client_finish =
  cf_static :: "u8 list option"
  cf_payload :: "u8 list option"

record handshake_message =
  hm_client_hello :: "client_hello option"
  hm_server_hello :: "server_hello option"
  hm_client_finish :: "client_finish option"

record noise_certificate =
  nc_details :: "u8 list option"
  nc_signature :: "u8 list option"

record cert_details =
  cd_serial :: "u32 option"
  cd_issuer_serial :: "u32 option"
  cd_key :: "u8 list option"
  cd_not_before :: "u64 option"
  cd_not_after :: "u64 option"

record cert_chain =
  cc_leaf :: "noise_certificate option"
  cc_intermediate :: "noise_certificate option"

text \<open>A formatted message that quotes another error is its prefix and that error.\<close>

datatype handshake_error =
    Proto | ProtoDecode | IncompleteResponse | HsCrypto curve_error | CertVerification str
  | CertVerificationOf str handshake_error | InvalidLength str nat nat | InvalidKeyLength
  | HsNoise noise_error

text \<open>The parameters: primitives, protobuf coding, and whether the build skips signature checks.\<close>

record hs_env =
  hs_noise :: noise_prims
  hs_curve :: curve_prims
  hm_encode :: "handshake_message \<Rightarrow> u8 list"
  hm_decode :: "u8 list \<Rightarrow> handshake_message option"
  cert_chain_decode :: "u8 list \<Rightarrow> cert_chain option"
  details_decode :: "u8 list \<Rightarrow> cert_details option"
  skip_cert_verify :: bool

definition hs_env_ok :: "hs_env \<Rightarrow> bool" where
  "hs_env_ok E \<longleftrightarrow>
     noise_prims_ok (hs_noise E) \<and> curve_prims_ok (hs_curve E) \<and> (\<forall>m. hm_decode E (hm_encode E m) = Some m)"

type_synonym 'a hres = "(handshake_error, 'a) res"

section \<open>Certificate chain\<close>

definition WA_CERT_ISSUER_SERIAL :: int where
  "WA_CERT_ISSUER_SERIAL = 0"

definition WA_CERT_PUB_KEY :: "u8 list" where
  "WA_CERT_PUB_KEY =
     [0x14, 0x23, 0x75, 0x57, 0x4d, 0x0a, 0x58, 0x71, 0x66, 0xaa, 0xe7, 0x1e, 0xbe, 0x51, 0x64, 0x37,
      0xc4, 0xa2, 0x8b, 0x73, 0xe3, 0x69, 0x5c, 0x6c, 0xe1, 0xf7, 0xf9, 0x54, 0x5d, 0xa8, 0xee, 0x6b]"

definition verify_cert_step :: "hs_env \<Rightarrow> u8 list \<Rightarrow> u8 list \<Rightarrow> u8 list option \<Rightarrow> str \<Rightarrow> unit hres" where
  "verify_cert_step E issuer_key details signature label =
     (if skip_cert_verify E then Inr ()
      else
        bindR (ok_or signature (CertVerification (lit ''Missing '' @ label @ lit '' signature''))) (\<lambda>signature.
        bindR (mapE (\<lambda>_. CertVerification (lit ''Invalid '' @ label @ lit '' issuer key (not Djb/Curve25519)''))
                (from_djb_public_key_bytes issuer_key)) (\<lambda>pk.
        if verify_signature (hs_curve E) pk details signature then Inr ()
        else Inl (Err (CertVerification (label @ lit '' signature failed XEdDSA verify''))))))"

record verified_server_cert_chain =
  vc_intermediate_key :: "u8 list"
  vc_intermediate_not_before :: int
  vc_intermediate_not_after :: int
  vc_leaf_key :: "u8 list"
  vc_leaf_not_before :: int
  vc_leaf_not_after :: int

text \<open>The protobuf accessors fill in defaults; \<open>as i64\<close> reinterprets the 64 bits.\<close>

definition num_field :: "'a::len word option \<Rightarrow> 'a word" where
  "num_field x = (case x of Some n \<Rightarrow> n | None \<Rightarrow> 0)"

definition bytes_field :: "u8 list option \<Rightarrow> u8 list" where
  "bytes_field x = (case x of Some b \<Rightarrow> b | None \<Rightarrow> [])"

definition verify_server_cert :: "hs_env \<Rightarrow> u8 list \<Rightarrow> u8 list \<Rightarrow> verified_server_cert_chain hres" where
  "verify_server_cert E cert_decrypted static_decrypted =
     bindR (ok_or (cert_chain_decode E cert_decrypted) ProtoDecode) (\<lambda>cert_chain.
     bindR (ok_or (cc_intermediate cert_chain) (CertVerification (lit ''Missing intermediate cert''))) (\<lambda>intermediate.
     bindR (ok_or (cc_leaf cert_chain) (CertVerification (lit ''Missing leaf cert''))) (\<lambda>leaf.
     bindR (ok_or (nc_details intermediate) (CertVerification (lit ''Missing intermediate details''))) (\<lambda>intermediate_details_bytes.
     bindR (ok_or (details_decode E intermediate_details_bytes) ProtoDecode) (\<lambda>intermediate_details.
     if uint (num_field (cd_issuer_serial intermediate_details)) \<noteq> WA_CERT_ISSUER_SERIAL then
       Inl (Err (CertVerification (lit ''Unexpected intermediate issuer serial: got '' @
         decimal (unat (num_field (cd_issuer_serial intermediate_details))) @ lit '', expected 0'')))
     else
       let intermediate_pk_bytes = bytes_field (cd_key intermediate_details) in
       if intermediate_pk_bytes = [] then
         Inl (Err (CertVerification (lit ''Intermediate details missing key'')))
       else if length intermediate_pk_bytes \<noteq> 32 then
         Inl (Err (CertVerification (lit ''Intermediate details key is not 32 bytes'')))
       else
         let intermediate_key = intermediate_pk_bytes in
         bindR (verify_cert_step E WA_CERT_PUB_KEY intermediate_details_bytes (nc_signature intermediate) (lit ''intermediate'')) (\<lambda>_.
         bindR (ok_or (nc_details leaf) (CertVerification (lit ''Missing leaf details''))) (\<lambda>leaf_details_bytes.
         bindR (ok_or (details_decode E leaf_details_bytes) ProtoDecode) (\<lambda>leaf_details.
         if num_field (cd_issuer_serial leaf_details) \<noteq> num_field (cd_serial intermediate_details) then
           Inl (Err (CertVerification (lit ''Leaf issuer serial mismatch: got '' @
             decimal (unat (num_field (cd_issuer_serial leaf_details))) @ lit '', expected '' @
             decimal (unat (num_field (cd_serial intermediate_details))))))
         else if bytes_field (cd_key leaf_details) \<noteq> static_decrypted then
           Inl (Err (CertVerification (lit ''Cert key does not match decrypted static key'')))
         else
           bindR (verify_cert_step E intermediate_key leaf_details_bytes (nc_signature leaf) (lit ''leaf'')) (\<lambda>_.
           Inr \<lparr>vc_intermediate_key = intermediate_key,
                vc_intermediate_not_before = sint (num_field (cd_not_before intermediate_details)),
                vc_intermediate_not_after = sint (num_field (cd_not_after intermediate_details)),
                vc_leaf_key = static_decrypted,
                vc_leaf_not_before = sint (num_field (cd_not_before leaf_details)),
                vc_leaf_not_after = sint (num_field (cd_not_after leaf_details))\<rparr>)))))))))"

section \<open>Handshake messages\<close>

definition build_client_hello_msg :: "u8 list \<Rightarrow> handshake_message" where
  "build_client_hello_msg ephemeral_key =
     \<lparr>hm_client_hello = Some \<lparr>ch_ephemeral = Some ephemeral_key, ch_static = None, ch_payload = None\<rparr>,
      hm_server_hello = None, hm_client_finish = None\<rparr>"

definition build_ik_client_hello :: "u8 list \<Rightarrow> u8 list \<Rightarrow> u8 list \<Rightarrow> handshake_message" where
  "build_ik_client_hello ephemeral_key encrypted_static encrypted_payload =
     \<lparr>hm_client_hello = Some \<lparr>ch_ephemeral = Some ephemeral_key, ch_static = Some encrypted_static,
                              ch_payload = Some encrypted_payload\<rparr>,
      hm_server_hello = None, hm_client_finish = None\<rparr>"

definition build_client_finish_msg :: "u8 list \<Rightarrow> u8 list \<Rightarrow> handshake_message" where
  "build_client_finish_msg encrypted_pubkey encrypted_payload =
     \<lparr>hm_client_hello = None, hm_server_hello = None,
      hm_client_finish = Some \<lparr>cf_static = Some encrypted_pubkey, cf_payload = Some encrypted_payload\<rparr>\<rparr>"

definition parse_server_hello_body :: "hs_env \<Rightarrow> u8 list \<Rightarrow> server_hello hres" where
  "parse_server_hello_body E response_bytes =
     bindR (ok_or (hm_decode E response_bytes) ProtoDecode) (\<lambda>handshake_response.
     bindR (ok_or (hm_server_hello handshake_response) IncompleteResponse) (\<lambda>server_hello.
     case sh_ephemeral server_hello of
       Some ephemeral \<Rightarrow>
         if length ephemeral \<noteq> 32
         then Inl (Err (InvalidLength (lit ''server ephemeral key'') 32 (length ephemeral)))
         else Inr server_hello
     | None \<Rightarrow> Inr server_hello))"

definition parse_server_hello :: "hs_env \<Rightarrow> u8 list \<Rightarrow> (u8 list \<times> u8 list \<times> u8 list) hres" where
  "parse_server_hello E response_bytes =
     bindR (parse_server_hello_body E response_bytes) (\<lambda>server_hello.
     bindR (ok_or (sh_ephemeral server_hello) IncompleteResponse) (\<lambda>server_ephemeral.
     bindR (ok_or (sh_static server_hello) IncompleteResponse) (\<lambda>server_static_ciphertext.
     bindR (ok_or (sh_payload server_hello) IncompleteResponse) (\<lambda>certificate_ciphertext.
     Inr (server_ephemeral, server_static_ciphertext, certificate_ciphertext)))))"

section \<open>Noise operations with agreement\<close>

definition mapS :: "('d \<Rightarrow> 'e) \<Rightarrow> ('s, 'd, 'a) meth \<Rightarrow> ('s, 'e, 'a) meth" where
  "mapS f m s = (let (r, s') = m s in (mapE f r, s'))"

type_synonym 'a hmethod = "(noise_state, handshake_error, 'a) meth"

definition hs_encrypt :: "hs_env \<Rightarrow> u8 list \<Rightarrow> u8 list hmethod" where
  "hs_encrypt E plaintext = mapS HsNoise (noise_encrypt (hs_noise E) plaintext)"

definition hs_decrypt :: "hs_env \<Rightarrow> u8 list \<Rightarrow> u8 list hmethod" where
  "hs_decrypt E ciphertext = mapS HsNoise (noise_decrypt (hs_noise E) ciphertext)"

definition hs_authenticate :: "hs_env \<Rightarrow> u8 list \<Rightarrow> unit hmethod" where
  "hs_authenticate E data = modifyS (authenticate (hs_noise E) data)"

definition mix_shared_secret :: "hs_env \<Rightarrow> u8 list \<Rightarrow> u8 list \<Rightarrow> unit hmethod" where
  "mix_shared_secret E priv_key_bytes pub_key_bytes =
     bindS (liftS (mapE HsCrypto (private_key_deserialize (hs_curve E) priv_key_bytes))) (\<lambda>our_private_key.
     bindS (liftS (mapE HsCrypto (from_djb_public_key_bytes pub_key_bytes))) (\<lambda>their_public_key.
     let shared_secret = calculate_agreement (hs_curve E) our_private_key their_public_key
     in mapS HsNoise (mix_key (hs_noise E) shared_secret)))"

definition hs_finish :: "hs_env \<Rightarrow> noise_state \<Rightarrow> (noise_cipher \<times> noise_cipher) hres" where
  "hs_finish E st = bindR (mapE HsNoise (noise_split (hs_noise E) st)) (\<lambda>keys. Inr (nk_write keys, nk_read keys))"

definition key32 :: "u8 list \<Rightarrow> u8 list hres" where
  "key32 bytes = (if length bytes = 32 then Inr bytes else Inl (Err InvalidKeyLength))"

abbreviation kp_pub_bytes :: "key_pair \<Rightarrow> u8 list" where
  "kp_pub_bytes kp \<equiv> public_key_bytes (kp_public kp)"

abbreviation kp_priv_bytes :: "key_pair \<Rightarrow> u8 list" where
  "kp_priv_bytes kp \<equiv> private_key_serialize (kp_private kp)"

section \<open>Processing the server hello of XX\<close>

text \<open>The noise state and the slot for the verified chain are both passed by mutable reference.\<close>

type_synonym 'a xmethod = "(noise_state \<times> verified_server_cert_chain option, handshake_error, 'a) meth"

definition onNoise :: "'a hmethod \<Rightarrow> 'a xmethod" where
  "onNoise m s = (let (r, st) = m (fst s) in (r, (st, snd s)))"

definition process_xx_server_hello_into ::
    "hs_env \<Rightarrow> key_pair \<Rightarrow> key_pair \<Rightarrow> u8 list \<Rightarrow> u8 list \<Rightarrow> u8 list \<Rightarrow> u8 list \<Rightarrow> u8 list xmethod" where
  "process_xx_server_hello_into E ephemeral_kp static_kp payload server_ephemeral
       server_static_ciphertext certificate_ciphertext =
     bindS (onNoise (hs_authenticate E server_ephemeral)) (\<lambda>_.
     bindS (onNoise (mix_shared_secret E (kp_priv_bytes ephemeral_kp) server_ephemeral)) (\<lambda>_.
     bindS (onNoise (hs_decrypt E server_static_ciphertext)) (\<lambda>static_decrypted.
     bindS (liftS (key32 static_decrypted)) (\<lambda>static_decrypted_arr.
     bindS (onNoise (mix_shared_secret E (kp_priv_bytes ephemeral_kp) static_decrypted_arr)) (\<lambda>_.
     bindS (onNoise (hs_decrypt E certificate_ciphertext)) (\<lambda>cert_decrypted.
     bindS (liftS (mapE (CertVerificationOf (lit ''Error verifying server cert: ''))
             (verify_server_cert E cert_decrypted static_decrypted_arr))) (\<lambda>chain.
     bindS (modifyS (\<lambda>(st, _). (st, Some chain))) (\<lambda>_.
     bindS (onNoise (hs_encrypt E (kp_pub_bytes static_kp))) (\<lambda>encrypted_pubkey.
     bindS (onNoise (mix_shared_secret E (kp_priv_bytes static_kp) server_ephemeral)) (\<lambda>_.
     bindS (onNoise (hs_encrypt E payload)) (\<lambda>encrypted_payload.
     returnS (hm_encode E (build_client_finish_msg encrypted_pubkey encrypted_payload)))))))))))))"

section \<open>XX\<close>

definition NOISE_PATTERN_XX :: "u8 list" where
  "NOISE_PATTERN_XX = lit ''Noise_XX_25519_AESGCM_SHA256'' @ replicate 4 0"

definition NOISE_PATTERN_IK :: "u8 list" where
  "NOISE_PATTERN_IK = lit ''Noise_IK_25519_AESGCM_SHA256'' @ replicate 4 0"

definition NOISE_PATTERN_XXFALLBACK :: "u8 list" where
  "NOISE_PATTERN_XXFALLBACK = lit ''Noise_XXfallback_25519_AESGCM_SHA256''"

record xx_handshake_state =
  xs_noise :: noise_state
  xs_ephemeral_kp :: key_pair
  xs_static_kp :: key_pair
  xs_payload :: "u8 list"
  xs_cert_chain :: "verified_server_cert_chain option"

record xx_outcome =
  xo_write_cipher :: noise_cipher
  xo_read_cipher :: noise_cipher
  xo_server_cert_chain :: verified_server_cert_chain

text \<open>\<open>rnd\<close>: the random bytes of the ephemeral key.\<close>

definition xx_new :: "hs_env \<Rightarrow> u8 list \<Rightarrow> key_pair \<Rightarrow> u8 list \<Rightarrow> u8 list \<Rightarrow> xx_handshake_state" where
  "xx_new E rnd static_kp client_payload prologue =
     (let ephemeral_kp = key_pair_generate (hs_curve E) rnd;
          noise = noise_state_new (hs_noise E) NOISE_PATTERN_XX prologue;
          noise = authenticate (hs_noise E) (kp_pub_bytes ephemeral_kp) noise
      in \<lparr>xs_noise = noise, xs_ephemeral_kp = ephemeral_kp, xs_static_kp = static_kp,
          xs_payload = client_payload, xs_cert_chain = None\<rparr>)"

definition xx_build_client_hello :: "hs_env \<Rightarrow> xx_handshake_state \<Rightarrow> u8 list" where
  "xx_build_client_hello E s = hm_encode E (build_client_hello_msg (kp_pub_bytes (xs_ephemeral_kp s)))"

definition xx_read_server_hello_and_build_client_finish ::
    "hs_env \<Rightarrow> u8 list \<Rightarrow> (xx_handshake_state, handshake_error, u8 list) meth" where
  "xx_read_server_hello_and_build_client_finish E response_bytes =
     bindS (liftS (mapE (CertVerificationOf (lit ''Error parsing server hello: ''))
             (parse_server_hello E response_bytes)))
       (\<lambda>(server_ephemeral_raw, server_static_ciphertext, certificate_ciphertext).
     bindS (liftS (key32 server_ephemeral_raw)) (\<lambda>server_ephemeral.
     \<lambda>s. (let (r, noise, chain) =
               process_xx_server_hello_into E (xs_ephemeral_kp s) (xs_static_kp s) (xs_payload s)
                 server_ephemeral server_static_ciphertext certificate_ciphertext
                 (xs_noise s, xs_cert_chain s)
           in (r, s\<lparr>xs_noise := noise, xs_cert_chain := chain\<rparr>))))"

definition xx_finish :: "hs_env \<Rightarrow> xx_handshake_state \<Rightarrow> xx_outcome hres" where
  "xx_finish E s =
     bindR (ok_or (xs_cert_chain s) IncompleteResponse) (\<lambda>cert_chain.
     bindR (hs_finish E (xs_noise s)) (\<lambda>(write_cipher, read_cipher).
     Inr \<lparr>xo_write_cipher = write_cipher, xo_read_cipher = read_cipher, xo_server_cert_chain = cert_chain\<rparr>))"

section \<open>IK\<close>

record ik_handshake_state =
  is_noise :: noise_state
  is_ephemeral_kp :: key_pair
  is_static_kp :: key_pair
  is_server_static_pub :: "u8 list"
  is_payload :: "u8 list"

record ik_fallback_inputs =
  fi_ephemeral_kp :: key_pair
  fi_static_kp :: key_pair
  fi_client_payload :: "u8 list"
  fi_server_hello_bytes :: "u8 list"

datatype ik_server_hello_outcome = IkContinue noise_cipher noise_cipher | IkFallback ik_fallback_inputs

definition ik_new :: "hs_env \<Rightarrow> u8 list \<Rightarrow> key_pair \<Rightarrow> u8 list \<Rightarrow> u8 list \<Rightarrow> u8 list \<Rightarrow> ik_handshake_state" where
  "ik_new E rnd static_kp server_static_pub client_payload prologue =
     \<lparr>is_noise = noise_state_new (hs_noise E) NOISE_PATTERN_IK prologue,
      is_ephemeral_kp = key_pair_generate (hs_curve E) rnd, is_static_kp = static_kp,
      is_server_static_pub = server_static_pub, is_payload = client_payload\<rparr>"

definition ik_build_client_hello :: "hs_env \<Rightarrow> (ik_handshake_state, handshake_error, u8 list) meth" where
  "ik_build_client_hello E s =
     (let (r, noise) =
        (bindS (hs_authenticate E (is_server_static_pub s)) (\<lambda>_.
         let ephemeral_pub_bytes = kp_pub_bytes (is_ephemeral_kp s) in
         bindS (hs_authenticate E ephemeral_pub_bytes) (\<lambda>_.
         bindS (mix_shared_secret E (kp_priv_bytes (is_ephemeral_kp s)) (is_server_static_pub s)) (\<lambda>_.
         bindS (hs_encrypt E (kp_pub_bytes (is_static_kp s))) (\<lambda>encrypted_static.
         bindS (mix_shared_secret E (kp_priv_bytes (is_static_kp s)) (is_server_static_pub s)) (\<lambda>_.
         bindS (hs_encrypt E (is_payload s)) (\<lambda>encrypted_payload.
         returnS (hm_encode E (build_ik_client_hello ephemeral_pub_bytes encrypted_static encrypted_payload)))))))))
        (is_noise s)
      in (r, s\<lparr>is_noise := noise\<rparr>))"

definition ik_read_server_hello :: "hs_env \<Rightarrow> ik_handshake_state \<Rightarrow> u8 list \<Rightarrow> ik_server_hello_outcome hres" where
  "ik_read_server_hello E s response_bytes =
     bindR (parse_server_hello_body E response_bytes) (\<lambda>server_hello.
     if sh_static server_hello \<noteq> None then
       Inr (IkFallback \<lparr>fi_ephemeral_kp = is_ephemeral_kp s, fi_static_kp = is_static_kp s,
                        fi_client_payload = is_payload s, fi_server_hello_bytes = response_bytes\<rparr>)
     else
       bindR (ok_or (sh_ephemeral server_hello) IncompleteResponse) (\<lambda>server_ephemeral.
       bindR (ok_or (sh_payload server_hello) IncompleteResponse) (\<lambda>cert_payload.
       bindR (key32 server_ephemeral) (\<lambda>server_ephemeral.
       fst ((bindS (hs_authenticate E server_ephemeral) (\<lambda>_.
             bindS (mix_shared_secret E (kp_priv_bytes (is_ephemeral_kp s)) server_ephemeral) (\<lambda>_.
             bindS (mix_shared_secret E (kp_priv_bytes (is_static_kp s)) server_ephemeral) (\<lambda>_.
             bindS (hs_decrypt E cert_payload) (\<lambda>cert_plaintext.
             bindS getS (\<lambda>noise.
             bindS (liftS (hs_finish E noise)) (\<lambda>(write_cipher, read_cipher).
             returnS (IkContinue write_cipher read_cipher))))))))
            (is_noise s))))))"

section \<open>XX after a rejected IK\<close>

record xx_fallback_state =
  xf_noise :: noise_state
  xf_ephemeral_kp :: key_pair
  xf_static_kp :: key_pair
  xf_payload :: "u8 list"
  xf_server_hello_bytes :: "u8 list"
  xf_cert_chain :: "verified_server_cert_chain option"

definition xxf_from_ik_failure :: "hs_env \<Rightarrow> ik_fallback_inputs \<Rightarrow> u8 list \<Rightarrow> xx_fallback_state" where
  "xxf_from_ik_failure E inputs prologue =
     (let noise = noise_state_new (hs_noise E) NOISE_PATTERN_XXFALLBACK prologue;
          noise = authenticate (hs_noise E) (kp_pub_bytes (fi_ephemeral_kp inputs)) noise
      in \<lparr>xf_noise = noise, xf_ephemeral_kp = fi_ephemeral_kp inputs, xf_static_kp = fi_static_kp inputs,
          xf_payload = fi_client_payload inputs, xf_server_hello_bytes = fi_server_hello_bytes inputs,
          xf_cert_chain = None\<rparr>)"

definition xxf_build_client_finish :: "hs_env \<Rightarrow> (xx_fallback_state, handshake_error, u8 list) meth" where
  "xxf_build_client_finish E =
     bindS getS (\<lambda>s.
     bindS (liftS (mapE (CertVerificationOf (lit ''Error parsing server hello: ''))
             (parse_server_hello E (xf_server_hello_bytes s))))
       (\<lambda>(server_ephemeral_raw, server_static_ciphertext, certificate_ciphertext).
     bindS (liftS (key32 server_ephemeral_raw)) (\<lambda>server_ephemeral.
     \<lambda>s. (let (r, noise, chain) =
               process_xx_server_hello_into E (xf_ephemeral_kp s) (xf_static_kp s) (xf_payload s)
                 server_ephemeral server_static_ciphertext certificate_ciphertext
                 (xf_noise s, xf_cert_chain s)
           in (r, s\<lparr>xf_noise := noise, xf_cert_chain := chain\<rparr>)))))"

definition xxf_finish :: "hs_env \<Rightarrow> xx_fallback_state \<Rightarrow> xx_outcome hres" where
  "xxf_finish E s =
     bindR (ok_or (xf_cert_chain s) IncompleteResponse) (\<lambda>cert_chain.
     bindR (hs_finish E (xf_noise s)) (\<lambda>(write_cipher, read_cipher).
     Inr \<lparr>xo_write_cipher = write_cipher, xo_read_cipher = read_cipher, xo_server_cert_chain = cert_chain\<rparr>))"

section \<open>The responder\<close>

text \<open>What the server side of the Noise patterns does, given its identity, its certificate chain and its
  ephemeral key pair: the answer to a client hello in the XX shape, the final step on the client's
  finish message, and the answer that accepts IK.\<close>

definition server_hello_msg :: "u8 list \<Rightarrow> u8 list option \<Rightarrow> u8 list \<Rightarrow> handshake_message" where
  "server_hello_msg e s p =
     \<lparr>hm_client_hello = None,
      hm_server_hello = Some \<lparr>sh_ephemeral = Some e, sh_static = s, sh_payload = Some p\<rparr>,
      hm_client_finish = None\<rparr>"

definition xx_serve ::
    "hs_env \<Rightarrow> u8 list \<Rightarrow> u8 list \<Rightarrow> key_pair \<Rightarrow> u8 list \<Rightarrow> key_pair \<Rightarrow> u8 list \<Rightarrow> u8 list hres \<times> noise_state" where
  "xx_serve E pattern prologue identity cert server_eph hello =
     bindS (liftS (bindR (ok_or (hm_decode E hello) ProtoDecode) (\<lambda>msg.
            bindR (ok_or (hm_client_hello msg) IncompleteResponse) (\<lambda>ch.
            ok_or (ch_ephemeral ch) IncompleteResponse)))) (\<lambda>client_eph_pub.
     bindS (hs_authenticate E client_eph_pub) (\<lambda>_.
     bindS (hs_authenticate E (kp_pub_bytes server_eph)) (\<lambda>_.
     bindS (mix_shared_secret E (kp_priv_bytes server_eph) client_eph_pub) (\<lambda>_.
     bindS (hs_encrypt E (kp_pub_bytes identity)) (\<lambda>encrypted_static.
     bindS (mix_shared_secret E (kp_priv_bytes identity) client_eph_pub) (\<lambda>_.
     bindS (hs_encrypt E cert) (\<lambda>encrypted_payload.
     returnS (hm_encode E (server_hello_msg (kp_pub_bytes server_eph) (Some encrypted_static) encrypted_payload)))))))))
     (noise_state_new (hs_noise E) pattern prologue)"

text \<open>Result: the client's static key, its payload, and the ciphers for reading and writing.\<close>

definition xx_serve_finish ::
    "hs_env \<Rightarrow> key_pair \<Rightarrow> u8 list \<Rightarrow> noise_state \<Rightarrow> (u8 list \<times> u8 list \<times> noise_cipher \<times> noise_cipher) hres" where
  "xx_serve_finish E server_eph finish noise =
     fst ((bindS (liftS (bindR (ok_or (hm_decode E finish) ProtoDecode) (\<lambda>msg.
                  ok_or (hm_client_finish msg) IncompleteResponse))) (\<lambda>cf.
           bindS (liftS (ok_or (cf_static cf) IncompleteResponse)) (\<lambda>static_ciphertext.
           bindS (hs_decrypt E static_ciphertext) (\<lambda>client_static.
           bindS (mix_shared_secret E (kp_priv_bytes server_eph) client_static) (\<lambda>_.
           bindS (liftS (ok_or (cf_payload cf) IncompleteResponse)) (\<lambda>payload_ciphertext.
           bindS (hs_decrypt E payload_ciphertext) (\<lambda>payload.
           bindS getS (\<lambda>noise.
           bindS (liftS (hs_finish E noise)) (\<lambda>(write, read).
           returnS (client_static, payload, write, read))))))))))
          noise)"

definition ik_serve_accept ::
    "hs_env \<Rightarrow> u8 list \<Rightarrow> key_pair \<Rightarrow> u8 list \<Rightarrow> key_pair \<Rightarrow> u8 list
      \<Rightarrow> (u8 list \<times> u8 list \<times> u8 list \<times> noise_cipher \<times> noise_cipher) hres" where
  "ik_serve_accept E prologue identity cert server_eph hello =
     fst ((bindS (liftS (bindR (ok_or (hm_decode E hello) ProtoDecode) (\<lambda>msg.
                  ok_or (hm_client_hello msg) IncompleteResponse))) (\<lambda>ch.
           bindS (liftS (ok_or (ch_ephemeral ch) IncompleteResponse)) (\<lambda>client_eph_pub.
           bindS (liftS (ok_or (ch_static ch) IncompleteResponse)) (\<lambda>encrypted_static.
           bindS (liftS (ok_or (ch_payload ch) IncompleteResponse)) (\<lambda>encrypted_payload.
           bindS (hs_authenticate E (kp_pub_bytes identity)) (\<lambda>_.
           bindS (hs_authenticate E client_eph_pub) (\<lambda>_.
           bindS (mix_shared_secret E (kp_priv_bytes identity) client_eph_pub) (\<lambda>_.
           bindS (hs_decrypt E encrypted_static) (\<lambda>client_static.
           bindS (mix_shared_secret E (kp_priv_bytes identity) client_static) (\<lambda>_.
           bindS (hs_decrypt E encrypted_payload) (\<lambda>payload.
           bindS (hs_authenticate E (kp_pub_bytes server_eph)) (\<lambda>_.
           bindS (mix_shared_secret E (kp_priv_bytes server_eph) client_eph_pub) (\<lambda>_.
           bindS (mix_shared_secret E (kp_priv_bytes server_eph) client_static) (\<lambda>_.
           bindS (hs_encrypt E cert) (\<lambda>encrypted_cert.
           bindS getS (\<lambda>noise.
           bindS (liftS (hs_finish E noise)) (\<lambda>(write, read).
           returnS (hm_encode E (server_hello_msg (kp_pub_bytes server_eph) None encrypted_cert),
                    client_static, payload, write, read))))))))))))))))))
          (noise_state_new (hs_noise E) NOISE_PATTERN_IK prologue))"

section \<open>Both sides run in step\<close>

text \<open>The state after mixing in a secret or after one message, and that message on the wire.\<close>

definition mixed :: "hs_env \<Rightarrow> u8 list \<Rightarrow> noise_state \<Rightarrow> noise_state" where
  "mixed E secret st = snd (mix_key (hs_noise E) secret st)"

definition ctext :: "hs_env \<Rightarrow> u8 list \<Rightarrow> noise_state \<Rightarrow> u8 list" where
  "ctext E m st = seal (np_aes (hs_noise E)) (ns_key st) (generate_iv (ns_counter st)) (ns_hash st) m"

definition after :: "hs_env \<Rightarrow> u8 list \<Rightarrow> noise_state \<Rightarrow> noise_state" where
  "after E m st = snd (noise_encrypt (hs_noise E) m st)"

abbreviation can_send :: "noise_state \<Rightarrow> bool" where
  "can_send st \<equiv> noise_wf st \<and> unat (ns_counter st) < 2 ^ 32 - 1"

lemma hs_env_parts:
  assumes "hs_env_ok E"
  shows "noise_prims_ok (hs_noise E)" "curve_prims_ok (hs_curve E)" "hm_decode E (hm_encode E m) = Some m"
  using assms by (auto simp: hs_env_ok_def)

lemma mixed_key:
  assumes "hs_env_ok E" "noise_wf st"
  shows "mix_key (hs_noise E) x st = (Inr (), mixed E x st)" "noise_wf (mixed E x st)" "ns_counter (mixed E x st) = 0"
  using mix_key_ok [OF hs_env_parts(1) [OF assms(1)] assms(2), of x] by (auto simp: mixed_def)

lemma hs_send:
  assumes "hs_env_ok E" "noise_wf st" "unat (ns_counter st) < 2 ^ 32 - 1"
  shows "hs_encrypt E m st = (Inr (ctext E m st), after E m st)"
    "hs_decrypt E (ctext E m st) st = (Inr m, after E m st)"
    "noise_wf (after E m st)" "ns_counter (after E m st) = ns_counter st + 1"
  using noise_encrypt_ok [OF hs_env_parts(1) [OF assms(1)] assms(2,3), of m]
  by (auto simp: hs_encrypt_def hs_decrypt_def ctext_def after_def mapS_def)

lemma length_ctext: "hs_env_ok E \<Longrightarrow> length (ctext E m st) = length m + 16"
  by (simp add: ctext_def length_seal hs_env_ok_def noise_prims_ok_def)

lemma mix_shared_secret_pairs:
  assumes "hs_env_ok E" "noise_wf st" "key_pair_ok (hs_curve E) a" "key_pair_ok (hs_curve E) b"
  shows "mix_shared_secret E (kp_priv_bytes a) (kp_pub_bytes b) st = (Inr (), mixed E (shared_secret (hs_curve E) a b) st)"
  using mixed_key [OF assms(1,2)] private_key_reserialize [OF assms(3)]
    public_key_rebuild [OF hs_env_parts(2) [OF assms(1)] assms(4)]
  by (simp add: mix_shared_secret_def shared_secret_def mapS_def Let_def)

lemma hs_authenticate_run: "hs_authenticate E x st = (Inr (), authenticate (hs_noise E) x st)"
  by (simp add: hs_authenticate_def)

lemma noise_new_ready:
  assumes "hs_env_ok E"
  shows "noise_wf (noise_state_new (hs_noise E) p x)" "ns_counter (noise_state_new (hs_noise E) p x) = 0"
  using noise_wf_new [OF hs_env_parts(1) [OF assms]] by (auto simp: noise_state_new_def authenticate_def Let_def)

lemmas hs_authenticate_wf = noise_wf_authenticate [OF hs_env_parts(1)]

lemmas in_step = mixed_key(2,3) hs_send mix_shared_secret_pairs hs_authenticate_run noise_new_ready hs_authenticate_wf

lemma onNoise_run: "onNoise m (st, c) = (let (r, st') = m st in (r, (st', c)))"
  by (simp add: onNoise_def)

lemma hs_finish_run:
  assumes "hs_env_ok E" "noise_wf st"
  shows "\<exists>w r. hs_finish E st = Inr (w, r)"
proof -
  have K: "length k = 32 \<Longrightarrow> \<exists>c. noise_cipher_new (hs_noise E) k = Inr c" for k
    by (simp add: noise_cipher_new_def transport_aead_def gcm_key_new_def aes256_new_def)
  obtain a b where "extract_and_expand (hs_noise E) st None = Inr (a, b)" "length a = 32" "length b = 32"
    using extract_and_expand_ok [OF hs_env_parts(1) [OF assms(1)]] by blast
  with K [of a] K [of b] show ?thesis by (auto simp: hs_finish_def noise_split_def)
qed

lemma xx_exchange:
  assumes E: "hs_env_ok E"
    and ok: "key_pair_ok (hs_curve E) eph" "key_pair_ok (hs_curve E) static_kp"
      "key_pair_ok (hs_curve E) identity" "key_pair_ok (hs_curve E) server_eph"
    and hello: "hm_decode E hello = Some msg" "hm_client_hello msg = Some ch" "ch_ephemeral ch = Some (kp_pub_bytes eph)"
    and chain: "verify_server_cert E cert (kp_pub_bytes identity) = Inr chain"
  shows "\<exists>ct1 ct2 srv finish st w r.
    xx_serve E pattern prologue identity cert server_eph hello =
      (Inr (hm_encode E (server_hello_msg (kp_pub_bytes server_eph) (Some ct1) ct2)), srv) \<and>
    process_xx_server_hello_into E eph static_kp payload (kp_pub_bytes server_eph) ct1 ct2
      (authenticate (hs_noise E) (kp_pub_bytes eph) (noise_state_new (hs_noise E) pattern prologue), c0) =
      (Inr finish, (st, Some chain)) \<and>
    hs_finish E st = Inr (w, r) \<and>
    xx_serve_finish E server_eph finish srv = Inr (kp_pub_bytes static_kp, payload, w, r) \<and>
    length ct1 = 48 \<and> length ct2 = length cert + 16 \<and>
    (\<exists>c3 c4. finish = hm_encode E (build_client_finish_msg c3 c4) \<and> length c3 = 48 \<and> length c4 = length payload + 16)"
proof -
  let ?C = "hs_curve E"
  note C = hs_env_parts(2) [OF E]
  define s0 where "s0 = authenticate (hs_noise E) (kp_pub_bytes server_eph)
    (authenticate (hs_noise E) (kp_pub_bytes eph) (noise_state_new (hs_noise E) pattern prologue))"
  define a where "a = mixed E (shared_secret ?C server_eph eph) s0"
  define b where "b = mixed E (shared_secret ?C identity eph) (after E (kp_pub_bytes identity) a)"
  define c where "c = after E cert b"
  define d where "d = mixed E (shared_secret ?C server_eph static_kp) (after E (kp_pub_bytes static_kp) c)"
  have s0: "noise_wf s0" unfolding s0_def by (intro hs_authenticate_wf E noise_new_ready)
  have a: "noise_wf a" "ns_counter a = 0" unfolding a_def using in_step(1,2) [OF E s0] by auto
  have b: "noise_wf b" "ns_counter b = 0" unfolding b_def using in_step(1,2,5) E a by auto
  have c: "noise_wf c" "ns_counter c = 1" unfolding c_def using in_step(5,6) E b by auto
  have d: "noise_wf d" "ns_counter d = 0" unfolding d_def using in_step(1,2,5) E c by auto
  have sym: "shared_secret ?C eph server_eph = shared_secret ?C server_eph eph"
    "shared_secret ?C eph identity = shared_secret ?C identity eph"
    "shared_secret ?C static_kp server_eph = shared_secret ?C server_eph static_kp"
    using ok by (simp_all add: shared_secret_commute [OF C])
  have "noise_wf (after E payload d)" using in_step(5) E d by auto
  then obtain w r where wr: "hs_finish E (after E payload d) = Inr (w, r)" using hs_finish_run [OF E] by blast
  note len = length_public_key_bytes [OF C]
  have "xx_serve E pattern prologue identity cert server_eph hello =
      (Inr (hm_encode E (server_hello_msg (kp_pub_bytes server_eph) (Some (ctext E (kp_pub_bytes identity) a)) (ctext E cert b))), c)"
    unfolding xx_serve_def
    by (simp add: hello bindS_Inr hs_authenticate_run flip: s0_def)
      (simp add: bindS_Inr in_step E ok s0 a b flip: a_def b_def c_def)
  moreover have "process_xx_server_hello_into E eph static_kp payload (kp_pub_bytes server_eph)
      (ctext E (kp_pub_bytes identity) a) (ctext E cert b)
      (authenticate (hs_noise E) (kp_pub_bytes eph) (noise_state_new (hs_noise E) pattern prologue), c0) =
      (Inr (hm_encode E (build_client_finish_msg (ctext E (kp_pub_bytes static_kp) c) (ctext E payload d))), (after E payload d, Some chain))"
    unfolding process_xx_server_hello_into_def
    by (simp add: bindS_Inr onNoise_run hs_authenticate_run flip: s0_def)
      (simp add: onNoise_run bindS_Inr in_step E ok s0 a b c d sym key32_def len chain flip: a_def b_def c_def d_def)
  moreover have "xx_serve_finish E server_eph
      (hm_encode E (build_client_finish_msg (ctext E (kp_pub_bytes static_kp) c) (ctext E payload d))) c =
      Inr (kp_pub_bytes static_kp, payload, w, r)"
    unfolding xx_serve_finish_def build_client_finish_msg_def
    by (simp add: hs_env_parts(3) [OF E] bindS_Inr in_step E ok c d wr flip: d_def)
  moreover have "length (ctext E (kp_pub_bytes kp) st) = 48" if "key_pair_ok (hs_curve E) kp" for kp st
    using len [OF that] by (simp add: length_ctext [OF E])
  moreover have "length (ctext E m st) = length m + 16" for m st by (rule length_ctext [OF E])
  ultimately show ?thesis using wr ok(2,3) by blast
qed

lemma mix_any_key:
  assumes "hs_env_ok E" "noise_wf st" "key_pair_ok (hs_curve E) a" "length pub = 32"
  shows "mix_shared_secret E (kp_priv_bytes a) pub st =
    (Inr (), mixed E (calculate_agreement (hs_curve E) (kp_private a) (DjbPublicKey pub)) st)"
  using mixed_key [OF assms(1,2)] private_key_reserialize [OF assms(3)] assms(4)
  by (simp add: mix_shared_secret_def from_djb_public_key_bytes_def mapS_def Let_def)

text \<open>With any cached key, the IK client hello is built and shows the ephemeral key.\<close>

lemma ik_hello_sent:
  assumes E: "hs_env_ok E" "length rnd = 32" "length cached = 32" and ok: "key_pair_ok (hs_curve E) static_kp"
  shows "\<exists>c1 c2 st.
    ik_build_client_hello E (ik_new E rnd static_kp cached payload prologue) =
      (Inr (hm_encode E (build_ik_client_hello (kp_pub_bytes (key_pair_generate (hs_curve E) rnd)) c1 c2)),
       (ik_new E rnd static_kp cached payload prologue)\<lparr>is_noise := st\<rparr>) \<and>
    length c1 = 48 \<and> length c2 = length payload + 16"
proof -
  let ?eph = "key_pair_generate (hs_curve E) rnd"
  have l: "length (kp_pub_bytes static_kp) = 32" using length_public_key_bytes [OF hs_env_parts(2) [OF E(1)] ok] by simp
  have eph: "key_pair_ok (hs_curve E) ?eph" using key_pair_generate_ok [OF hs_env_parts(2) [OF E(1)] E(2)] .
  define s0 where "s0 = authenticate (hs_noise E) (kp_pub_bytes ?eph)
    (authenticate (hs_noise E) cached (noise_state_new (hs_noise E) NOISE_PATTERN_IK prologue))"
  have s0: "noise_wf s0" unfolding s0_def by (intro hs_authenticate_wf E noise_new_ready)
  show ?thesis
    by (simp add: ik_build_client_hello_def ik_new_def bindS_Inr hs_authenticate_run Let_def flip: s0_def)
      (simp add: bindS_Inr in_step mix_any_key E ok eph s0, use l length_ctext [OF E(1)] in \<open>fastforce\<close>)
qed

lemma parse_xx_answer:
  assumes "hs_env_ok E" "key_pair_ok (hs_curve E) server_eph"
  shows "parse_server_hello E (hm_encode E (server_hello_msg (kp_pub_bytes server_eph) (Some ct1) ct2)) =
      Inr (kp_pub_bytes server_eph, ct1, ct2)"
    "parse_server_hello_body E (hm_encode E (server_hello_msg (kp_pub_bytes server_eph) s p)) =
      Inr \<lparr>sh_ephemeral = Some (kp_pub_bytes server_eph), sh_static = s, sh_payload = Some p\<rparr>"
    "key32 (kp_pub_bytes server_eph) = Inr (kp_pub_bytes server_eph)"
  using length_public_key_bytes [OF hs_env_parts(2) [OF assms(1)] assms(2)] hs_env_parts(3) [OF assms(1)]
  by (simp_all add: parse_server_hello_def parse_server_hello_body_def server_hello_msg_def key32_def)

section \<open>A sample environment\<close>

text \<open>A self-delimiting coding of the messages, a certificate that is its leaf key, and the sample
  primitives.\<close>

definition sample_encode :: "handshake_message \<Rightarrow> u8 list" where
  "sample_encode m =
     (case hm_client_hello m of None \<Rightarrow> [0]
      | Some h \<Rightarrow> 1 # put_opt (ch_ephemeral h) @ put_opt (ch_static h) @ put_opt (ch_payload h)) @
     (case hm_server_hello m of None \<Rightarrow> [0]
      | Some h \<Rightarrow> 1 # put_opt (sh_ephemeral h) @ put_opt (sh_static h) @ put_opt (sh_payload h)) @
     (case hm_client_finish m of None \<Rightarrow> [0] | Some h \<Rightarrow> 1 # put_opt (cf_static h) @ put_opt (cf_payload h))"

definition get_three :: "u8 list \<Rightarrow> ((u8 list option \<times> u8 list option \<times> u8 list option) option \<times> u8 list) option" where
  "get_three x =
     (case x of [] \<Rightarrow> None
      | t # r \<Rightarrow> if t = 0 then Some (None, r)
        else Option.bind (get_opt r) (\<lambda>(a, r). Option.bind (get_opt r) (\<lambda>(b, r). Option.bind (get_opt r) (\<lambda>(c, r).
          Some (Some (a, b, c), r)))))"

definition get_two :: "u8 list \<Rightarrow> ((u8 list option \<times> u8 list option) option) option" where
  "get_two x =
     (case x of [] \<Rightarrow> None
      | t # r \<Rightarrow> if t = 0 then Some None
        else Option.bind (get_opt r) (\<lambda>(a, r). Option.bind (get_opt r) (\<lambda>(b, r). Some (Some (a, b)))))"

definition sample_decode :: "u8 list \<Rightarrow> handshake_message option" where
  "sample_decode x =
     Option.bind (get_three x) (\<lambda>(ch, x). Option.bind (get_three x) (\<lambda>(sh, x). Option.bind (get_two x) (\<lambda>cf.
     Some \<lparr>hm_client_hello = map_option (\<lambda>(a, b, c). \<lparr>ch_ephemeral = a, ch_static = b, ch_payload = c\<rparr>) ch,
           hm_server_hello = map_option (\<lambda>(a, b, c). \<lparr>sh_ephemeral = a, sh_static = b, sh_payload = c\<rparr>) sh,
           hm_client_finish = map_option (\<lambda>(a, b). \<lparr>cf_static = a, cf_payload = b\<rparr>) cf\<rparr>)))"

lemma get_three_put:
  "get_three ((case h of None \<Rightarrow> [0] | Some (a, b, c) \<Rightarrow> 1 # put_opt a @ put_opt b @ put_opt c) @ r) = Some (h, r)"
  by (auto simp: get_three_def split: option.split)

lemma get_two_put: "get_two (case h of None \<Rightarrow> [0] | Some (a, b) \<Rightarrow> 1 # put_opt a @ put_opt b) = Some h"
  using get_opt_put [of _ "[]"] by (auto simp: get_two_def split: option.split)

lemma rebuild_records:
  "map_option (\<lambda>x. \<lparr>ch_ephemeral = ch_ephemeral x, ch_static = ch_static x, ch_payload = ch_payload x\<rparr>) h = h"
  "map_option (\<lambda>x. \<lparr>sh_ephemeral = sh_ephemeral x, sh_static = sh_static x, sh_payload = sh_payload x\<rparr>) k = k"
  "map_option (\<lambda>x. \<lparr>cf_static = cf_static x, cf_payload = cf_payload x\<rparr>) f = f"
  by ((cases h; simp), (cases k; simp), (cases f; simp))

lemma sample_decode_encode: "sample_decode (sample_encode m) = Some m"
proof -
  let ?ch = "map_option (\<lambda>h. (ch_ephemeral h, ch_static h, ch_payload h)) (hm_client_hello m)"
  let ?sh = "map_option (\<lambda>h. (sh_ephemeral h, sh_static h, sh_payload h)) (hm_server_hello m)"
  let ?cf = "map_option (\<lambda>h. (cf_static h, cf_payload h)) (hm_client_finish m)"
  have "sample_encode m =
      (case ?ch of None \<Rightarrow> [0] | Some (a, b, c) \<Rightarrow> 1 # put_opt a @ put_opt b @ put_opt c) @
      (case ?sh of None \<Rightarrow> [0] | Some (a, b, c) \<Rightarrow> 1 # put_opt a @ put_opt b @ put_opt c) @
      (case ?cf of None \<Rightarrow> [0] | Some (a, b) \<Rightarrow> 1 # put_opt a @ put_opt b)"
    by (simp add: sample_encode_def split: option.split)
  then show ?thesis
    by (simp only: sample_decode_def get_three_put get_two_put Option.bind.bind_lunit split_conv)
      (simp add: option.map_comp comp_def rebuild_records)
qed

definition sample_hs_env :: hs_env where
  "sample_hs_env =
     \<lparr>hs_noise = sample_noise, hs_curve = sample_curve, hm_encode = sample_encode, hm_decode = sample_decode,
      cert_chain_decode = (\<lambda>c. Some \<lparr>cc_leaf = Some \<lparr>nc_details = Some c, nc_signature = Some (replicate 64 0)\<rparr>,
        cc_intermediate = Some \<lparr>nc_details = Some [], nc_signature = Some (replicate 64 0)\<rparr>\<rparr>),
      details_decode = (\<lambda>d. Some (if d = []
        then \<lparr>cd_serial = Some 7, cd_issuer_serial = Some 0, cd_key = Some (replicate 32 1), cd_not_before = None, cd_not_after = Some 100\<rparr>
        else \<lparr>cd_serial = None, cd_issuer_serial = Some 7, cd_key = Some d, cd_not_before = Some 1, cd_not_after = Some 2\<rparr>)),
      skip_cert_verify = False\<rparr>"

lemma sample_hs_env_ok: "hs_env_ok sample_hs_env"
  using sample_noise_ok sample_curve_ok sample_decode_encode by (simp add: hs_env_ok_def sample_hs_env_def)

definition sample_kp :: "u8 \<Rightarrow> key_pair" where
  "sample_kp x = key_pair_generate sample_curve (replicate 32 x)"

lemma sample_kp_ok: "key_pair_ok (hs_curve sample_hs_env) (sample_kp x)"
  using key_pair_generate_ok [OF sample_curve_ok, of "replicate 32 x"] by (simp add: sample_kp_def sample_hs_env_def)

definition sample_chain :: "verified_server_cert_chain" where
  "sample_chain = \<lparr>vc_intermediate_key = replicate 32 1, vc_intermediate_not_before = 0, vc_intermediate_not_after = 100,
     vc_leaf_key = replicate 32 3, vc_leaf_not_before = 1, vc_leaf_not_after = 2\<rparr>"

lemma sample_kp_pub: "kp_pub_bytes (sample_kp x) = replicate 32 x"
  by (simp add: sample_kp_def key_pair_generate_def sample_curve_def public_key_bytes_def Let_def)

lemma sample_cert: "verify_server_cert sample_hs_env (replicate 32 3) (kp_pub_bytes (sample_kp 3)) = Inr sample_chain"
  unfolding sample_kp_pub
  by (simp add: verify_server_cert_def verify_cert_step_def sample_hs_env_def sample_curve_def bytes_field_def
      num_field_def WA_CERT_ISSUER_SERIAL_def WA_CERT_PUB_KEY_def from_djb_public_key_bytes_def verify_signature_def
      sample_chain_def Let_def)

lemma bindS_liftS: "bindS (liftS r) f s = (case r of Inl e \<Rightarrow> (Inl e, s) | Inr x \<Rightarrow> f x s)"
  by (simp add: bindS_def split: sum.split)

text \<open>The handshake with the shape of its messages.\<close>

lemma xx_agrees_sized:
  assumes "hs_env_ok E" "length rnd = 32"
    and "key_pair_ok (hs_curve E) static_kp" "key_pair_ok (hs_curve E) identity" "key_pair_ok (hs_curve E) server_eph"
    and "verify_server_cert E cert (kp_pub_bytes identity) = Inr chain"
  shows "\<exists>hello srv finish s' out.
    xx_serve E NOISE_PATTERN_XX prologue identity cert server_eph
      (xx_build_client_hello E (xx_new E rnd static_kp payload prologue)) = (Inr hello, srv) \<and>
    xx_read_server_hello_and_build_client_finish E hello (xx_new E rnd static_kp payload prologue) = (Inr finish, s') \<and>
    xx_finish E s' = Inr out \<and> xo_server_cert_chain out = chain \<and>
    xx_serve_finish E server_eph finish srv =
      Inr (kp_pub_bytes static_kp, payload, xo_write_cipher out, xo_read_cipher out) \<and>
    (\<exists>ct1 ct2. hello = hm_encode E (server_hello_msg (kp_pub_bytes server_eph) (Some ct1) ct2) \<and>
      length ct1 = 48 \<and> length ct2 = length cert + 16) \<and>
    (\<exists>c3 c4. finish = hm_encode E (build_client_finish_msg c3 c4) \<and> length c3 = 48 \<and> length c4 = length payload + 16)"
proof -
  let ?eph = "key_pair_generate (hs_curve E) rnd"
  note C = hs_env_parts(2) [OF assms(1)] and D = hs_env_parts(3) [OF assms(1)]
  have eph: "key_pair_ok (hs_curve E) ?eph" using key_pair_generate_ok [OF C assms(2)] .
  obtain ct1 ct2 srv finish st w r where x:
    "xx_serve E NOISE_PATTERN_XX prologue identity cert server_eph (hm_encode E (build_client_hello_msg (kp_pub_bytes ?eph))) =
      (Inr (hm_encode E (server_hello_msg (kp_pub_bytes server_eph) (Some ct1) ct2)), srv)"
    "process_xx_server_hello_into E ?eph static_kp payload (kp_pub_bytes server_eph) ct1 ct2
      (authenticate (hs_noise E) (kp_pub_bytes ?eph) (noise_state_new (hs_noise E) NOISE_PATTERN_XX prologue), None) =
      (Inr finish, (st, Some chain))"
    "hs_finish E st = Inr (w, r)"
    "xx_serve_finish E server_eph finish srv = Inr (kp_pub_bytes static_kp, payload, w, r)"
    "length ct1 = 48" "length ct2 = length cert + 16"
    "\<exists>c3 c4. finish = hm_encode E (build_client_finish_msg c3 c4) \<and> length c3 = 48 \<and> length c4 = length payload + 16"
    using xx_exchange [OF assms(1) eph assms(3-5) D _ _ assms(6), of "build_client_hello_msg (kp_pub_bytes ?eph)"]
    by (fastforce simp: build_client_hello_msg_def)
  let ?S = "xx_new E rnd static_kp payload prologue"
  have "xx_serve E NOISE_PATTERN_XX prologue identity cert server_eph (xx_build_client_hello E ?S) =
      (Inr (hm_encode E (server_hello_msg (kp_pub_bytes server_eph) (Some ct1) ct2)), srv)"
    using x(1) by (simp add: xx_build_client_hello_def xx_new_def Let_def)
  moreover have "xx_read_server_hello_and_build_client_finish E (hm_encode E (server_hello_msg (kp_pub_bytes server_eph) (Some ct1) ct2)) ?S =
      (Inr finish, ?S\<lparr>xs_noise := st, xs_cert_chain := Some chain\<rparr>)"
    using x(2) parse_xx_answer [OF assms(1,5)]
    by (simp add: xx_read_server_hello_and_build_client_finish_def xx_new_def Let_def)
  moreover have "xx_finish E (?S\<lparr>xs_noise := st, xs_cert_chain := Some chain\<rparr>) =
      Inr \<lparr>xo_write_cipher = w, xo_read_cipher = r, xo_server_cert_chain = chain\<rparr>"
    using x(3) by (simp add: xx_finish_def)
  ultimately show ?thesis using x(4-7) by (simp, blast)
qed

section \<open>Properties\<close>

text \<open>C10: a first connection.  Against a server whose certificate chain verifies for its
  own static key, the XX handshake completes: the client builds its finish message from the server's
  answer, the server reads the client's static key and payload from it, both sides hold the same two
  ciphers, and the client has the verified chain.\<close>

theorem xx_handshake_agrees:
  assumes "hs_env_ok E" "length rnd = 32"
    and "key_pair_ok (hs_curve E) static_kp" "key_pair_ok (hs_curve E) identity" "key_pair_ok (hs_curve E) server_eph"
    and "verify_server_cert E cert (kp_pub_bytes identity) = Inr chain"
  shows "\<exists>hello srv finish s' out.
    xx_serve E NOISE_PATTERN_XX prologue identity cert server_eph
      (xx_build_client_hello E (xx_new E rnd static_kp payload prologue)) = (Inr hello, srv) \<and>
    xx_read_server_hello_and_build_client_finish E hello (xx_new E rnd static_kp payload prologue) = (Inr finish, s') \<and>
    xx_finish E s' = Inr out \<and> xo_server_cert_chain out = chain \<and>
    xx_serve_finish E server_eph finish srv =
      Inr (kp_pub_bytes static_kp, payload, xo_write_cipher out, xo_read_cipher out)"
  using xx_agrees_sized [OF assms] by blast

theorem xx_handshake_agrees_witness:
  "\<exists>hello srv finish s' out.
    xx_serve sample_hs_env NOISE_PATTERN_XX [87, 65] (sample_kp 3) (replicate 32 3) (sample_kp 4)
      (xx_build_client_hello sample_hs_env (xx_new sample_hs_env (replicate 32 9) (sample_kp 2) [1, 2] [87, 65])) = (Inr hello, srv) \<and>
    xx_read_server_hello_and_build_client_finish sample_hs_env hello (xx_new sample_hs_env (replicate 32 9) (sample_kp 2) [1, 2] [87, 65]) = (Inr finish, s') \<and>
    xx_finish sample_hs_env s' = Inr out \<and> xo_server_cert_chain out = sample_chain \<and>
    xx_serve_finish sample_hs_env (sample_kp 4) finish srv =
      Inr (kp_pub_bytes (sample_kp 2), [1, 2], xo_write_cipher out, xo_read_cipher out)"
  by (rule xx_handshake_agrees [OF sample_hs_env_ok _ sample_kp_ok sample_kp_ok sample_kp_ok sample_cert]) simp

text \<open>C20: a reconnect with the cached server key.  The IK client hello carries the
  client's static key and payload to the server that owns that key; on the server's accepting answer
  the client continues, and both sides hold the same two ciphers.\<close>

theorem ik_handshake_agrees:
  assumes E: "hs_env_ok E" "length rnd = 32"
    and ok: "key_pair_ok (hs_curve E) static_kp" "key_pair_ok (hs_curve E) identity" "key_pair_ok (hs_curve E) server_eph"
  shows "\<exists>hello s' answer w r.
    ik_build_client_hello E (ik_new E rnd static_kp (kp_pub_bytes identity) payload prologue) = (Inr hello, s') \<and>
    ik_serve_accept E prologue identity cert server_eph hello = Inr (answer, kp_pub_bytes static_kp, payload, w, r) \<and>
    ik_read_server_hello E s' answer = Inr (IkContinue w r)"
proof -
  let ?C = "hs_curve E" and ?eph = "key_pair_generate (hs_curve E) rnd"
  note C = hs_env_parts(2) [OF E(1)] and D = hs_env_parts(3) [OF E(1)]
  have eph: "key_pair_ok ?C ?eph" using key_pair_generate_ok [OF C E(2)] .
  define s0 where "s0 = authenticate (hs_noise E) (kp_pub_bytes ?eph)
    (authenticate (hs_noise E) (kp_pub_bytes identity) (noise_state_new (hs_noise E) NOISE_PATTERN_IK prologue))"
  define a where "a = mixed E (shared_secret ?C identity ?eph) s0"
  define b where "b = mixed E (shared_secret ?C identity static_kp) (after E (kp_pub_bytes static_kp) a)"
  define c where "c = after E payload b"
  define d where "d = mixed E (shared_secret ?C server_eph static_kp)
    (mixed E (shared_secret ?C server_eph ?eph) (authenticate (hs_noise E) (kp_pub_bytes server_eph) c))"
  have s0: "noise_wf s0" unfolding s0_def by (intro hs_authenticate_wf E noise_new_ready)
  have a: "noise_wf a" "ns_counter a = 0" unfolding a_def using in_step(1,2) [OF E(1) s0] by auto
  have b: "noise_wf b" "ns_counter b = 0" unfolding b_def using in_step(1,2,5) E a by auto
  have c: "noise_wf c" "ns_counter c = 1" unfolding c_def using in_step(5,6) E b by auto
  have d: "noise_wf d" "ns_counter d = 0"
    unfolding d_def using in_step(1,2) E hs_authenticate_wf [OF E(1) c(1)] by auto
  have "noise_wf (after E cert d)" using in_step(5) E d by auto
  then obtain w r where wr: "hs_finish E (after E cert d) = Inr (w, r)" using hs_finish_run [OF E(1)] by blast
  have sym: "shared_secret ?C ?eph identity = shared_secret ?C identity ?eph"
    "shared_secret ?C static_kp identity = shared_secret ?C identity static_kp"
    "shared_secret ?C ?eph server_eph = shared_secret ?C server_eph ?eph"
    "shared_secret ?C static_kp server_eph = shared_secret ?C server_eph static_kp"
    using ok eph by (simp_all add: shared_secret_commute [OF C])
  let ?hello = "hm_encode E (build_ik_client_hello (kp_pub_bytes ?eph) (ctext E (kp_pub_bytes static_kp) a) (ctext E payload b))"
  let ?answer = "hm_encode E (server_hello_msg (kp_pub_bytes server_eph) None (ctext E cert d))"
  let ?s = "(ik_new E rnd static_kp (kp_pub_bytes identity) payload prologue)\<lparr>is_noise := c\<rparr>"
  have "ik_build_client_hello E (ik_new E rnd static_kp (kp_pub_bytes identity) payload prologue) = (Inr ?hello, ?s)"
    by (simp add: ik_build_client_hello_def ik_new_def bindS_Inr hs_authenticate_run Let_def flip: s0_def)
      (simp add: bindS_Inr in_step E ok eph s0 a b c sym flip: a_def b_def c_def)
  moreover have "ik_serve_accept E prologue identity cert server_eph ?hello =
      Inr (?answer, kp_pub_bytes static_kp, payload, w, r)"
    by (simp add: ik_serve_accept_def build_ik_client_hello_def D bindS_Inr hs_authenticate_run flip: s0_def)
      (simp add: bindS_Inr in_step E ok eph s0 a b c d wr flip: a_def b_def c_def d_def)
  moreover have "ik_read_server_hello E ?s ?answer = Inr (IkContinue w r)"
    by (simp add: ik_read_server_hello_def parse_xx_answer [OF E(1) ok(3)] ik_new_def)
      (simp add: bindS_Inr in_step E ok eph c d sym wr flip: d_def)
  ultimately show ?thesis by blast
qed

theorem ik_handshake_agrees_witness:
  "\<exists>hello s' answer w r.
    ik_build_client_hello sample_hs_env (ik_new sample_hs_env (replicate 32 9) (sample_kp 2) (kp_pub_bytes (sample_kp 3)) [1, 2] [87, 65]) = (Inr hello, s') \<and>
    ik_serve_accept sample_hs_env [87, 65] (sample_kp 3) [5] (sample_kp 4) hello = Inr (answer, kp_pub_bytes (sample_kp 2), [1, 2], w, r) \<and>
    ik_read_server_hello sample_hs_env s' answer = Inr (IkContinue w r)"
  by (rule ik_handshake_agrees [OF sample_hs_env_ok _ sample_kp_ok sample_kp_ok sample_kp_ok]) simp

text \<open>C19: a reconnect with a stale cached key.  A server that answers the IK hello in
  the XX shape sends the client into the fall back, which completes with the ephemeral key that is
  already on the wire: same ciphers on both sides, payload and static key delivered, chain verified.\<close>

theorem ik_fallback_recovers:
  assumes "hs_env_ok E" "length rnd = 32" "length cached = 32"
    and "key_pair_ok (hs_curve E) static_kp" "key_pair_ok (hs_curve E) identity" "key_pair_ok (hs_curve E) server_eph"
    and "verify_server_cert E cert (kp_pub_bytes identity) = Inr chain"
  shows "\<exists>hello s answer srv inputs finish s' out.
    ik_build_client_hello E (ik_new E rnd static_kp cached payload prologue) = (Inr hello, s) \<and>
    xx_serve E NOISE_PATTERN_XXFALLBACK prologue identity cert server_eph hello = (Inr answer, srv) \<and>
    ik_read_server_hello E s answer = Inr (IkFallback inputs) \<and>
    xxf_build_client_finish E (xxf_from_ik_failure E inputs prologue) = (Inr finish, s') \<and>
    xxf_finish E s' = Inr out \<and> xo_server_cert_chain out = chain \<and>
    xx_serve_finish E server_eph finish srv =
      Inr (kp_pub_bytes static_kp, payload, xo_write_cipher out, xo_read_cipher out)"
proof -
  let ?eph = "key_pair_generate (hs_curve E) rnd"
  note C = hs_env_parts(2) [OF assms(1)] and D = hs_env_parts(3) [OF assms(1)]
  have eph: "key_pair_ok (hs_curve E) ?eph" using key_pair_generate_ok [OF C assms(2)] .
  obtain c1 c2 st0 where hello: "ik_build_client_hello E (ik_new E rnd static_kp cached payload prologue) =
      (Inr (hm_encode E (build_ik_client_hello (kp_pub_bytes ?eph) c1 c2)),
       (ik_new E rnd static_kp cached payload prologue)\<lparr>is_noise := st0\<rparr>)"
    using ik_hello_sent [OF assms(1-4)] by blast
  obtain ct1 ct2 srv finish st w r where x:
    "xx_serve E NOISE_PATTERN_XXFALLBACK prologue identity cert server_eph (hm_encode E (build_ik_client_hello (kp_pub_bytes ?eph) c1 c2)) =
      (Inr (hm_encode E (server_hello_msg (kp_pub_bytes server_eph) (Some ct1) ct2)), srv)"
    "process_xx_server_hello_into E ?eph static_kp payload (kp_pub_bytes server_eph) ct1 ct2
      (authenticate (hs_noise E) (kp_pub_bytes ?eph) (noise_state_new (hs_noise E) NOISE_PATTERN_XXFALLBACK prologue), None) =
      (Inr finish, (st, Some chain))"
    "hs_finish E st = Inr (w, r)"
    "xx_serve_finish E server_eph finish srv = Inr (kp_pub_bytes static_kp, payload, w, r)"
    using xx_exchange [OF assms(1) eph assms(4-6) D _ _ assms(7), of "build_ik_client_hello (kp_pub_bytes ?eph) c1 c2"]
    by (fastforce simp: build_ik_client_hello_def)
  with parse_xx_answer [OF assms(1,6)] hello show ?thesis
    by (simp add: ik_read_server_hello_def xxf_from_ik_failure_def xxf_build_client_finish_def xxf_finish_def
        ik_new_def Let_def)
qed

theorem ik_fallback_recovers_witness:
  "\<exists>hello s answer srv inputs finish s' out.
    ik_build_client_hello sample_hs_env (ik_new sample_hs_env (replicate 32 9) (sample_kp 2) (replicate 32 8) [1, 2] [87, 65]) = (Inr hello, s) \<and>
    xx_serve sample_hs_env NOISE_PATTERN_XXFALLBACK [87, 65] (sample_kp 3) (replicate 32 3) (sample_kp 4) hello = (Inr answer, srv) \<and>
    ik_read_server_hello sample_hs_env s answer = Inr (IkFallback inputs) \<and>
    xxf_build_client_finish sample_hs_env (xxf_from_ik_failure sample_hs_env inputs [87, 65]) = (Inr finish, s') \<and>
    xxf_finish sample_hs_env s' = Inr out \<and> xo_server_cert_chain out = sample_chain \<and>
    xx_serve_finish sample_hs_env (sample_kp 4) finish srv =
      Inr (kp_pub_bytes (sample_kp 2), [1, 2], xo_write_cipher out, xo_read_cipher out)"
  by (rule ik_fallback_recovers [OF sample_hs_env_ok _ _ sample_kp_ok sample_kp_ok sample_kp_ok sample_cert]) simp_all

text \<open>The two signatures a chain rests on: the issuer key signs the intermediate's details, the key in
  those signs the leaf's details, and the leaf's details hold the server's static key.\<close>

definition chain_signed :: "hs_env \<Rightarrow> verified_server_cert_chain \<Rightarrow> bool" where
  "chain_signed E chain \<longleftrightarrow>
     (\<exists>di si dl sl int_details leaf_details.
        length si = 64 \<and> xeddsa_verify (hs_curve E) WA_CERT_PUB_KEY di si \<and>
        details_decode E di = Some int_details \<and> num_field (cd_issuer_serial int_details) = 0 \<and>
        cd_key int_details = Some (vc_intermediate_key chain) \<and> length (vc_intermediate_key chain) = 32 \<and>
        length sl = 64 \<and> xeddsa_verify (hs_curve E) (vc_intermediate_key chain) dl sl \<and>
        details_decode E dl = Some leaf_details \<and>
        num_field (cd_issuer_serial leaf_details) = num_field (cd_serial int_details) \<and>
        cd_key leaf_details = Some (vc_leaf_key chain) \<and> length (vc_leaf_key chain) = 32)"

lemma verify_cert_step_ok:
  assumes "verify_cert_step E k d s l = Inr ()" "\<not> skip_cert_verify E"
  shows "\<exists>sig. s = Some sig \<and> length sig = 64 \<and> length k = 32 \<and> xeddsa_verify (hs_curve E) k d sig"
  using assms
  by (auto simp: verify_cert_step_def from_djb_public_key_bytes_def verify_signature_def ok_or_def
      split: option.splits if_splits)

lemma verify_server_cert_signed:
  assumes "verify_server_cert E cert key = Inr chain" "\<not> skip_cert_verify E" "length key = 32"
  shows "chain_signed E chain \<and> vc_leaf_key chain = key"
proof -
  obtain cc i l di "id" dl ld where p: "cert_chain_decode E cert = Some cc" "cc_intermediate cc = Some i"
    "cc_leaf cc = Some l" "nc_details i = Some di" "details_decode E di = Some id" "nc_details l = Some dl"
    "details_decode E dl = Some ld"
    using assms(1) by (auto simp: verify_server_cert_def ok_or_def Let_def split: option.splits if_splits)
  have x: "num_field (cd_issuer_serial id) = 0" "length (bytes_field (cd_key id)) = 32"
    "num_field (cd_issuer_serial ld) = num_field (cd_serial id)" "bytes_field (cd_key ld) = key"
    "verify_cert_step E WA_CERT_PUB_KEY di (nc_signature i) (lit ''intermediate'') = Inr ()"
    "verify_cert_step E (bytes_field (cd_key id)) dl (nc_signature l) (lit ''leaf'') = Inr ()"
    "vc_intermediate_key chain = bytes_field (cd_key id)" "vc_leaf_key chain = key"
    using assms(1)
    by (auto simp: verify_server_cert_def p WA_CERT_ISSUER_SERIAL_def unsigned_eq_0_iff Let_def split: if_splits)
  have "cd_key id = Some (bytes_field (cd_key id))" "cd_key ld = Some key"
    using x(2,4) assms(3) by (auto simp: bytes_field_def split: option.splits)
  with verify_cert_step_ok [OF x(5) assms(2)] verify_cert_step_ok [OF x(6) assms(2)] assms(3) show ?thesis
    unfolding chain_signed_def x(7,8) using p(5,7) x(1,2,3) by blast
qed

lemma onNoise_keeps: "snd (snd (onNoise m s)) = snd s"
  by (simp add: onNoise_def split: prod.split)

lemma bindS_onNoise_slot:
  assumes "snd (snd (bindS (onNoise m) f s)) = Some c" "snd s = None"
  obtains x st where "snd (snd (f x (st, None))) = Some c"
  using assms by (auto simp: bindS_def onNoise_def split: prod.splits sum.splits)

lemma bindS_onNoise_kept:
  assumes "\<And>x s. snd (snd (f x s)) = snd s"
  shows "snd (snd (bindS (onNoise m) f s)) = snd s"
  using assms by (auto simp: bindS_def onNoise_def split: prod.splits sum.splits)

lemma process_slot:
  assumes "snd (snd (process_xx_server_hello_into E e k p se sc cc (st, None))) = Some chain"
  shows "\<exists>cert key. length key = 32 \<and> verify_server_cert E cert key = Inr chain"
proof -
  have tail: "snd (snd (bindS (onNoise (hs_encrypt E a)) (\<lambda>ep.
      bindS (onNoise (mix_shared_secret E b se)) (\<lambda>_.
      bindS (onNoise (hs_encrypt E p)) (\<lambda>ed. returnS (f ep ed)))) s)) = snd s"
    for a b s and f :: "u8 list \<Rightarrow> u8 list \<Rightarrow> u8 list"
    by (intro bindS_onNoise_kept) (simp add: returnS_def)
  show ?thesis
    using assms unfolding process_xx_server_hello_into_def
    by (elim bindS_onNoise_slot)
      (auto simp: key32_def bindS_liftS tail split: if_splits sum.splits elim!: bindS_onNoise_slot, blast)
qed

lemma finished_chain_signed:
  assumes "\<not> skip_cert_verify E"
    and "xx_finish E (snd (xx_read_server_hello_and_build_client_finish E answer (xx_new E rnd static_kp payload prologue))) = Inr out \<or>
      xxf_finish E (snd (xxf_build_client_finish E (xxf_from_ik_failure E inputs prologue))) = Inr out"
  shows "chain_signed E (xo_server_cert_chain out)"
proof -
  obtain e k p se sc cc st r st' where
    "process_xx_server_hello_into E e k p se sc cc (st, None) = (r, st', Some (xo_server_cert_chain out))"
    using assms(2)
    by (elim disjE) (auto simp: xx_finish_def xxf_finish_def xx_read_server_hello_and_build_client_finish_def
        xxf_build_client_finish_def xx_new_def xxf_from_ik_failure_def ok_or_def bindS_liftS key32_def Let_def
        split: option.splits sum.splits prod.splits if_splits)
  then have "snd (snd (process_xx_server_hello_into E e k p se sc cc (st, None))) = Some (xo_server_cert_chain out)"
    by simp
  with process_slot verify_server_cert_signed assms(1) show ?thesis by blast
qed

text \<open>C7: whatever bytes the server sends, a finished XX or fall-back handshake
  carries a certificate chain with both signatures verified up to the built-in issuer key, unless the
  build skips the checks.\<close>

theorem server_identity_verified:
  assumes "\<not> skip_cert_verify E"
    and "xx_finish E (snd (xx_read_server_hello_and_build_client_finish E answer (xx_new E rnd static_kp payload prologue))) = Inr out \<or>
      xxf_finish E (snd (xxf_build_client_finish E (xxf_from_ik_failure E inputs prologue))) = Inr out"
  shows "chain_signed E (xo_server_cert_chain out)"
  using assms by (rule finished_chain_signed)

theorem server_identity_verified_witness:
  "\<exists>answer out.
    xx_finish sample_hs_env (snd (xx_read_server_hello_and_build_client_finish sample_hs_env answer
      (xx_new sample_hs_env (replicate 32 9) (sample_kp 2) [1, 2] [87, 65]))) = Inr out \<and>
    chain_signed sample_hs_env (xo_server_cert_chain out)"
proof -
  have "length (replicate 32 (9 :: u8)) = 32" by simp
  then obtain answer finish s' out where "xx_read_server_hello_and_build_client_finish sample_hs_env answer
      (xx_new sample_hs_env (replicate 32 9) (sample_kp 2) [1, 2] [87, 65]) = (Inr finish, s')" "xx_finish sample_hs_env s' = Inr out"
    using xx_agrees_sized [OF sample_hs_env_ok _ sample_kp_ok sample_kp_ok sample_kp_ok sample_cert, of "replicate 32 9"] by blast
  then have "xx_finish sample_hs_env (snd (xx_read_server_hello_and_build_client_finish sample_hs_env answer
      (xx_new sample_hs_env (replicate 32 9) (sample_kp 2) [1, 2] [87, 65]))) = Inr out" by simp
  moreover have "\<not> skip_cert_verify sample_hs_env" by (simp add: sample_hs_env_def)
  ultimately show ?thesis using server_identity_verified by blast
qed

end
