(* ===== verification/Device.thy ===== *)
theory Device
  imports Jid Handshake
begin

text \<open>The device record of wacore/src/store/device.rs and the commands of wacore/src/store/commands.rs, through
  which all of its changes go.  A protobuf message or profile that is only stored is its encoding.\<close>

record cached_noise_cert =
  cn_key :: "u8 list"
  cn_not_before :: int
  cn_not_after :: int

record cached_server_cert_chain =
  cs_intermediate :: cached_noise_cert
  cs_leaf :: cached_noise_cert

definition cached_from :: "verified_server_cert_chain \<Rightarrow> cached_server_cert_chain" where
  "cached_from v =
     \<lparr>cs_intermediate = \<lparr>cn_key = vc_intermediate_key v, cn_not_before = vc_intermediate_not_before v,
                         cn_not_after = vc_intermediate_not_after v\<rparr>,
      cs_leaf = \<lparr>cn_key = vc_leaf_key v, cn_not_before = vc_leaf_not_before v, cn_not_after = vc_leaf_not_after v\<rparr>\<rparr>"

record device_props =
  dp_os :: "str option"
  dp_version :: "u8 list option"
  dp_platform_type :: "int option"
  dp_history_sync_config :: "u8 list option"

text \<open>The fields of the override are those of the properties; \<open>None\<close> leaves a property as it is.\<close>

type_synonym device_props_override = device_props

record device =
  dv_pn :: "str jid option"
  dv_lid :: "str jid option"
  dv_registration_id :: u32
  dv_noise_key :: key_pair
  dv_identity_key :: key_pair
  dv_signed_pre_key :: key_pair
  dv_signed_pre_key_id :: u32
  dv_signed_pre_key_signature :: "u8 list"
  dv_adv_secret_key :: "u8 list"
  dv_account :: "u8 list option"
  dv_push_name :: str
  dv_app_version :: "u32 \<times> u32 \<times> u32"
  dv_app_version_last_fetched_ms :: int
  dv_device_props :: device_props
  dv_client_profile :: "u8 list"
  dv_edge_routing_info :: "u8 list option"
  dv_props_hash :: "str option"
  dv_next_pre_key_id :: u32
  dv_first_unupload_pre_key_id :: u32
  dv_server_has_prekeys :: bool
  dv_nct_salt :: "u8 list option"
  dv_nct_salt_sync_seen :: bool
  dv_server_cert_chain :: "cached_server_cert_chain option"
  dv_login_counter :: int

definition is_ready_for_presence :: "device \<Rightarrow> bool" where
  "is_ready_for_presence d \<longleftrightarrow> dv_pn d \<noteq> None \<and> dv_push_name d \<noteq> []"

definition is_registered :: "device \<Rightarrow> bool" where
  "is_registered d \<longleftrightarrow> dv_pn d \<noteq> None"

definition set_device_props :: "device_props_override \<Rightarrow> device \<Rightarrow> device" where
  "set_device_props ov d =
     (let props = dv_device_props d;
          props = (case dp_os ov of Some os \<Rightarrow> props\<lparr>dp_os := Some os\<rparr> | None \<Rightarrow> props);
          props = (case dp_version ov of Some v \<Rightarrow> props\<lparr>dp_version := Some v\<rparr> | None \<Rightarrow> props);
          props = (case dp_platform_type ov of Some p \<Rightarrow> props\<lparr>dp_platform_type := Some p\<rparr> | None \<Rightarrow> props);
          props = (case dp_history_sync_config ov of Some h \<Rightarrow> props\<lparr>dp_history_sync_config := Some h\<rparr> | None \<Rightarrow> props)
      in d\<lparr>dv_device_props := props\<rparr>)"

definition set_client_profile :: "u8 list \<Rightarrow> device \<Rightarrow> device" where
  "set_client_profile profile d = d\<lparr>dv_client_profile := profile\<rparr>"

section \<open>Commands\<close>

datatype device_command =
    SetId "str jid option" | SetLid "str jid option" | SetPushName str | SetAccount "u8 list option"
  | SetAppVersion "u32 \<times> u32 \<times> u32" | SetDeviceProps device_props_override | SetClientProfile "u8 list"
  | SetPropsHash "str option" | SetPreKeyWatermarks u32 u32 | SetAdvSecretKey "u8 list"
  | SetNctSalt "u8 list option" | SetNctSaltFromHistorySync "u8 list"
  | SetServerCertChain cached_server_cert_chain | ClearServerCertChain | IncrementLoginCounter

abbreviation i32_max :: int where "i32_max \<equiv> 2 ^ 31 - 1"

text \<open>\<open>now_ms\<close>: the clock read by \<open>SetAppVersion\<close>.\<close>

definition apply_command_to_device :: "int \<Rightarrow> device_command \<Rightarrow> device \<Rightarrow> device" where
  "apply_command_to_device now_ms command d =
     (case command of
        SetId pn \<Rightarrow> d\<lparr>dv_pn := pn\<rparr>
      | SetLid lid \<Rightarrow> d\<lparr>dv_lid := lid\<rparr>
      | SetPushName name \<Rightarrow> d\<lparr>dv_push_name := name\<rparr>
      | SetAccount account \<Rightarrow> d\<lparr>dv_account := account\<rparr>
      | SetAppVersion v \<Rightarrow> d\<lparr>dv_app_version := v, dv_app_version_last_fetched_ms := now_ms\<rparr>
      | SetDeviceProps ov \<Rightarrow> set_device_props ov d
      | SetClientProfile profile \<Rightarrow> set_client_profile profile d
      | SetPropsHash hash \<Rightarrow> d\<lparr>dv_props_hash := hash\<rparr>
      | SetPreKeyWatermarks next first \<Rightarrow> d\<lparr>dv_next_pre_key_id := next, dv_first_unupload_pre_key_id := first\<rparr>
      | SetAdvSecretKey key \<Rightarrow> d\<lparr>dv_adv_secret_key := key\<rparr>
      | SetNctSalt salt \<Rightarrow> d\<lparr>dv_nct_salt := salt, dv_nct_salt_sync_seen := True\<rparr>
      | SetNctSaltFromHistorySync salt \<Rightarrow>
          if salt \<noteq> [] \<and> \<not> dv_nct_salt_sync_seen d \<and> dv_nct_salt d = None
          then d\<lparr>dv_nct_salt := Some salt\<rparr> else d
      | SetServerCertChain chain \<Rightarrow> d\<lparr>dv_server_cert_chain := Some chain\<rparr>
      | ClearServerCertChain \<Rightarrow> d\<lparr>dv_server_cert_chain := None\<rparr>
      | IncrementLoginCounter \<Rightarrow> d\<lparr>dv_login_counter := min (dv_login_counter d + 1) i32_max\<rparr>)"

definition apply_commands :: "(int \<times> device_command) list \<Rightarrow> device \<Rightarrow> device" where
  "apply_commands cs d = fold (\<lambda>(now, c). apply_command_to_device now c) cs d"

section \<open>Properties\<close>

definition is_salt_set :: "device_command \<Rightarrow> bool" where
  "is_salt_set c \<longleftrightarrow> (case c of SetNctSalt _ \<Rightarrow> True | _ \<Rightarrow> False)"

lemma salt_kept:
  assumes "dv_nct_salt_sync_seen d" "list_all (\<lambda>(_, c). \<not> is_salt_set c) cs"
  shows "dv_nct_salt (apply_commands cs d) = dv_nct_salt d \<and> dv_nct_salt_sync_seen (apply_commands cs d)"
  using assms unfolding apply_commands_def
proof (induction cs arbitrary: d)
  case (Cons c cs)
  obtain now cmd where [simp]: "c = (now, cmd)" by (cases c)
  have "dv_nct_salt (apply_command_to_device now cmd d) = dv_nct_salt d \<and>
      dv_nct_salt_sync_seen (apply_command_to_device now cmd d)"
    using Cons.prems by (cases cmd) (auto simp: apply_command_to_device_def is_salt_set_def set_device_props_def
        set_client_profile_def Let_def)
  with Cons.IH [of "apply_command_to_device now cmd d"] Cons.prems show ?case by simp
qed simp

lemma login_counter_run:
  assumes "dv_login_counter d \<le> i32_max"
  shows "dv_login_counter (apply_commands cs d) =
    min (dv_login_counter d + int (length (filter (\<lambda>(_, c). c = IncrementLoginCounter) cs))) i32_max"
  using assms unfolding apply_commands_def
proof (induction cs arbitrary: d)
  case (Cons c cs)
  obtain now cmd where [simp]: "c = (now, cmd)" by (cases c)
  have "dv_login_counter (apply_command_to_device now cmd d) =
      (if cmd = IncrementLoginCounter then min (dv_login_counter d + 1) i32_max else dv_login_counter d)"
    by (cases cmd) (auto simp: apply_command_to_device_def set_device_props_def set_client_profile_def Let_def)
  with Cons.IH [of "apply_command_to_device now cmd d"] Cons.prems show ?case by (auto simp: min_def)
qed simp

text \<open>In any history of commands, the last salt set through app state sync
  stands whatever history syncs follow it, and the login counter is the number of increments, held at
  the largest 32-bit value.\<close>

theorem device_commands_history:
  assumes "list_all (\<lambda>(_, c). \<not> is_salt_set c) later" "dv_login_counter d \<le> i32_max"
  shows "dv_nct_salt (apply_commands (earlier @ (now, SetNctSalt salt) # later) d) = salt \<and>
    dv_login_counter (apply_commands (earlier @ later) d) =
      min (dv_login_counter d + int (length (filter (\<lambda>(_, c). c = IncrementLoginCounter) (earlier @ later)))) i32_max"
proof -
  let ?d = "apply_command_to_device now (SetNctSalt salt) (apply_commands earlier d)"
  have "apply_commands (earlier @ (now, SetNctSalt salt) # later) d = apply_commands later ?d"
    by (simp add: apply_commands_def)
  moreover have "dv_nct_salt ?d = salt" "dv_nct_salt_sync_seen ?d"
    by (simp_all add: apply_command_to_device_def)
  ultimately show ?thesis using salt_kept [OF _ assms(1), of ?d] login_counter_run [OF assms(2)] by simp
qed

definition sample_device :: device where
  "sample_device =
     \<lparr>dv_pn = None, dv_lid = None, dv_registration_id = 1, dv_noise_key = sample_kp 2, dv_identity_key = sample_kp 5,
      dv_signed_pre_key = sample_kp 6, dv_signed_pre_key_id = 1, dv_signed_pre_key_signature = replicate 64 0,
      dv_adv_secret_key = replicate 32 0, dv_account = None, dv_push_name = [], dv_app_version = (2, 3000, 1040878135),
      dv_app_version_last_fetched_ms = 0,
      dv_device_props = \<lparr>dp_os = Some (lit ''rust''), dp_version = None, dp_platform_type = None, dp_history_sync_config = None\<rparr>,
      dv_client_profile = [], dv_edge_routing_info = None, dv_props_hash = None, dv_next_pre_key_id = 1,
      dv_first_unupload_pre_key_id = 0, dv_server_has_prekeys = False, dv_nct_salt = None, dv_nct_salt_sync_seen = False,
      dv_server_cert_chain = None, dv_login_counter = i32_max - 1\<rparr>"

end
