(* ===== verification/Connect.thy ===== *)
theory Connect
  imports Device Framing
begin

text \<open>A connection attempt (src/handshake.rs): the choice of the handshake pattern from the cached server
  certificate, the messages over the framed transport, and what success or failure does to the
  cache.\<close>

section \<open>Errors\<close>

datatype conn_error =
  ConnTransport | ConnCore handshake_error | ConnTimeout | ConnStreamClosed | ConnDisconnected
  | ConnUnexpectedEvent str

definition is_transient :: "conn_error \<Rightarrow> bool" where
  "is_transient e \<longleftrightarrow>
     (case e of ConnTransport \<Rightarrow> True | ConnTimeout \<Rightarrow> True | ConnDisconnected \<Rightarrow> True | ConnStreamClosed \<Rightarrow> True
      | _ \<Rightarrow> False)"

text \<open>A formatted error inside \<open>CertVerification\<close> is \<open>CertVerificationOf\<close> here.\<close>

definition is_crypto_fatal :: "conn_error \<Rightarrow> bool" where
  "is_crypto_fatal e \<longleftrightarrow>
     (case e of
        ConnCore inner \<Rightarrow>
          (case inner of
             HsNoise n \<Rightarrow> (case n of NoiseDecrypt _ \<Rightarrow> True | CiphertextTooShort \<Rightarrow> True | NoiseInvalidKeyLength _ _ _ \<Rightarrow> True
                         | _ \<Rightarrow> False)
           | CertVerification _ \<Rightarrow> True
           | CertVerificationOf _ _ \<Rightarrow> True
           | IncompleteResponse \<Rightarrow> True
           | InvalidLength _ _ _ \<Rightarrow> True
           | InvalidKeyLength \<Rightarrow> True
           | ProtoDecode \<Rightarrow> True
           | Proto \<Rightarrow> False
           | HsCrypto _ \<Rightarrow> False)
      | _ \<Rightarrow> False)"

section \<open>Choosing the pattern\<close>

datatype handshake_pattern = Xx | Ik "u8 list"

abbreviation IK_FAILURE_THRESHOLD :: u32 where "IK_FAILURE_THRESHOLD \<equiv> 1"

definition select_pattern :: "device \<Rightarrow> u32 \<Rightarrow> int \<Rightarrow> handshake_pattern" where
  "select_pattern device ik_failures now_secs =
     (if \<not> is_registered device then Xx
      else if IK_FAILURE_THRESHOLD \<le> ik_failures then Xx
      else case dv_server_cert_chain device of
        None \<Rightarrow> Xx
      | Some chain \<Rightarrow>
          if now_secs < cn_not_before (cs_leaf chain) \<or> now_secs < cn_not_before (cs_intermediate chain) \<or>
             cn_not_after (cs_leaf chain) \<le> now_secs \<or> cn_not_after (cs_intermediate chain) \<le> now_secs
          then Xx else Ik (cn_key (cs_leaf chain)))"

definition should_persist_cert_chain :: "device \<Rightarrow> bool" where
  "should_persist_cert_chain device = is_registered device"

section \<open>Messages\<close>

text \<open>The world of one attempt: whether the transport takes the n-th message, how the wait for events ends
  once the given ones are used up, the clock, the random bytes of the ephemeral key, and the encoding
  of the client payload.\<close>

record net =
  nt_accepts :: "nat \<Rightarrow> bool"
  nt_end :: recv_error
  nt_now_secs :: int
  nt_now_millis :: int
  nt_random :: "u8 list"
  nt_payload :: "device \<Rightarrow> u8 list"

record conn =
  cx_sent :: "u8 list list"
  cx_events :: "transport_event list"
  cx_fallback_taken :: bool

type_synonym 'a cmeth = "(conn, conn_error, 'a) meth"

definition transport_send :: "net \<Rightarrow> u8 list \<Rightarrow> unit cmeth" where
  "transport_send W x c =
     (if nt_accepts W (length (cx_sent c)) then (Inr (), c\<lparr>cx_sent := cx_sent c @ [x]\<rparr>)
      else (Inl (Err ConnTransport), c))"

definition send_first_handshake_message :: "net \<Rightarrow> device \<Rightarrow> u8 list \<Rightarrow> unit cmeth" where
  "send_first_handshake_message W device payload_bytes =
     (let (header, used_edge_routing) = build_handshake_header (dv_edge_routing_info device) in
      bindS (liftS (mapE (\<lambda>_. ConnTransport) (encode_frame payload_bytes (Some header)))) (\<lambda>framed.
      transport_send W framed))"

definition recv_conn_error :: "recv_error \<Rightarrow> conn_error" where
  "recv_conn_error e =
     (case e of RecvDisconnected \<Rightarrow> ConnDisconnected | RecvStreamClosed \<Rightarrow> ConnStreamClosed | RecvTimeout \<Rightarrow> ConnTimeout)"

text \<open>Each attempt receives one frame with a fresh decoder.\<close>

definition recv_answer :: "net \<Rightarrow> u8 list cmeth" where
  "recv_answer W c =
     (let ((r, evs), _) = recv_frame (nt_end W) (cx_events c) frame_decoder_new
      in (mapE recv_conn_error r, c\<lparr>cx_events := evs\<rparr>))"

definition send_framed :: "net \<Rightarrow> u8 list \<Rightarrow> unit cmeth" where
  "send_framed W x =
     bindS (liftS (mapE (\<lambda>_. ConnTransport) (encode_frame x None))) (\<lambda>framed. transport_send W framed)"

record handshake_success =
  ok_write_cipher :: noise_cipher
  ok_read_cipher :: noise_cipher
  ok_server_cert_chain :: "verified_server_cert_chain option"

definition core :: "('a) hres \<Rightarrow> 'a cmeth" where
  "core r = liftS (mapE ConnCore r)"

definition run_xx_handshake :: "hs_env \<Rightarrow> net \<Rightarrow> device \<Rightarrow> handshake_success cmeth" where
  "run_xx_handshake E W device =
     (let client_payload = nt_payload W device;
          handshake_state = xx_new E (nt_random W) (dv_noise_key device) client_payload WA_CONN_HEADER;
          client_hello_bytes = xx_build_client_hello E handshake_state in
      bindS (send_first_handshake_message W device client_hello_bytes) (\<lambda>_.
      bindS (recv_answer W) (\<lambda>resp_frame.
      let (finish, handshake_state) = xx_read_server_hello_and_build_client_finish E resp_frame handshake_state in
      bindS (core finish) (\<lambda>client_finish_bytes.
      bindS (send_framed W client_finish_bytes) (\<lambda>_.
      bindS (core (xx_finish E handshake_state)) (\<lambda>outcome.
      returnS \<lparr>ok_write_cipher = xo_write_cipher outcome, ok_read_cipher = xo_read_cipher outcome,
               ok_server_cert_chain = Some (xo_server_cert_chain outcome)\<rparr>))))))"

definition ik_conclude :: "hs_env \<Rightarrow> net \<Rightarrow> ik_server_hello_outcome \<Rightarrow> handshake_success cmeth" where
  "ik_conclude E W outcome =
     (case outcome of
        IkContinue w r \<Rightarrow>
          returnS \<lparr>ok_write_cipher = w, ok_read_cipher = r, ok_server_cert_chain = None\<rparr>
      | IkFallback inputs \<Rightarrow>
          bindS (modifyS (\<lambda>c. c\<lparr>cx_fallback_taken := True\<rparr>)) (\<lambda>_.
          let (finish, fb) = xxf_build_client_finish E (xxf_from_ik_failure E inputs WA_CONN_HEADER) in
          bindS (core finish) (\<lambda>client_finish_bytes.
          bindS (send_framed W client_finish_bytes) (\<lambda>_.
          bindS (core (xxf_finish E fb)) (\<lambda>outcome.
          returnS \<lparr>ok_write_cipher = xo_write_cipher outcome, ok_read_cipher = xo_read_cipher outcome,
                   ok_server_cert_chain = Some (xo_server_cert_chain outcome)\<rparr>)))))"

definition run_ik_handshake :: "hs_env \<Rightarrow> net \<Rightarrow> device \<Rightarrow> u8 list \<Rightarrow> handshake_success cmeth" where
  "run_ik_handshake E W device server_static_pub =
     (let client_payload = nt_payload W device;
          (hello, ik) = ik_build_client_hello E
            (ik_new E (nt_random W) (dv_noise_key device) server_static_pub client_payload WA_CONN_HEADER) in
      bindS (core hello) (\<lambda>client_hello_bytes.
      bindS (send_first_handshake_message W device client_hello_bytes) (\<lambda>_.
      bindS (recv_answer W) (\<lambda>resp_frame.
      bindS (core (ik_read_server_hello E ik resp_frame)) (\<lambda>outcome.
      ik_conclude E W outcome)))))"

section \<open>One attempt\<close>

text \<open>The persisted device and the process-wide failure count; the result is the pair of ciphers the
  socket is built from, and the connection as it was left.\<close>

record client_state =
  cl_device :: device
  cl_ik_failures :: u32

definition do_handshake ::
    "hs_env \<Rightarrow> net \<Rightarrow> transport_event list \<Rightarrow> client_state \<Rightarrow>
     ((conn_error, noise_cipher \<times> noise_cipher) res \<times> conn) \<times> client_state" where
  "do_handshake E W events s =
     (let device_snapshot = cl_device s;
          pattern = select_pattern device_snapshot (cl_ik_failures s) (nt_now_secs W);
          (result, c) =
            (case pattern of
               Xx \<Rightarrow> run_xx_handshake E W device_snapshot
             | Ik server_static_pub \<Rightarrow> run_ik_handshake E W device_snapshot server_static_pub)
            \<lparr>cx_sent = [], cx_events = events, cx_fallback_taken = False\<rparr>
      in case result of
        Inr success \<Rightarrow>
          (let device =
             (case ok_server_cert_chain success of
                Some chain \<Rightarrow>
                  if should_persist_cert_chain device_snapshot
                  then apply_command_to_device (nt_now_millis W) (SetServerCertChain (cached_from chain)) device_snapshot
                  else device_snapshot
              | None \<Rightarrow> device_snapshot)
           in ((Inr (ok_write_cipher success, ok_read_cipher success), c), \<lparr>cl_device = device, cl_ik_failures = 0\<rparr>))
      | Inl (Err e) \<Rightarrow>
          if pattern \<noteq> Xx \<and> \<not> cx_fallback_taken c \<and> is_crypto_fatal e
          then ((Inl (Err e), c),
                \<lparr>cl_device = apply_command_to_device (nt_now_millis W) ClearServerCertChain device_snapshot,
                 cl_ik_failures = cl_ik_failures s + 1\<rparr>)
          else ((Inl (Err e), c), s)
      | Inl Panic \<Rightarrow> ((Inl Panic, c), s)
      | Inl OutOfFuel \<Rightarrow> ((Inl OutOfFuel, c), s))"

section \<open>The cache holds verified keys\<close>

definition cache_trusted :: "hs_env \<Rightarrow> device \<Rightarrow> bool" where
  "cache_trusted E d \<longleftrightarrow>
     (case dv_server_cert_chain d of None \<Rightarrow> True | Some c \<Rightarrow> \<exists>chain. chain_signed E chain \<and> c = cached_from chain)"

lemma run_xx_chain:
  assumes "run_xx_handshake E W d c = (Inr success, c')" "\<not> skip_cert_verify E"
  shows "\<exists>chain. ok_server_cert_chain success = Some chain \<and> chain_signed E chain"
proof -
  obtain s resp out where "xx_finish E (snd (xx_read_server_hello_and_build_client_finish E resp
      (xx_new E (nt_random W) (dv_noise_key d) (nt_payload W d) WA_CONN_HEADER))) = Inr out"
    "ok_server_cert_chain success = Some (xo_server_cert_chain out)"
    using assms(1) by (auto simp: run_xx_handshake_def core_def bindS_eq_Inr Let_def split_def)
  with assms(2) show ?thesis using finished_chain_signed by blast
qed

lemma ik_conclude_chain:
  assumes "ik_conclude E W outcome c = (Inr success, c')" "\<not> skip_cert_verify E" "ok_server_cert_chain success = Some chain"
  shows "chain_signed E chain"
proof -
  obtain inputs out where "xxf_finish E (snd (xxf_build_client_finish E (xxf_from_ik_failure E inputs WA_CONN_HEADER))) = Inr out"
    "chain = xo_server_cert_chain out"
    using assms(1,3)
    by (cases outcome) (auto simp: ik_conclude_def core_def bindS_eq_Inr Let_def split_def returnS_def)
  with assms(2) show ?thesis using finished_chain_signed [of E] by fastforce
qed

lemma run_ik_chain:
  assumes "run_ik_handshake E W d k c = (Inr success, c')" "\<not> skip_cert_verify E" "ok_server_cert_chain success = Some chain"
  shows "chain_signed E chain"
  using assms(1) ik_conclude_chain [OF _ assms(2,3)]
  by (auto simp: run_ik_handshake_def core_def bindS_eq_Inr Let_def split_def)

lemma do_handshake_trusted:
  assumes "\<not> skip_cert_verify E" "cache_trusted E (cl_device s)"
  shows "cache_trusted E (cl_device (snd (do_handshake E W events s)))"
proof -
  let ?c = "\<lparr>cx_sent = [], cx_events = events, cx_fallback_taken = False\<rparr>"
  have "cache_trusted E (apply_command_to_device n (SetServerCertChain (cached_from chain)) d)"
    if "chain_signed E chain" for n chain d
    using that by (auto simp: cache_trusted_def apply_command_to_device_def)
  moreover have "cache_trusted E (apply_command_to_device n ClearServerCertChain d)" for n d
    by (simp add: cache_trusted_def apply_command_to_device_def)
  ultimately show ?thesis
    using assms run_xx_chain [OF _ assms(1)] run_ik_chain [OF _ assms(1)]
    by (fastforce simp: do_handshake_def Let_def
        split: prod.splits handshake_pattern.splits sum.splits fault.splits option.splits)
qed

section \<open>Receiving the answer\<close>

lemma strict_prefix_undecoded:
  assumes "fd_buffer d @ x = frame f" "x \<noteq> []" "length f < FRAME_MAX_SIZE"
  shows "decode_frame d = (None, d)"
proof (cases "decode_frame d")
  case (Pair r d')
  show ?thesis
  proof (cases r)
    case (Some g)
    have "feed d x = \<lparr>fd_buffer = frame f @ []\<rparr>" using assms(1) by (simp add: feed_def)
    with decode_frame_more [of d g d' x] decode_frame_frame [OF assms(3), of "[]"] Pair Some
    have "feed d' x = \<lparr>fd_buffer = []\<rparr>" by simp
    then have "fd_buffer (feed d' x) = []" by simp
    with assms(2) show ?thesis by (simp add: feed_def)
  qed (use Pair decode_frame_None in auto)
qed

lemma recv_frame_chunks:
  assumes "fd_buffer d @ concat cs = frame f" "cs \<noteq> []" "last cs \<noteq> []" "length f < FRAME_MAX_SIZE"
  shows "recv_frame e (map DataReceived cs @ evs) d = ((Inr f, evs), \<lparr>fd_buffer = []\<rparr>)"
  using assms
proof (induction cs arbitrary: d rule: induct_list012)
  case (2 x)
  then have "feed d x = \<lparr>fd_buffer = frame f @ []\<rparr>" by (simp add: feed_def)
  with decode_frame_frame [OF assms(4), of "[]"] show ?case by simp
next
  case (3 x y cs)
  have "concat (y # cs) \<noteq> []" using 3(5) by (auto simp: split: if_splits)
  then have "decode_frame (feed d x) = (None, feed d x)"
    using 3(3) assms(4) by (intro strict_prefix_undecoded [of _ "concat (y # cs)" f]) (simp_all add: feed_def)
  moreover have "recv_frame e (map DataReceived (y # cs) @ evs) (feed d x) = ((Inr f, evs), \<lparr>fd_buffer = []\<rparr>)"
    using 3 by (intro 3(2)) (simp_all add: feed_def)
  ultimately show ?case by simp
qed simp

lemma run_xx_answered:
  fixes device :: device
  assumes "nt_accepts W 0" "nt_accepts W 1"
    and S: "S = xx_new E (nt_random W) (dv_noise_key device) (nt_payload W device) WA_CONN_HEADER"
    and hello: "length (xx_build_client_hello E S) < FRAME_MAX_SIZE"
    and answer: "concat cs = frame answer" "cs \<noteq> []" "last cs \<noteq> []" "length answer < FRAME_MAX_SIZE"
    and finish: "xx_read_server_hello_and_build_client_finish E answer S = (Inr finish, S')" "length finish < FRAME_MAX_SIZE"
    and out: "xx_finish E S' = Inr out"
  shows "run_xx_handshake E W device \<lparr>cx_sent = [], cx_events = map DataReceived cs @ evs, cx_fallback_taken = b\<rparr> =
    (Inr \<lparr>ok_write_cipher = xo_write_cipher out, ok_read_cipher = xo_read_cipher out,
          ok_server_cert_chain = Some (xo_server_cert_chain out)\<rparr>,
     \<lparr>cx_sent = [fst (build_handshake_header (dv_edge_routing_info device)) @ frame (xx_build_client_hello E S), frame finish],
      cx_events = evs, cx_fallback_taken = b\<rparr>)"
proof -
  have "recv_frame e (map DataReceived cs @ evs) frame_decoder_new = ((Inr answer, evs), \<lparr>fd_buffer = []\<rparr>)" for e
    using answer by (intro recv_frame_chunks) (simp_all add: frame_decoder_new_def)
  then have r: "recv_answer W \<lparr>cx_sent = x, cx_events = map DataReceived cs @ evs, cx_fallback_taken = b\<rparr> =
      (Inr answer, \<lparr>cx_sent = x, cx_events = evs, cx_fallback_taken = b\<rparr>)" for x
    by (simp add: recv_answer_def)
  have h: "encode_frame x (Some h) = Inr (h @ frame x)" if "length x < FRAME_MAX_SIZE" for x h
    using that by (simp add: encode_frame_def encode_frame_into_def frame_def Let_def)
  have f: "encode_frame finish None = Inr (frame finish)" using finish(2) by (simp add: encode_frame_Inr)
  show ?thesis
    unfolding run_xx_handshake_def Let_def S [symmetric]
    using assms(1,2) h [OF hello] f r finish(1) out
    by (simp add: send_first_handshake_message_def send_framed_def transport_send_def core_def bindS_Inr split_def)
qed

text \<open>An IK attempt whose answer is refused ends with the error of the handshake, before the fall back.\<close>

lemma run_ik_refused:
  fixes device :: device
  assumes "nt_accepts W 0"
    and hello: "ik_build_client_hello E (ik_new E (nt_random W) (dv_noise_key device) k (nt_payload W device) WA_CONN_HEADER) = (Inr hello, ik)"
      "length hello < FRAME_MAX_SIZE"
    and answer: "concat cs = frame answer" "cs \<noteq> []" "last cs \<noteq> []" "length answer < FRAME_MAX_SIZE"
    and refused: "ik_read_server_hello E ik answer = Inl (Err x)"
  shows "run_ik_handshake E W device k \<lparr>cx_sent = [], cx_events = map DataReceived cs @ evs, cx_fallback_taken = b\<rparr> =
    (Inl (Err (ConnCore x)),
     \<lparr>cx_sent = [fst (build_handshake_header (dv_edge_routing_info device)) @ frame hello], cx_events = evs, cx_fallback_taken = b\<rparr>)"
proof -
  have "recv_frame e (map DataReceived cs @ evs) frame_decoder_new = ((Inr answer, evs), \<lparr>fd_buffer = []\<rparr>)" for e
    using answer by (intro recv_frame_chunks) (simp_all add: frame_decoder_new_def)
  then have r: "recv_answer W \<lparr>cx_sent = x, cx_events = map DataReceived cs @ evs, cx_fallback_taken = b\<rparr> =
      (Inr answer, \<lparr>cx_sent = x, cx_events = evs, cx_fallback_taken = b\<rparr>)" for x
    by (simp add: recv_answer_def)
  have h: "encode_frame hello (Some h) = Inr (h @ frame hello)" for h
    using hello(2) by (simp add: encode_frame_def encode_frame_into_def frame_def Let_def)
  show ?thesis
    unfolding run_ik_handshake_def Let_def hello(1)
    using assms(1) h r refused
    by (simp add: send_first_handshake_message_def transport_send_def core_def bindS_Inr bindS_Inl split_def)
qed

section \<open>Sessions of attempts\<close>

text \<open>What happens to the client between its first start and some later moment: connection attempts with
  any network behaviour, and any other device command.  Only \<open>do_handshake\<close> issues
  \<open>SetServerCertChain\<close>.\<close>

inductive client_step :: "hs_env \<Rightarrow> client_state \<Rightarrow> client_state \<Rightarrow> bool" for E where
  attempt: "client_step E s (snd (do_handshake E W events s))"
| command: "(\<forall>chain. cmd \<noteq> SetServerCertChain chain) \<Longrightarrow>
    client_step E s (s\<lparr>cl_device := apply_command_to_device now cmd (cl_device s)\<rparr>)"

lemma client_step_trusted:
  assumes "client_step E s s'" "\<not> skip_cert_verify E" "cache_trusted E (cl_device s)"
  shows "cache_trusted E (cl_device s')"
  using assms
proof cases
  case (command cmd now)
  have "dv_server_cert_chain (apply_command_to_device now cmd (cl_device s)) \<in> {dv_server_cert_chain (cl_device s), None}"
    using command(2) by (cases cmd) (auto simp: apply_command_to_device_def set_device_props_def set_client_profile_def Let_def)
  with command(1) assms(3) show ?thesis by (auto simp: cache_trusted_def)
qed (simp add: do_handshake_trusted)

lemma sessions_trusted:
  assumes "(client_step E)\<^sup>*\<^sup>* s s'" "\<not> skip_cert_verify E" "cache_trusted E (cl_device s)"
  shows "cache_trusted E (cl_device s')"
  using assms by (induction rule: rtranclp_induct) (auto intro: client_step_trusted)

section \<open>A first connection completes\<close>

lemma xx_connects:
  fixes s :: client_state and E :: hs_env
  defines "S \<equiv> \<lambda>W. xx_new E (nt_random W) (dv_noise_key (cl_device s)) (nt_payload W (cl_device s)) WA_CONN_HEADER"
  assumes "nt_accepts W 0" "nt_accepts W 1" "select_pattern (cl_device s) (cl_ik_failures s) (nt_now_secs W) = Xx"
    and "length (xx_build_client_hello E (S W)) < FRAME_MAX_SIZE"
    and "concat cs = frame answer" "cs \<noteq> []" "last cs \<noteq> []" "length answer < FRAME_MAX_SIZE"
    and "xx_read_server_hello_and_build_client_finish E answer (S W) = (Inr finish, S')" "length finish < FRAME_MAX_SIZE"
    and "xx_finish E S' = Inr out"
  shows "do_handshake E W (map DataReceived cs @ evs) s =
    ((Inr (xo_write_cipher out, xo_read_cipher out),
      \<lparr>cx_sent = [fst (build_handshake_header (dv_edge_routing_info (cl_device s))) @ frame (xx_build_client_hello E (S W)), frame finish],
       cx_events = evs, cx_fallback_taken = False\<rparr>),
     \<lparr>cl_device = (if is_registered (cl_device s)
        then (cl_device s)\<lparr>dv_server_cert_chain := Some (cached_from (xo_server_cert_chain out))\<rparr> else cl_device s),
      cl_ik_failures = 0\<rparr>)"
  using run_xx_answered [OF assms(2,3) _ assms(5-12)] assms(4)
  by (simp add: S_def do_handshake_def should_persist_cert_chain_def apply_command_to_device_def Let_def)

section \<open>A sample connection\<close>

definition sample_net :: net where
  "sample_net = \<lparr>nt_accepts = (\<lambda>_. True), nt_end = RecvTimeout, nt_now_secs = 1, nt_now_millis = 1000,
     nt_random = replicate 32 9, nt_payload = (\<lambda>_. [1, 2])\<rparr>"

definition sample_client :: client_state where
  "sample_client = \<lparr>cl_device = sample_device\<lparr>dv_pn := Some (jid_pn [49])\<rparr>, cl_ik_failures = 0\<rparr>"

lemma length_put_opt: "length (put_opt x) = (case x of None \<Rightarrow> 1 | Some b \<Rightarrow> 2 * length b + 2)"
  by (simp add: put_opt_def length_concat comp_def sum_list_triv split: option.split)

lemma sample_message_lengths:
  "length (sample_encode (build_client_hello_msg e)) = 2 * length e + 7"
  "length (sample_encode (server_hello_msg e (Some x) p)) = 2 * length e + 2 * length x + 2 * length p + 9"
  "length (sample_encode (build_client_finish_msg x p)) = 2 * length x + 2 * length p + 7"
  by (simp_all add: sample_encode_def build_client_hello_msg_def server_hello_msg_def build_client_finish_msg_def length_put_opt)

abbreviation sample_state :: xx_handshake_state where
  "sample_state \<equiv> xx_new sample_hs_env (nt_random sample_net) (dv_noise_key (cl_device sample_client))
     (nt_payload sample_net (cl_device sample_client)) WA_CONN_HEADER"

lemma sample_connection:
  "\<exists>answer srv finish S' out.
    xx_serve sample_hs_env NOISE_PATTERN_XX WA_CONN_HEADER (sample_kp 3) (replicate 32 3) (sample_kp 4)
      (xx_build_client_hello sample_hs_env sample_state) = (Inr answer, srv) \<and>
    xx_read_server_hello_and_build_client_finish sample_hs_env answer sample_state = (Inr finish, S') \<and>
    xx_finish sample_hs_env S' = Inr out \<and> xo_server_cert_chain out = sample_chain \<and>
    length (xx_build_client_hello sample_hs_env sample_state) < FRAME_MAX_SIZE \<and>
    length answer < FRAME_MAX_SIZE \<and> length finish < FRAME_MAX_SIZE"
proof -
  let ?S = sample_state
  have S: "?S = xx_new sample_hs_env (replicate 32 9) (sample_kp 2) [1, 2] WA_CONN_HEADER"
    by (simp add: sample_net_def sample_client_def sample_device_def)
  have e: "hm_encode sample_hs_env = sample_encode" by (simp add: sample_hs_env_def)
  have l: "length (kp_pub_bytes (sample_kp x)) = 32" for x by (simp add: sample_kp_pub)
  have "length (replicate 32 (9 :: u8)) = 32" by simp
  then obtain answer srv finish S' out ct1 ct2 c3 c4 where x:
    "xx_serve sample_hs_env NOISE_PATTERN_XX WA_CONN_HEADER (sample_kp 3) (replicate 32 3) (sample_kp 4)
      (xx_build_client_hello sample_hs_env ?S) = (Inr answer, srv)"
    "xx_read_server_hello_and_build_client_finish sample_hs_env answer ?S = (Inr finish, S')"
    "xx_finish sample_hs_env S' = Inr out" "xo_server_cert_chain out = sample_chain"
    "answer = sample_encode (server_hello_msg (kp_pub_bytes (sample_kp 4)) (Some ct1) ct2)"
    "length ct1 = 48" "length ct2 = length (replicate 32 (3 :: u8)) + 16"
    "finish = sample_encode (build_client_finish_msg c3 c4)" "length c3 = 48" "length c4 = length [1, 2 :: u8] + 16"
    using xx_agrees_sized [OF sample_hs_env_ok _ sample_kp_ok [of 2] sample_kp_ok sample_kp_ok [of 4] sample_cert,
        of "replicate 32 9" WA_CONN_HEADER "[1, 2]"] unfolding S e by blast
  moreover have "length (xx_build_client_hello sample_hs_env ?S) = 71"
    using l [of 9] unfolding S
    by (simp add: xx_build_client_hello_def e sample_message_lengths xx_new_def sample_kp_def sample_hs_env_def Let_def)
  moreover have "length answer < FRAME_MAX_SIZE" "length finish < FRAME_MAX_SIZE"
    using x(6,7,9,10) l [of 4] unfolding x(5,8) sample_message_lengths by simp_all
  ultimately show ?thesis by (intro exI conjI) (assumption | simp)+
qed

lemma sample_client_xx: "select_pattern (cl_device sample_client) (cl_ik_failures sample_client) (nt_now_secs sample_net) = Xx"
  by (simp add: select_pattern_def sample_client_def sample_device_def)

lemma sample_accepts: "nt_accepts sample_net n"
  by (simp add: sample_net_def)

lemma sample_connected:
  "\<exists>events. cl_device (snd (do_handshake sample_hs_env sample_net events sample_client)) =
      (cl_device sample_client)\<lparr>dv_server_cert_chain := Some (cached_from sample_chain)\<rparr> \<and>
    cl_ik_failures (snd (do_handshake sample_hs_env sample_net events sample_client)) = 0"
proof -
  obtain answer finish S' out where x:
    "xx_read_server_hello_and_build_client_finish sample_hs_env answer sample_state = (Inr finish, S')"
    "xx_finish sample_hs_env S' = Inr out" "xo_server_cert_chain out = sample_chain"
    "length (xx_build_client_hello sample_hs_env sample_state) < FRAME_MAX_SIZE"
    "length answer < FRAME_MAX_SIZE" "length finish < FRAME_MAX_SIZE"
    using sample_connection by blast
  have "frame answer \<noteq> []" by (simp add: frame_def u32_to_be_bytes_def)
  then have "do_handshake sample_hs_env sample_net (map DataReceived [frame answer] @ []) sample_client =
    ((Inr (xo_write_cipher out, xo_read_cipher out),
      \<lparr>cx_sent = [fst (build_handshake_header (dv_edge_routing_info (cl_device sample_client))) @
         frame (xx_build_client_hello sample_hs_env sample_state), frame finish],
       cx_events = [], cx_fallback_taken = False\<rparr>),
     \<lparr>cl_device = (if is_registered (cl_device sample_client)
        then (cl_device sample_client)\<lparr>dv_server_cert_chain := Some (cached_from (xo_server_cert_chain out))\<rparr> else cl_device sample_client),
      cl_ik_failures = 0\<rparr>)"
    by (intro xx_connects [OF sample_accepts sample_accepts sample_client_xx x(4) _ _ _ x(5) x(1) x(6) x(2)]) simp_all
  moreover have "is_registered (cl_device sample_client)" by (simp add: is_registered_def sample_client_def)
  ultimately show ?thesis using x(3) by (intro exI [of _ "map DataReceived [frame answer] @ []"]) simp
qed

text \<open>The same client after that connection, and a server whose answer is not a message.\<close>

definition sample_cached_client :: client_state where
  "sample_cached_client = sample_client\<lparr>cl_device := (cl_device sample_client)\<lparr>dv_server_cert_chain := Some (cached_from sample_chain)\<rparr>\<rparr>"

lemma sample_cached_ik:
  "select_pattern (cl_device sample_cached_client) (cl_ik_failures sample_cached_client) (nt_now_secs sample_net) = Ik (replicate 32 3)"
  by (simp add: select_pattern_def is_registered_def sample_cached_client_def sample_client_def cached_from_def sample_chain_def sample_net_def)

lemma sample_refused:
  "\<exists>c s'. do_handshake sample_hs_env sample_net [DataReceived (frame [])] sample_cached_client =
      ((Inl (Err (ConnCore ProtoDecode)), c), s') \<and> \<not> cx_fallback_taken c"
proof -
  let ?d = "cl_device sample_cached_client"
  let ?ik = "ik_new sample_hs_env (nt_random sample_net) (dv_noise_key ?d) (replicate 32 3) (nt_payload sample_net ?d) WA_CONN_HEADER"
  have kp: "dv_noise_key ?d = sample_kp 2" by (simp add: sample_cached_client_def sample_client_def sample_device_def)
  obtain c1 c2 st where h: "ik_build_client_hello sample_hs_env ?ik =
      (Inr (hm_encode sample_hs_env (build_ik_client_hello (kp_pub_bytes (key_pair_generate (hs_curve sample_hs_env) (nt_random sample_net))) c1 c2)),
       ?ik\<lparr>is_noise := st\<rparr>)" "length c1 = 48" "length c2 = length (nt_payload sample_net ?d) + 16"
    using ik_hello_sent [OF sample_hs_env_ok, of "nt_random sample_net" "replicate 32 3" "dv_noise_key ?d"] sample_kp_ok [of 2] kp
    by (fastforce simp: sample_net_def)
  have "length (hm_encode sample_hs_env (build_ik_client_hello (kp_pub_bytes (key_pair_generate (hs_curve sample_hs_env) (nt_random sample_net))) c1 c2))
      < FRAME_MAX_SIZE"
    using h(2,3) by (simp add: sample_hs_env_def sample_encode_def build_ik_client_hello_def length_put_opt sample_net_def
        key_pair_generate_def sample_curve_def public_key_bytes_def Let_def)
  moreover have "ik_read_server_hello sample_hs_env s [] = Inl (Err ProtoDecode)" for s
    by (simp add: ik_read_server_hello_def parse_server_hello_body_def sample_hs_env_def sample_decode_def get_three_def)
  ultimately have "run_ik_handshake sample_hs_env sample_net ?d (replicate 32 3) \<lparr>cx_sent = [], cx_events = map DataReceived [frame []] @ [], cx_fallback_taken = False\<rparr> =
    (Inl (Err (ConnCore ProtoDecode)),
     \<lparr>cx_sent = [fst (build_handshake_header (dv_edge_routing_info ?d)) @ frame (hm_encode sample_hs_env
        (build_ik_client_hello (kp_pub_bytes (key_pair_generate (hs_curve sample_hs_env) (nt_random sample_net))) c1 c2))],
      cx_events = [], cx_fallback_taken = False\<rparr>)"
    by (intro run_ik_refused [where answer = "[]", OF sample_accepts h(1)]) (simp_all add: frame_def u32_to_be_bytes_def)
  then show ?thesis using sample_cached_ik by (simp add: do_handshake_def Let_def is_crypto_fatal_def)
qed

section \<open>Properties\<close>

text \<open>C5: from a device without cached certificates, after any sequence of
  connection attempts and device commands, whatever the network sent, the key that is used for IK is
  the leaf key of a chain with verified signatures, within the validity of both certificates.\<close>

theorem cached_key_always_verified:
  assumes "(client_step E)\<^sup>*\<^sup>* s s'" "dv_server_cert_chain (cl_device s) = None" "\<not> skip_cert_verify E"
    and "select_pattern (cl_device s') (cl_ik_failures s') now = Ik key"
  shows "\<exists>chain. chain_signed E chain \<and> vc_leaf_key chain = key \<and>
    vc_leaf_not_before chain \<le> now \<and> now < vc_leaf_not_after chain \<and>
    vc_intermediate_not_before chain \<le> now \<and> now < vc_intermediate_not_after chain"
proof -
  have "cache_trusted E (cl_device s')"
    using sessions_trusted [OF assms(1,3)] assms(2) by (simp add: cache_trusted_def)
  with assms(4) show ?thesis
    by (fastforce simp: select_pattern_def cache_trusted_def cached_from_def split: if_splits option.splits)
qed

theorem cached_key_always_verified_witness:
  "\<exists>s'. (client_step sample_hs_env)\<^sup>*\<^sup>* sample_client s' \<and>
    select_pattern (cl_device s') (cl_ik_failures s') 1 = Ik (replicate 32 3) \<and>
    (\<exists>chain. chain_signed sample_hs_env chain \<and> vc_leaf_key chain = replicate 32 3 \<and>
      vc_leaf_not_before chain \<le> 1 \<and> 1 < vc_leaf_not_after chain \<and>
      vc_intermediate_not_before chain \<le> 1 \<and> 1 < vc_intermediate_not_after chain)"
proof -
  obtain events where e: "cl_device (snd (do_handshake sample_hs_env sample_net events sample_client)) =
      (cl_device sample_client)\<lparr>dv_server_cert_chain := Some (cached_from sample_chain)\<rparr>"
    "cl_ik_failures (snd (do_handshake sample_hs_env sample_net events sample_client)) = 0"
    using sample_connected by blast
  let ?s = "snd (do_handshake sample_hs_env sample_net events sample_client)"
  have r: "(client_step sample_hs_env)\<^sup>*\<^sup>* sample_client ?s" by (rule r_into_rtranclp) (rule attempt)
  have p: "select_pattern (cl_device ?s) (cl_ik_failures ?s) 1 = Ik (replicate 32 3)"
    unfolding e by (simp add: select_pattern_def is_registered_def sample_client_def cached_from_def sample_chain_def)
  have "dv_server_cert_chain (cl_device sample_client) = None" "\<not> skip_cert_verify sample_hs_env"
    by (simp_all add: sample_client_def sample_device_def sample_hs_env_def)
  from cached_key_always_verified [OF r this p] r p show ?thesis by blast
qed



text \<open>C9: with a server that answers the client's hello by the XX pattern, over a
  transport that delivers the answer in any chunks, a connection attempt with XX ends with the ciphers
  the server derives from the finish message it is sent, resets the failure count and caches the
  verified chain of a registered device.\<close>

theorem first_connection_completes:
  fixes s :: client_state and E :: hs_env
  defines "S \<equiv> \<lambda>W. xx_new E (nt_random W) (dv_noise_key (cl_device s)) (nt_payload W (cl_device s)) WA_CONN_HEADER"
  assumes "hs_env_ok E" "length (nt_random W) = 32" "nt_accepts W 0" "nt_accepts W 1"
    and "key_pair_ok (hs_curve E) (dv_noise_key (cl_device s))" "key_pair_ok (hs_curve E) identity"
      "key_pair_ok (hs_curve E) server_eph"
    and "verify_server_cert E cert (kp_pub_bytes identity) = Inr chain"
    and "select_pattern (cl_device s) (cl_ik_failures s) (nt_now_secs W) = Xx"
    and "xx_serve E NOISE_PATTERN_XX WA_CONN_HEADER identity cert server_eph (xx_build_client_hello E (S W)) = (Inr answer, srv)"
    and "concat cs = frame answer" "cs \<noteq> []" "last cs \<noteq> []"
    and "length (xx_build_client_hello E (S W)) < FRAME_MAX_SIZE" "length answer < FRAME_MAX_SIZE"
      "\<forall>finish S'. xx_read_server_hello_and_build_client_finish E answer (S W) = (Inr finish, S') \<longrightarrow> length finish < FRAME_MAX_SIZE"
  shows "\<exists>write read finish c s'.
    do_handshake E W (map DataReceived cs @ evs) s = ((Inr (write, read), c), s') \<and>
    cx_sent c = [fst (build_handshake_header (dv_edge_routing_info (cl_device s))) @ frame (xx_build_client_hello E (S W)), frame finish] \<and>
    cx_events c = evs \<and>
    xx_serve_finish E server_eph finish srv =
      Inr (kp_pub_bytes (dv_noise_key (cl_device s)), nt_payload W (cl_device s), write, read) \<and>
    cl_ik_failures s' = 0 \<and>
    (is_registered (cl_device s) \<longrightarrow> dv_server_cert_chain (cl_device s') = Some (cached_from chain))"
proof -
  obtain finish S' out where x:
    "xx_read_server_hello_and_build_client_finish E answer (S W) = (Inr finish, S')"
    "xx_finish E S' = Inr out" "xo_server_cert_chain out = chain"
    "xx_serve_finish E server_eph finish srv =
      Inr (kp_pub_bytes (dv_noise_key (cl_device s)), nt_payload W (cl_device s), xo_write_cipher out, xo_read_cipher out)"
    using xx_agrees_sized [OF assms(2,3,6-9), of WA_CONN_HEADER "nt_payload W (cl_device s)"] assms(11) unfolding S_def by auto
  then have "length finish < FRAME_MAX_SIZE" using assms(17) by blast
  from xx_connects [OF assms(4,5,10) assms(15) [unfolded S_def] assms(12-14,16) x(1) [unfolded S_def] this x(2), of evs] x(3,4)
  show ?thesis by (simp add: S_def, blast)
qed

theorem first_connection_completes_witness:
  "\<exists>answer srv write read finish c s'.
    do_handshake sample_hs_env sample_net (map DataReceived [frame answer] @ []) sample_client = ((Inr (write, read), c), s') \<and>
    xx_serve_finish sample_hs_env (sample_kp 4) finish srv =
      Inr (kp_pub_bytes (dv_noise_key (cl_device sample_client)), nt_payload sample_net (cl_device sample_client), write, read) \<and>
    dv_server_cert_chain (cl_device s') = Some (cached_from sample_chain)"
proof -
  obtain answer srv finish S' where x:
    "xx_serve sample_hs_env NOISE_PATTERN_XX WA_CONN_HEADER (sample_kp 3) (replicate 32 3) (sample_kp 4)
      (xx_build_client_hello sample_hs_env sample_state) = (Inr answer, srv)"
    "xx_read_server_hello_and_build_client_finish sample_hs_env answer sample_state = (Inr finish, S')"
    "length (xx_build_client_hello sample_hs_env sample_state) < FRAME_MAX_SIZE"
    "length answer < FRAME_MAX_SIZE" "length finish < FRAME_MAX_SIZE"
    using sample_connection by blast
  have k: "key_pair_ok (hs_curve sample_hs_env) (dv_noise_key (cl_device sample_client))"
    using sample_kp_ok [of 2] by (simp add: sample_client_def sample_device_def)
  have n: "length (nt_random sample_net) = 32" by (simp add: sample_net_def)
  have f: "concat [frame answer] = frame answer" "[frame answer] \<noteq> []" "last [frame answer] \<noteq> []"
    by (simp_all add: frame_def u32_to_be_bytes_def)
  have r: "is_registered (cl_device sample_client)" by (simp add: is_registered_def sample_client_def)
  from x(2,5) have "\<forall>finish S'. xx_read_server_hello_and_build_client_finish sample_hs_env answer sample_state = (Inr finish, S') \<longrightarrow>
      length finish < FRAME_MAX_SIZE" by simp
  from first_connection_completes [OF sample_hs_env_ok n sample_accepts sample_accepts k sample_kp_ok sample_kp_ok
      sample_cert sample_client_xx x(1) f x(3,4) this, of "[]"] r
  show ?thesis by blast
qed

end
