(* ===== verification/Symmetric.thy ===== *)
theory Symmetric
  imports Gcm
begin

text \<open>Message authentication codes (wacore/libsignal/src/crypto/hash.rs) and AES-256-CBC with padding: the
  provider's two operations (provider.rs) and their checked wrappers (aes_cbc.rs).  HMAC, HKDF and the
  block mode come from other crates and are parameters.\<close>

text \<open>\<open>cbc_encrypt_padded key iv room p\<close> encrypts \<open>p\<close> with PKCS7 padding into a buffer of \<open>room\<close> bytes.\<close>

record mac_prims =
  hmac_sha1 :: "u8 list \<Rightarrow> u8 list \<Rightarrow> u8 list"
  hmac_sha256 :: "u8 list \<Rightarrow> u8 list \<Rightarrow> u8 list"
  hmac_sha512 :: "u8 list \<Rightarrow> u8 list \<Rightarrow> u8 list"
  hkdf_extract :: "u8 list option \<Rightarrow> u8 list \<Rightarrow> u8 list"
  hkdf_expand :: "u8 list \<Rightarrow> u8 list \<Rightarrow> nat \<Rightarrow> u8 list option"
  cbc_encrypt_padded :: "u8 list \<Rightarrow> u8 list \<Rightarrow> nat \<Rightarrow> u8 list \<Rightarrow> u8 list option"
  cbc_decrypt_padded :: "u8 list \<Rightarrow> u8 list \<Rightarrow> u8 list \<Rightarrow> u8 list option"

definition pad_size :: "nat \<Rightarrow> nat" where
  "pad_size n = 16 - n mod 16"

definition padded_len :: "nat \<Rightarrow> nat" where
  "padded_len n = n + pad_size n"

definition mac_prims_ok :: "mac_prims \<Rightarrow> bool" where
  "mac_prims_ok M \<longleftrightarrow>
     (\<forall>k x. length (hmac_sha1 M k x) = 20) \<and> (\<forall>k x. length (hmac_sha256 M k x) = 32) \<and> (\<forall>k x. length (hmac_sha512 M k x) = 64) \<and>
     (\<forall>prk f n. n \<le> 255 * 32 \<longrightarrow> (\<exists>k. hkdf_expand M prk f n = Some k \<and> length k = n)) \<and>
     (\<forall>k iv room p. padded_len (length p) \<le> room \<longrightarrow>
        (\<exists>c. cbc_encrypt_padded M k iv room p = Some c \<and> length c = padded_len (length p) \<and>
             cbc_decrypt_padded M k iv c = Some p))"

section \<open>Message authentication codes\<close>

datatype mac_alg = HmacSha256 | HmacSha1 | HmacSha512

text \<open>A code in progress: its algorithm, its key and what has been fed so far.\<close>

record cryptographic_mac =
  cm_alg :: mac_alg
  cm_key :: "u8 list"
  cm_input :: "u8 list"

definition mac_new :: "str \<Rightarrow> u8 list \<Rightarrow> cryptographic_mac cres" where
  "mac_new algo key =
     (if algo = lit ''HMACSha1'' \<or> algo = lit ''HmacSha1'' then Inr \<lparr>cm_alg = HmacSha1, cm_key = key, cm_input = []\<rparr>
      else if algo = lit ''HMACSha256'' \<or> algo = lit ''HmacSha256'' then Inr \<lparr>cm_alg = HmacSha256, cm_key = key, cm_input = []\<rparr>
      else if algo = lit ''HMACSha512'' \<or> algo = lit ''HmacSha512'' then Inr \<lparr>cm_alg = HmacSha512, cm_key = key, cm_input = []\<rparr>
      else Inl (Err (UnknownAlgorithm (lit ''MAC'') algo)))"

definition mac_update :: "u8 list \<Rightarrow> cryptographic_mac \<Rightarrow> cryptographic_mac" where
  "mac_update x m = m\<lparr>cm_input := cm_input m @ x\<rparr>"

definition output_size :: "cryptographic_mac \<Rightarrow> nat" where
  "output_size m = (case cm_alg m of HmacSha1 \<Rightarrow> 20 | HmacSha256 \<Rightarrow> 32 | HmacSha512 \<Rightarrow> 64)"

text \<open>\<open>finalize_reset\<close>: the code of the input so far, and a code in progress with no input.\<close>

definition mac_finalize :: "mac_prims \<Rightarrow> cryptographic_mac \<Rightarrow> u8 list \<times> cryptographic_mac" where
  "mac_finalize M m =
     (let f = (case cm_alg m of HmacSha1 \<Rightarrow> hmac_sha1 M | HmacSha256 \<Rightarrow> hmac_sha256 M | HmacSha512 \<Rightarrow> hmac_sha512 M)
      in (f (cm_key m) (cm_input m), m\<lparr>cm_input := []\<rparr>))"

text \<open>The result is the buffer after the call.\<close>

definition finalize_into :: "mac_prims \<Rightarrow> u8 list \<Rightarrow> cryptographic_mac \<Rightarrow> (u8 list \<times> nat) cres \<times> cryptographic_mac" where
  "finalize_into M out m =
     (if length out < output_size m then (Inl (Err (OutputBufferTooSmall (output_size m) (length out))), m)
      else let (result, m) = mac_finalize M m in (Inr (put_at out 0 result, output_size m), m))"

definition finalize_sha256_array :: "mac_prims \<Rightarrow> cryptographic_mac \<Rightarrow> u8 list cres \<times> cryptographic_mac" where
  "finalize_sha256_array M m =
     (if cm_alg m = HmacSha256 then let (result, m) = mac_finalize M m in (Inr result, m)
      else (Inl (Err (UnknownAlgorithm (lit ''MAC'') (lit ''Expected HmacSha256 for finalize_sha256_array''))), m))"

text \<open>The code of a sequence of updates; the callers' \<open>expect\<close> on the algorithm name is a panic.\<close>

definition mac_of :: "mac_prims \<Rightarrow> str \<Rightarrow> u8 list \<Rightarrow> u8 list list \<Rightarrow> ('e, u8 list) res" where
  "mac_of M algo key parts =
     (case mac_new algo key of
        Inr m \<Rightarrow> Inr (fst (mac_finalize M (fold mac_update parts m)))
      | Inl _ \<Rightarrow> Inl Panic)"

lemma fold_mac_update: "fold mac_update parts m = m\<lparr>cm_input := cm_input m @ concat parts\<rparr>"
  by (induction parts arbitrary: m) (simp_all add: mac_update_def)

lemma mac_of_sha256: "mac_of M (lit ''HmacSha256'') key parts = Inr (hmac_sha256 M key (concat parts))"
  by (simp add: mac_of_def mac_new_def mac_finalize_def fold_mac_update lit_def)

lemma mac_of_sha512: "mac_of M (lit ''HmacSha512'') key parts = Inr (hmac_sha512 M key (concat parts))"
  by (simp add: mac_of_def mac_new_def mac_finalize_def fold_mac_update lit_def)

section \<open>Block mode\<close>

definition aes_256_cbc_encrypt ::
    "mac_prims \<Rightarrow> u8 list \<Rightarrow> u8 list \<Rightarrow> u8 list \<Rightarrow> u8 list \<Rightarrow> (provider_error, u8 list) res" where
  "aes_256_cbc_encrypt M key iv plaintext out =
     (let padding = 16 - length plaintext mod 16;
          encrypted_size = length plaintext + padding in
      bindR (ok_or (cbc_encrypt_padded M key iv encrypted_size plaintext) BadInput) (\<lambda>written.
      Inr (out @ written)))"

definition aes_256_cbc_decrypt ::
    "mac_prims \<Rightarrow> u8 list \<Rightarrow> u8 list \<Rightarrow> u8 list \<Rightarrow> (provider_error, u8 list) res" where
  "aes_256_cbc_decrypt M key iv ciphertext =
     (if ciphertext = [] \<or> length ciphertext mod 16 \<noteq> 0 then Inl (Err BadInput)
      else ok_or (cbc_decrypt_padded M key iv ciphertext) BadInput)"

datatype encryption_error = EncBadKeyOrIv | BadPadding

datatype decryption_error = DecBadKeyOrIv | BadCiphertext str

definition aes_256_cbc_encrypt_into ::
    "mac_prims \<Rightarrow> u8 list \<Rightarrow> u8 list \<Rightarrow> u8 list \<Rightarrow> u8 list \<Rightarrow> (encryption_error, u8 list) res" where
  "aes_256_cbc_encrypt_into M ptext key iv out =
     (if length key \<noteq> 32 then Inl (Err EncBadKeyOrIv)
      else if length iv \<noteq> 16 then Inl (Err EncBadKeyOrIv)
      else map_err BadPadding (aes_256_cbc_encrypt M key iv ptext out))"

definition aes_256_cbc_decrypt_into ::
    "mac_prims \<Rightarrow> u8 list \<Rightarrow> u8 list \<Rightarrow> u8 list \<Rightarrow> (decryption_error, u8 list) res" where
  "aes_256_cbc_decrypt_into M ctext key iv =
     (if length key \<noteq> 32 then Inl (Err DecBadKeyOrIv)
      else if length iv \<noteq> 16 then Inl (Err DecBadKeyOrIv)
      else map_err (BadCiphertext (lit ''failed to decrypt'')) (aes_256_cbc_decrypt M key iv ctext))"

lemma padded_len_pos: "0 < padded_len n" "padded_len n mod 16 = 0"
proof -
  have "n + (16 - n mod 16) = 16 * (n div 16 + 1)"
    by presburger
  then show "0 < padded_len n" "padded_len n mod 16 = 0" by (simp_all add: padded_len_def pad_size_def)
qed

lemma cbc_into:
  assumes "mac_prims_ok M" "length key = 32" "length iv = 16"
  shows "\<exists>c. aes_256_cbc_encrypt_into M p key iv out = Inr (out @ c) \<and> length c = padded_len (length p) \<and>
    aes_256_cbc_decrypt_into M c key iv = Inr p"
proof -
  obtain c where c: "cbc_encrypt_padded M key iv (padded_len (length p)) p = Some c" "length c = padded_len (length p)"
    "cbc_decrypt_padded M key iv c = Some p"
    using assms(1) unfolding mac_prims_ok_def by blast
  moreover have "c \<noteq> []" "length c mod 16 = 0" using c(2) padded_len_pos [of "length p"] by auto
  ultimately show ?thesis
    using assms(2,3) by (simp add: aes_256_cbc_encrypt_into_def aes_256_cbc_encrypt_def aes_256_cbc_decrypt_into_def
        aes_256_cbc_decrypt_def padded_len_def pad_size_def Let_def)
qed

definition sample_macs :: mac_prims where
  "sample_macs =
     \<lparr>hmac_sha1 = (\<lambda>k x. replicate 20 (sum_list k + sum_list x)),
      hmac_sha256 = (\<lambda>k x. replicate 32 (sum_list k + sum_list x)),
      hmac_sha512 = (\<lambda>k x. replicate 64 (sum_list k + sum_list x)),
      hkdf_extract = (\<lambda>s x. replicate 32 (sum_list x)),
      hkdf_expand = (\<lambda>prk f n. if n \<le> 255 * 32 then Some (replicate n (sum_list prk)) else None),
      cbc_encrypt_padded = (\<lambda>k iv room p. if padded_len (length p) \<le> room
        then Some (replicate (pad_size (length p)) (of_nat (pad_size (length p))) @ p) else None),
      cbc_decrypt_padded = (\<lambda>k iv c. case c of [] \<Rightarrow> None | x # _ \<Rightarrow> Some (drop (unat x) c))\<rparr>"

lemma sample_unpad:
  "(case replicate (pad_size n) (of_nat (pad_size n) :: u8) @ p of [] \<Rightarrow> None
    | x # _ \<Rightarrow> Some (drop (unat x) (replicate (pad_size n) (of_nat (pad_size n)) @ p))) = Some p"
proof -
  have k: "0 < pad_size n" "pad_size n \<le> 16" by (simp_all add: pad_size_def)
  define w where "w = (of_nat (pad_size n) :: u8)"
  have "unat w = pad_size n" using k(2) by (simp add: w_def unat_of_nat take_bit_eq_mod)
  moreover have "replicate (pad_size n) w @ p = w # replicate (pad_size n - 1) w @ p"
    using k(1) by (cases "pad_size n") simp_all
  moreover have "drop (pad_size n) (replicate (pad_size n) w @ p) = p" by simp
  ultimately show ?thesis unfolding w_def [symmetric] by simp
qed

lemma sample_macs_ok: "mac_prims_ok sample_macs"
  by (simp add: mac_prims_ok_def sample_macs_def sample_unpad padded_len_def)

end
