(* ===== verification/LtHash.thy ===== *)
theory LtHash
  imports Symmetric "HOL-Library.Multiset"
begin

text \<open>The homomorphic hash of the app state (wacore/appstate/src/lthash.rs): 64 sixteen-bit lanes to which
  expanded item hashes are added and from which they are subtracted, with wrap-around.  The vectorised
  loop is modelled next to the scalar one, for a little-endian target.\<close>

section \<open>Lanes\<close>

definition u16_from_le_bytes :: "u8 \<Rightarrow> u8 \<Rightarrow> u16" where
  "u16_from_le_bytes a b = u16_from_be_bytes b a"

definition u16_to_le_bytes :: "u16 \<Rightarrow> u8 list" where
  "u16_to_le_bytes w = [ucast w, ucast (drop_bit 8 w)]"

fun lanes :: "u8 list \<Rightarrow> u16 list" where
  "lanes (a # b # r) = u16_from_le_bytes a b # lanes r"
| "lanes _ = []"

definition unlanes :: "u16 list \<Rightarrow> u8 list" where
  "unlanes ws = concat (map u16_to_le_bytes ws)"

definition lane_op :: "bool \<Rightarrow> u16 \<Rightarrow> u16 \<Rightarrow> u16" where
  "lane_op subtract x y = (if subtract then x - y else x + y)"

section \<open>The two loops\<close>

fun pairs_loop :: "bool \<Rightarrow> u8 list \<Rightarrow> u8 list \<Rightarrow> u8 list" where
  "pairs_loop subtract (a # b # base) (c # d # input) =
     (let x = u16_from_le_bytes a b; y = u16_from_le_bytes c d
      in u16_to_le_bytes (lane_op subtract x y) @ pairs_loop subtract base input)"
| "pairs_loop subtract base input = base"

text \<open>Sixteen bytes at a time, with the rest left to the scalar loop.\<close>

function simd_loop :: "bool \<Rightarrow> u8 list \<Rightarrow> u8 list \<Rightarrow> u8 list" where
  "simd_loop subtract base input =
     (if 16 \<le> length base \<and> 16 \<le> length input
      then unlanes (map2 (lane_op subtract) (lanes (take 16 base)) (lanes (take 16 input))) @
           simd_loop subtract (drop 16 base) (drop 16 input)
      else pairs_loop subtract base input)"
  by pat_completeness auto
termination
  by (relation "measure (\<lambda>(_, base, _). length base)") auto

declare simd_loop.simps [simp del]

definition perform_pointwise_with_overflow :: "bool \<Rightarrow> u8 list \<Rightarrow> u8 list \<Rightarrow> bool \<Rightarrow> ('e, u8 list) res" where
  "perform_pointwise_with_overflow simd base input subtract =
     (if length base \<noteq> length input then Inl Panic
      else if length base mod 2 \<noteq> 0 then Inl Panic
      else Inr (if simd then simd_loop subtract base input else pairs_loop subtract base input))"

record lt_hash =
  lt_hkdf_info :: "u8 list"
  lt_hkdf_size :: u8

definition WAPATCH_INTEGRITY :: lt_hash where
  "WAPATCH_INTEGRITY = \<lparr>lt_hkdf_info = lit ''WhatsApp Patch Integrity'', lt_hkdf_size = 128\<rparr>"

definition hkdf_sha256_into :: "mac_prims \<Rightarrow> u8 list \<Rightarrow> u8 list \<Rightarrow> nat \<Rightarrow> ('e, u8 list) res" where
  "hkdf_sha256_into M key info n =
     (let prk = hmac_sha256 M (replicate 32 0) key
      in case hkdf_expand M prk info n of Some out \<Rightarrow> Inr out | None \<Rightarrow> Inl Panic)"

fun multiple_op :: "mac_prims \<Rightarrow> bool \<Rightarrow> lt_hash \<Rightarrow> u8 list \<Rightarrow> u8 list list \<Rightarrow> bool \<Rightarrow> ('e, u8 list) res" where
  "multiple_op M simd h base [] subtract = Inr base"
| "multiple_op M simd h base (item # input) subtract =
     bindR (hkdf_sha256_into M item (lt_hkdf_info h) (unat (lt_hkdf_size h))) (\<lambda>derived.
     bindR (perform_pointwise_with_overflow simd base derived subtract) (\<lambda>base.
     multiple_op M simd h base input subtract))"

definition subtract_then_add_in_place ::
    "mac_prims \<Rightarrow> bool \<Rightarrow> lt_hash \<Rightarrow> u8 list \<Rightarrow> u8 list list \<Rightarrow> u8 list list \<Rightarrow> ('e, u8 list) res" where
  "subtract_then_add_in_place M simd h base subtract add =
     bindR (multiple_op M simd h base subtract True) (\<lambda>base. multiple_op M simd h base add False)"

definition subtract_then_add ::
    "mac_prims \<Rightarrow> bool \<Rightarrow> lt_hash \<Rightarrow> u8 list \<Rightarrow> u8 list list \<Rightarrow> u8 list list \<Rightarrow> ('e, u8 list) res" where
  "subtract_then_add M simd h base subtract add = subtract_then_add_in_place M simd h base subtract add"

section \<open>Lane arithmetic\<close>

lemma u16_le_roundtrip [simp]: "u16_from_le_bytes (ucast w) (ucast (drop_bit 8 w)) = w"
  by (simp add: u16_from_le_bytes_def u16_be_roundtrip)

lemma unlanes_simps [simp]: "unlanes [] = []" "unlanes (w # ws) = u16_to_le_bytes w @ unlanes ws"
  by (simp_all add: unlanes_def)

lemma lanes_unlanes [simp]: "lanes (unlanes ws) = ws"
  by (induction ws) (simp_all add: u16_to_le_bytes_def)

lemma length_unlanes [simp]: "length (unlanes ws) = 2 * length ws"
  by (induction ws) (simp_all add: u16_to_le_bytes_def)

lemma length_lanes [simp]: "length (lanes bs) = length bs div 2"
  by (induction bs rule: lanes.induct) simp_all

lemma unlanes_append: "unlanes (xs @ ys) = unlanes xs @ unlanes ys"
  by (simp add: unlanes_def)

lemma pairs_loop_lanes:
  assumes "length base = length input" "even (length base)"
  shows "pairs_loop s base input = unlanes (map2 (lane_op s) (lanes base) (lanes input))"
  using assms by (induction s base input rule: pairs_loop.induct) (auto simp: Let_def dest!: sym [of "Suc 0"])

lemma lanes_append: "even (length xs) \<Longrightarrow> lanes (xs @ ys) = lanes xs @ lanes ys"
  by (induction xs rule: lanes.induct) simp_all

lemma simd_loop_lanes:
  assumes "length base = length input" "even (length base)"
  shows "simd_loop s base input = unlanes (map2 (lane_op s) (lanes base) (lanes input))"
  using assms
proof (induction s base input rule: simd_loop.induct)
  case (1 s base input)
  show ?case
  proof (cases "16 \<le> length base")
    case True
    have s: "lanes xs = lanes (take 16 xs) @ lanes (drop 16 xs)" if "16 \<le> length xs" for xs
      using lanes_append [of "take 16 xs" "drop 16 xs"] that by simp
    show ?thesis
      using True 1 s [of base] s [of input] by (subst simd_loop.simps) (simp add: unlanes_append)
  qed (use 1 in \<open>simp add: simd_loop.simps pairs_loop_lanes\<close>)
qed

text \<open>Both loops on equally long inputs of even length.\<close>

lemma pointwise_lanes:
  assumes "length base = length input" "even (length base)"
  shows "perform_pointwise_with_overflow simd base input s =
    Inr (unlanes (map2 (lane_op s) (lanes base) (lanes input)))"
  using assms by (simp add: perform_pointwise_with_overflow_def pairs_loop_lanes simd_loop_lanes even_iff_mod_2_eq_zero [symmetric])

section \<open>Item hashes as vectors\<close>

text \<open>The lane vector of an item, and that of a list of items; lanes beyond the size are zero.\<close>

definition lane :: "u8 list \<Rightarrow> nat \<Rightarrow> u16" where
  "lane bs i = (if i < length bs div 2 then lanes bs ! i else 0)"

definition expand :: "mac_prims \<Rightarrow> lt_hash \<Rightarrow> u8 list \<Rightarrow> u8 list" where
  "expand M h item = the (hkdf_expand M (hmac_sha256 M (replicate 32 0) item) (lt_hkdf_info h) (unat (lt_hkdf_size h)))"

definition item_vec :: "mac_prims \<Rightarrow> u8 list \<Rightarrow> nat \<Rightarrow> u16" where
  "item_vec M item = lane (expand M WAPATCH_INTEGRITY item)"

lemma expand_ok:
  assumes "mac_prims_ok M"
  shows "hkdf_sha256_into M item (lt_hkdf_info h) (unat (lt_hkdf_size h)) = Inr (expand M h item)"
    "length (expand M h item) = unat (lt_hkdf_size h)"
proof -
  have "unat (lt_hkdf_size h) < 2 ^ LENGTH(8)" by (rule unsigned_less)
  then have "unat (lt_hkdf_size h) \<le> 255 * 32" by simp
  then obtain k where "hkdf_expand M (hmac_sha256 M (replicate 32 0) item) (lt_hkdf_info h) (unat (lt_hkdf_size h)) = Some k"
    "length k = unat (lt_hkdf_size h)" using assms unfolding mac_prims_ok_def by blast
  then show "hkdf_sha256_into M item (lt_hkdf_info h) (unat (lt_hkdf_size h)) = Inr (expand M h item)"
    "length (expand M h item) = unat (lt_hkdf_size h)" by (simp_all add: hkdf_sha256_into_def expand_def)
qed

lemma multiple_op_vec:
  assumes "mac_prims_ok M" "length base = 128"
  shows "\<exists>out. multiple_op M simd WAPATCH_INTEGRITY base items s = (Inr out :: ('e, u8 list) res) \<and> length out = 128 \<and>
    lane out = (\<lambda>i. if s then lane base i - sum_list (map (\<lambda>x. item_vec M x i) items)
                         else lane base i + sum_list (map (\<lambda>x. item_vec M x i) items))"
  using assms(2)
proof (induction items arbitrary: base)
  case (Cons item items)
  let ?d = "expand M WAPATCH_INTEGRITY item"
  let ?b = "unlanes (map2 (lane_op s) (lanes base) (lanes ?d))"
  have d: "length ?d = 128" using expand_ok(2) [OF assms(1), of WAPATCH_INTEGRITY item] by (simp add: WAPATCH_INTEGRITY_def)
  have m: "multiple_op M simd WAPATCH_INTEGRITY base (item # items) s =
      (multiple_op M simd WAPATCH_INTEGRITY ?b items s :: ('e, u8 list) res)"
    by (simp add: expand_ok(1) [OF assms(1)] pointwise_lanes Cons.prems d)
  have len: "length ?b = 128" using Cons.prems d by simp
  have b: "lane ?b = (\<lambda>i. lane_op s (lane base i) (item_vec M item i))"
    using Cons.prems d by (simp add: fun_eq_iff lane_def item_vec_def lane_op_def)
  obtain out where o: "multiple_op M simd WAPATCH_INTEGRITY ?b items s = (Inr out :: ('e, u8 list) res)" "length out = 128"
    "lane out = (\<lambda>i. if s then lane ?b i - sum_list (map (\<lambda>x. item_vec M x i) items)
                          else lane ?b i + sum_list (map (\<lambda>x. item_vec M x i) items))"
    using Cons.IH [OF len] by blast
  have "lane out = (\<lambda>i. if s then lane base i - sum_list (map (\<lambda>x. item_vec M x i) (item # items))
                              else lane base i + sum_list (map (\<lambda>x. item_vec M x i) (item # items)))"
    unfolding o(3) b by (simp add: lane_op_def fun_eq_iff)
  with o(1,2) show ?case unfolding m by blast
qed (simp add: fun_eq_iff)

lemma u16_to_from_le: "u16_to_le_bytes (u16_from_le_bytes a b) = [a, b]"
proof -
  have "ucast (u16_from_le_bytes a b) = a" "ucast (drop_bit 8 (u16_from_le_bytes a b)) = b"
    by (rule bit_word_eqI; auto simp: u16_from_le_bytes_def u16_from_be_bytes_def bit_simps dest: bit_imp_le_length)+
  then show ?thesis by (simp add: u16_to_le_bytes_def)
qed

lemma lane_inj:
  assumes "length a = 128" "length b = 128" "lane a = lane b"
  shows "a = b"
proof -
  have "lanes a ! i = lanes b ! i" if "i < 64" for i
    using fun_cong [OF assms(3), of i] that assms(1,2) by (simp add: lane_def)
  then have "lanes a = lanes b" using assms(1,2) by (intro nth_equalityI) simp_all
  moreover have "unlanes (lanes x) = x" if "even (length x)" for x
    using that by (induction x rule: lanes.induct) (simp_all add: u16_to_from_le)
  ultimately show ?thesis using assms(1,2) by (metis even_numeral)
qed

lemma subtract_then_add_vec:
  assumes "mac_prims_ok M" "length base = 128"
  shows "\<exists>out. subtract_then_add_in_place M simd WAPATCH_INTEGRITY base sub add = (Inr out :: ('e, u8 list) res) \<and> length out = 128 \<and>
    lane out = (\<lambda>i. lane base i - sum_list (map (\<lambda>x. item_vec M x i) sub) + sum_list (map (\<lambda>x. item_vec M x i) add))"
proof -
  obtain b where b: "multiple_op M simd WAPATCH_INTEGRITY base sub True = (Inr b :: ('e, u8 list) res)" "length b = 128"
    "lane b = (\<lambda>i. lane base i - sum_list (map (\<lambda>x. item_vec M x i) sub))"
    using multiple_op_vec [OF assms, of simd sub True] by auto
  from multiple_op_vec [OF assms(1) b(2), of simd add False] b show ?thesis
    by (auto simp: subtract_then_add_in_place_def)
qed

lemma sum_list_mset_cong: "mset xs = mset ys \<Longrightarrow> sum_list (map f xs) = sum_list (map f (ys :: 'a list))"
  for f :: "'a \<Rightarrow> 'b :: comm_monoid_add"
  by (metis mset_map sum_mset_sum_list)

section \<open>Properties\<close>

text \<open>C22: the hash after subtracting and adding items does not depend on the order of
  the items nor on whether the vectorised loop is used, and subtracting what was added and adding what
  was subtracted gives the hash back.\<close>

theorem lt_hash_homomorphic:
  assumes "mac_prims_ok M" "length base = 128" "mset sub' = mset sub" "mset add' = mset add"
  shows "\<exists>out. subtract_then_add M simd WAPATCH_INTEGRITY base sub add = (Inr out :: ('e, u8 list) res) \<and>
    subtract_then_add M simd' WAPATCH_INTEGRITY base sub' add' = (Inr out :: ('e, u8 list) res) \<and>
    subtract_then_add M simd' WAPATCH_INTEGRITY out add' sub' = (Inr base :: ('e, u8 list) res)"
proof -
  obtain out where o: "subtract_then_add_in_place M simd WAPATCH_INTEGRITY base sub add = (Inr out :: ('e, u8 list) res)" "length out = 128"
    "lane out = (\<lambda>i. lane base i - sum_list (map (\<lambda>x. item_vec M x i) sub) + sum_list (map (\<lambda>x. item_vec M x i) add))"
    using subtract_then_add_vec [OF assms(1,2), of simd sub add] by blast
  obtain out' where o': "subtract_then_add_in_place M simd' WAPATCH_INTEGRITY base sub' add' = (Inr out' :: ('e, u8 list) res)" "length out' = 128"
    "lane out' = (\<lambda>i. lane base i - sum_list (map (\<lambda>x. item_vec M x i) sub') + sum_list (map (\<lambda>x. item_vec M x i) add'))"
    using subtract_then_add_vec [OF assms(1,2), of simd' sub' add'] by blast
  obtain b where b: "subtract_then_add_in_place M simd' WAPATCH_INTEGRITY out add' sub' = (Inr b :: ('e, u8 list) res)" "length b = 128"
    "lane b = (\<lambda>i. lane out i - sum_list (map (\<lambda>x. item_vec M x i) add') + sum_list (map (\<lambda>x. item_vec M x i) sub'))"
    using subtract_then_add_vec [OF assms(1) o(2), of simd' add' sub'] by blast
  note s = sum_list_mset_cong [OF assms(3)] sum_list_mset_cong [OF assms(4)]
  have "out' = out" using o o' by (intro lane_inj) (simp_all add: s)
  moreover have "b = base" using o b assms(2) by (intro lane_inj) (simp_all add: s fun_eq_iff)
  ultimately show ?thesis using o(1) o'(1) b(1) by (simp add: subtract_then_add_def)
qed

theorem lt_hash_homomorphic_witness:
  "\<exists>out. subtract_then_add sample_macs True WAPATCH_INTEGRITY (replicate 128 0) [[1], [2]] [[3], [4]] = (Inr out :: (unit, u8 list) res) \<and>
    subtract_then_add sample_macs False WAPATCH_INTEGRITY (replicate 128 0) [[2], [1]] [[4], [3]] = (Inr out :: (unit, u8 list) res) \<and>
    subtract_then_add sample_macs False WAPATCH_INTEGRITY out [[4], [3]] [[2], [1]] = (Inr (replicate 128 0) :: (unit, u8 list) res)"
  by (rule lt_hash_homomorphic [OF sample_macs_ok]) simp_all

end
