(* ===== verification/AppHash.thy ===== *)
theory AppHash
  imports LtHash
begin

text \<open>The hash state of an app state collection (wacore/appstate/src/hash.rs) with the codes computed from it,
  the derived keys (keys.rs) and the encoding and decoding of single records (encode.rs, decode.rs).\<close>

section \<open>Messages\<close>

datatype app_state_error =
  MissingPreviousSetValueOperation | MismatchingLTHash | MismatchingContentMAC | MismatchingIndexMAC
  | KeyNotFound | MissingValueBlob | ValueBlobTooShort | DecryptionFailed | DecodeFailed | MissingIndexMAC
  | MissingKeyId | SnapshotMACMismatch | PatchSnapshotMACMismatch | PatchMACMismatch
  | PatchVersionMismatch u64 u64 | DuplicateIndexInPatch

datatype syncd_operation = SyncdSet | SyncdRemove

definition op_value :: "syncd_operation \<Rightarrow> int" where
  "op_value x = (case x of SyncdSet \<Rightarrow> 0 | SyncdRemove \<Rightarrow> 1)"

definition op_try_from :: "int \<Rightarrow> syncd_operation option" where
  "op_try_from i = (if i = 0 then Some SyncdSet else if i = 1 then Some SyncdRemove else None)"

text \<open>A wrapper message with one optional field is that field: every use reads both at once.\<close>

record syncd_record =
  sr_index :: "u8 list option"
  sr_value :: "u8 list option"
  sr_key_id :: "u8 list option"

record syncd_mutation =
  sm_operation :: "int option"
  sm_record :: "syncd_record option"

record syncd_patch =
  sp_version :: "u64 option"
  sp_mutations :: "syncd_mutation list"
  sp_external_mutations :: "u8 list option"
  sp_snapshot_mac :: "u8 list option"
  sp_patch_mac :: "u8 list option"
  sp_key_id :: "u8 list option"

record syncd_snapshot =
  ss_version :: "u64 option"
  ss_records :: "syncd_record list"
  ss_mac :: "u8 list option"
  ss_key_id :: "u8 list option"

record sync_action_data =
  ad_index :: "u8 list option"
  ad_value :: "u8 list option"
  ad_padding :: "u8 list option"
  ad_version :: "int option"

text \<open>Parameters: primitives, whether the build is vectorised, protobuf coding of the action data and JSON
  parsing of an index.\<close>

record app_env =
  ae_macs :: mac_prims
  ae_simd :: bool
  ae_encode :: "sync_action_data \<Rightarrow> u8 list"
  ae_decode :: "u8 list \<Rightarrow> sync_action_data option"
  ae_json :: "u8 list \<Rightarrow> str list option"

definition app_env_ok :: "app_env \<Rightarrow> bool" where
  "app_env_ok A \<longleftrightarrow> mac_prims_ok (ae_macs A) \<and> (\<forall>d. ae_decode A (ae_encode A d) = Some d)"

type_synonym 'a ares = "(app_state_error, 'a) res"

abbreviation last32 :: "u8 list \<Rightarrow> u8 list" where
  "last32 blob \<equiv> drop (length blob - 32) blob"

section \<open>Keys\<close>

record expanded_app_state_keys =
  ek_index :: "u8 list"
  ek_value_encryption :: "u8 list"
  ek_value_mac :: "u8 list"
  ek_snapshot_mac :: "u8 list"
  ek_patch_mac :: "u8 list"

definition expand_app_state_keys :: "mac_prims \<Rightarrow> u8 list \<Rightarrow> ('e, expanded_app_state_keys) res" where
  "expand_app_state_keys M key_data =
     (case hkdf_expand M (hkdf_extract M None key_data) (lit ''WhatsApp Mutation Keys'') 160 of
        None \<Rightarrow> Inl Panic
      | Some okm \<Rightarrow>
          let take32 = (\<lambda>start. take 32 (drop start okm)) in
          Inr \<lparr>ek_index = take32 0, ek_value_encryption = take32 32, ek_value_mac = take32 64,
               ek_snapshot_mac = take32 96, ek_patch_mac = take32 128\<rparr>)"

definition keys_ok :: "expanded_app_state_keys \<Rightarrow> bool" where
  "keys_ok k \<longleftrightarrow> length (ek_index k) = 32 \<and> length (ek_value_encryption k) = 32 \<and> length (ek_value_mac k) = 32 \<and>
     length (ek_snapshot_mac k) = 32 \<and> length (ek_patch_mac k) = 32"

lemma expand_app_state_keys_ok:
  assumes "mac_prims_ok M"
  shows "\<exists>k. expand_app_state_keys M key_data = Inr k \<and> keys_ok k"
proof -
  have "(160 :: nat) \<le> 255 * 32" by simp
  then obtain okm where "hkdf_expand M (hkdf_extract M None key_data) (lit ''WhatsApp Mutation Keys'') 160 = Some okm"
    "length okm = 160" using assms unfolding mac_prims_ok_def by blast
  then show ?thesis by (simp add: expand_app_state_keys_def keys_ok_def Let_def)
qed

section \<open>Hash state\<close>

record hash_state =
  hv_version :: u64
  hv_hash :: "u8 list"
  hv_index_value_map :: "(str \<times> u8 list) list"

definition hash_state_default :: hash_state where
  "hash_state_default = \<lparr>hv_version = 0, hv_hash = replicate 128 0, hv_index_value_map = []\<rparr>"

definition index_mac_of :: "syncd_mutation \<Rightarrow> u8 list option" where
  "index_mac_of mutation = Option.bind (sm_record mutation) sr_index"

definition value_of :: "syncd_mutation \<Rightarrow> u8 list option" where
  "value_of mutation = Option.bind (sm_record mutation) sr_value"

definition operation_of :: "syncd_mutation \<Rightarrow> int" where
  "operation_of mutation = (case sm_operation mutation of Some i \<Rightarrow> i | None \<Rightarrow> 0)"

definition removed_in_patch :: "syncd_mutation list \<Rightarrow> u8 list list" where
  "removed_in_patch mutations =
     (if \<forall>m \<in> set mutations. index_mac_of m \<noteq> None
      then List.map_filter (\<lambda>m. if operation_of m = op_value SyncdRemove then index_mac_of m else None) mutations
      else [])"

text \<open>The loop of \<open>update_hash\<close>.  The callback that looks up the previous value changes its captured state
  \<open>c\<close>.  Accumulated: the codes to add, the codes to remove, and whether a removal had no previous value.\<close>

fun update_hash_loop ::
    "('c \<Rightarrow> u8 list \<Rightarrow> nat \<Rightarrow> ('e, u8 list option) res \<times> 'c) \<Rightarrow> u8 list list \<Rightarrow> nat \<Rightarrow> syncd_mutation list \<Rightarrow> 'c \<Rightarrow>
     u8 list list \<Rightarrow> u8 list list \<Rightarrow> bool \<Rightarrow> (('e, unit) res \<times> 'c) \<times> u8 list list \<times> u8 list list \<times> bool" where
  "update_hash_loop get_prev gone i [] c added removed missing = ((Inr (), c), added, removed, missing)"
| "update_hash_loop get_prev gone i (mutation # rest) c added removed missing =
     (let op = operation_of mutation;
          is_set = (op = op_value SyncdSet);
          added = (case value_of mutation of
                     Some blob \<Rightarrow> if is_set \<and> 32 \<le> length blob then added @ [last32 blob] else added
                   | None \<Rightarrow> added)
      in case index_mac_of mutation of
           None \<Rightarrow> update_hash_loop get_prev gone (i + 1) rest c added removed missing
         | Some index_mac \<Rightarrow>
             if is_set \<and> index_mac \<in> set gone
             then update_hash_loop get_prev gone (i + 1) rest c added removed missing
             else
               let (r, c) = get_prev c index_mac i in
               case r of
                 Inr (Some prev) \<Rightarrow> update_hash_loop get_prev gone (i + 1) rest c added (removed @ [prev]) missing
               | Inr None \<Rightarrow>
                   update_hash_loop get_prev gone (i + 1) rest c added removed (missing \<or> op = op_value SyncdRemove)
               | Inl e \<Rightarrow> ((Inl e, c), added, removed, missing))"

text \<open>The result: whether a removal had no previous value, the outcome, and the state.\<close>

definition update_hash ::
    "mac_prims \<Rightarrow> bool \<Rightarrow> syncd_mutation list \<Rightarrow> ('c \<Rightarrow> u8 list \<Rightarrow> nat \<Rightarrow> ('e, u8 list option) res \<times> 'c) \<Rightarrow> 'c \<Rightarrow>
     hash_state \<Rightarrow> (bool \<times> ('e, unit) res) \<times> hash_state" where
  "update_hash M simd mutations get_prev c st =
     (let ((r, _), added, removed, missing) =
        update_hash_loop get_prev (removed_in_patch mutations) 0 mutations c [] [] False
      in case r of
           Inl e \<Rightarrow> ((missing, Inl e), st)
         | Inr _ \<Rightarrow>
             (case bindR (subtract_then_add_in_place M simd WAPATCH_INTEGRITY (hv_hash st) removed [])
                     (\<lambda>h. subtract_then_add_in_place M simd WAPATCH_INTEGRITY h [] added) of
                Inr h \<Rightarrow> ((missing, Inr ()), st\<lparr>hv_hash := h\<rparr>)
              | Inl e \<Rightarrow> ((missing, Inl e), st)))"

definition update_hash_from_records ::
    "mac_prims \<Rightarrow> bool \<Rightarrow> syncd_record list \<Rightarrow> hash_state \<Rightarrow> ('e, hash_state) res" where
  "update_hash_from_records M simd records st =
     (let added = List.map_filter (\<lambda>record. case sr_value record of
            Some blob \<Rightarrow> if 32 \<le> length blob then Some (last32 blob) else None
          | None \<Rightarrow> None) records
      in bindR (subtract_then_add_in_place M simd WAPATCH_INTEGRITY (hv_hash st) [] added) (\<lambda>h.
         Inr (st\<lparr>hv_hash := h\<rparr>)))"

section \<open>Codes\<close>

definition u64_to_be :: "u64 \<Rightarrow> u8 list" where
  "u64_to_be val = u64_to_be_bytes val"

definition generate_snapshot_mac :: "mac_prims \<Rightarrow> hash_state \<Rightarrow> str \<Rightarrow> u8 list \<Rightarrow> ('e, u8 list) res" where
  "generate_snapshot_mac M st name key = mac_of M (lit ''HmacSha256'') key [hv_hash st, u64_to_be (hv_version st), name]"

definition generate_patch_mac :: "mac_prims \<Rightarrow> syncd_patch \<Rightarrow> str \<Rightarrow> u8 list \<Rightarrow> u64 \<Rightarrow> ('e, u8 list) res" where
  "generate_patch_mac M patch name key version =
     mac_of M (lit ''HmacSha256'') key
       ((case sp_snapshot_mac patch of Some sm \<Rightarrow> [sm] | None \<Rightarrow> []) @
        List.map_filter (\<lambda>m. case value_of m of
            Some blob \<Rightarrow> if 32 \<le> length blob then Some (last32 blob) else None
          | None \<Rightarrow> None) (sp_mutations patch) @
        [u64_to_be version, name])"

definition generate_content_mac :: "mac_prims \<Rightarrow> syncd_operation \<Rightarrow> u8 list \<Rightarrow> u8 list \<Rightarrow> u8 list \<Rightarrow> ('e, u8 list) res" where
  "generate_content_mac M operation data key_id key =
     (let op_byte = [of_int (op_value operation) + 1];
          key_data_length = replicate 7 0 @ [of_nat ((length key_id + 1) mod 256)]
      in bindR (mac_of M (lit ''HmacSha512'') key [op_byte, key_id, data, key_data_length]) (\<lambda>out.
         Inr (take 32 out)))"

definition generate_index_mac :: "mac_prims \<Rightarrow> u8 list \<Rightarrow> u8 list \<Rightarrow> ('e, u8 list) res" where
  "generate_index_mac M index_json_bytes key = mac_of M (lit ''HmacSha256'') key [index_json_bytes]"

definition validate_index_mac :: "mac_prims \<Rightarrow> u8 list \<Rightarrow> u8 list \<Rightarrow> u8 list \<Rightarrow> unit ares" where
  "validate_index_mac M index_json_bytes expected_mac key =
     bindR (generate_index_mac M index_json_bytes key) (\<lambda>mac.
     if mac \<noteq> expected_mac then Inl (Err MismatchingIndexMAC) else Inr ())"

section \<open>Records\<close>

record app_mutation =
  mu_action_value :: "u8 list option"
  mu_index :: "str list"
  mu_operation :: syncd_operation

record record_macs =
  rm_index_mac :: "u8 list"
  rm_value_mac :: "u8 list"

definition decode_record ::
    "app_env \<Rightarrow> syncd_operation \<Rightarrow> syncd_record \<Rightarrow> expanded_app_state_keys \<Rightarrow> u8 list \<Rightarrow> bool
      \<Rightarrow> (app_mutation \<times> record_macs) ares" where
  "decode_record A operation record keys key_id validate_macs =
     bindR (ok_or (sr_value record) MissingValueBlob) (\<lambda>value_blob.
     if length value_blob < 16 + 32 then Inl (Err ValueBlobTooShort)
     else
       let iv = take 16 value_blob;
           rest = drop 16 value_blob;
           ciphertext = take (length rest - 32) rest;
           value_mac = drop (length rest - 32) rest
       in
       bindR (if validate_macs
              then bindR (generate_content_mac (ae_macs A) operation (take (length value_blob - 32) value_blob) key_id (ek_value_mac keys))
                     (\<lambda>expected. if expected \<noteq> value_mac then Inl (Err MismatchingContentMAC) else Inr ())
              else Inr ()) (\<lambda>_.
       bindR (map_err DecryptionFailed (aes_256_cbc_decrypt_into (ae_macs A) ciphertext (ek_value_encryption keys) iv)) (\<lambda>plaintext.
       bindR (ok_or (ae_decode A plaintext) DecodeFailed) (\<lambda>action.
       bindR (if validate_macs
              then bindR (ok_or (sr_index record) MissingIndexMAC) (\<lambda>stored.
                     validate_index_mac (ae_macs A) (case ad_index action of Some i \<Rightarrow> i | None \<Rightarrow> []) stored (ek_index keys))
              else Inr ()) (\<lambda>_.
       let index_list = (case ad_index action of
             Some idx_bytes \<Rightarrow> (case ae_json A idx_bytes of Some parsed \<Rightarrow> parsed | None \<Rightarrow> [])
           | None \<Rightarrow> []) in
       bindR (ok_or (sr_index record) MissingIndexMAC) (\<lambda>index_mac.
       Inr (\<lparr>mu_action_value = ad_value action, mu_index = index_list, mu_operation = operation\<rparr>,
            \<lparr>rm_index_mac = index_mac, rm_value_mac = value_mac\<rparr>)))))))"

definition encode_record ::
    "app_env \<Rightarrow> syncd_operation \<Rightarrow> u8 list \<Rightarrow> u8 list \<Rightarrow> expanded_app_state_keys \<Rightarrow> u8 list \<Rightarrow> u8 list \<Rightarrow> int
      \<Rightarrow> ('e, syncd_mutation \<times> u8 list) res" where
  "encode_record A operation index value keys key_id iv version =
     (let action_data = \<lparr>ad_index = Some index, ad_value = Some value, ad_padding = Some [], ad_version = Some version\<rparr>;
          plaintext = ae_encode A action_data in
      case aes_256_cbc_encrypt_into (ae_macs A) plaintext (ek_value_encryption keys) iv [] of
        Inl _ \<Rightarrow> Inl Panic
      | Inr ciphertext \<Rightarrow>
          let iv_and_cipher = iv @ ciphertext in
          bindR (generate_content_mac (ae_macs A) operation iv_and_cipher key_id (ek_value_mac keys)) (\<lambda>value_mac.
          let value_blob = iv_and_cipher @ value_mac in
          bindR (mac_of (ae_macs A) (lit ''HmacSha256'') (ek_index keys) [index]) (\<lambda>index_mac.
          let record = \<lparr>sr_index = Some index_mac, sr_value = Some value_blob, sr_key_id = Some key_id\<rparr>
          in Inr (\<lparr>sm_operation = Some (op_value operation), sm_record = Some record\<rparr>, value_mac))))"

definition check_key_id :: "u8 list option \<Rightarrow> u8 list list \<Rightarrow> u8 list list" where
  "check_key_id key_id key_ids =
     (case key_id of Some k \<Rightarrow> if k \<in> set key_ids then key_ids else key_ids @ [k] | None \<Rightarrow> key_ids)"

definition collect_key_ids_from_patch_list :: "syncd_snapshot option \<Rightarrow> syncd_patch list \<Rightarrow> u8 list list" where
  "collect_key_ids_from_patch_list snapshot patches =
     (let key_ids = (case snapshot of
            Some s \<Rightarrow> fold (\<lambda>rec. check_key_id (sr_key_id rec)) (ss_records s) (check_key_id (ss_key_id s) [])
          | None \<Rightarrow> [])
      in fold (\<lambda>patch key_ids.
           fold (\<lambda>m key_ids. case sm_record m of Some r \<Rightarrow> check_key_id (sr_key_id r) key_ids | None \<Rightarrow> key_ids)
             (sp_mutations patch) (check_key_id (sp_key_id patch) key_ids)) patches key_ids)"

section \<open>Records survive encoding\<close>

lemma content_mac_ok:
  assumes "mac_prims_ok M"
  shows "\<exists>m. generate_content_mac M operation data key_id key = Inr m \<and> length m = 32"
  using assms by (simp add: generate_content_mac_def mac_of_sha512 mac_prims_ok_def Let_def)

lemma encode_record_decodes:
  assumes "app_env_ok A" "keys_ok keys" "length iv = 16"
  shows "\<exists>m rec. encode_record A operation index value keys key_id iv version = (Inr m :: (syncd_mutation \<times> u8 list) ares) \<and>
    sm_record (fst m) = Some rec \<and> sm_operation (fst m) = Some (op_value operation) \<and>
    decode_record A operation rec keys key_id validate_macs =
      Inr (\<lparr>mu_action_value = Some value, mu_index = (case ae_json A index of Some parsed \<Rightarrow> parsed | None \<Rightarrow> []),
            mu_operation = operation\<rparr>,
           \<lparr>rm_index_mac = hmac_sha256 (ae_macs A) (ek_index keys) index, rm_value_mac = snd m\<rparr>)"
proof -
  let ?M = "ae_macs A"
  let ?d = "\<lparr>ad_index = Some index, ad_value = Some value, ad_padding = Some [], ad_version = Some version\<rparr>"
  have M: "mac_prims_ok ?M" and D: "ae_decode A (ae_encode A ?d) = Some ?d" using assms(1) by (simp_all add: app_env_ok_def)
  have k: "length (ek_value_encryption keys) = 32" using assms(2) by (simp add: keys_ok_def)
  obtain c where c: "aes_256_cbc_encrypt_into ?M (ae_encode A ?d) (ek_value_encryption keys) iv [] = Inr c"
    "aes_256_cbc_decrypt_into ?M c (ek_value_encryption keys) iv = Inr (ae_encode A ?d)"
    using cbc_into [OF M k assms(3), of "ae_encode A ?d" "[]"] by auto
  obtain mac where mac: "generate_content_mac ?M operation (iv @ c) key_id (ek_value_mac keys) = (Inr mac :: u8 list ares)" "length mac = 32"
    using content_mac_ok [OF M] by blast
  show ?thesis
    using c mac assms(3) D
    by (simp add: encode_record_def decode_record_def mac_of_sha256 validate_index_mac_def generate_index_mac_def Let_def)
qed

text \<open>C23: a record made by encoding an action passes all checks of decoding under the same
  keys and gives back the action value, the parsed index and the two codes.\<close>

theorem record_roundtrip:
  assumes "app_env_ok A" "keys_ok keys" "length iv = 16"
  shows "\<exists>m rec. encode_record A operation index value keys key_id iv version = (Inr m :: (syncd_mutation \<times> u8 list) ares) \<and>
    sm_record (fst m) = Some rec \<and> sm_operation (fst m) = Some (op_value operation) \<and>
    decode_record A operation rec keys key_id validate_macs =
      Inr (\<lparr>mu_action_value = Some value, mu_index = (case ae_json A index of Some parsed \<Rightarrow> parsed | None \<Rightarrow> []),
            mu_operation = operation\<rparr>,
           \<lparr>rm_index_mac = hmac_sha256 (ae_macs A) (ek_index keys) index, rm_value_mac = snd m\<rparr>)"
  using assms by (rule encode_record_decodes)

definition sample_app :: app_env where
  "sample_app =
     \<lparr>ae_macs = sample_macs, ae_simd = True,
      ae_encode = (\<lambda>d. put_opt (ad_index d) @ put_opt (ad_value d) @ put_opt (ad_padding d) @ put_int (ad_version d)),
      ae_decode = (\<lambda>x. Option.bind (get_opt x) (\<lambda>(i, x). Option.bind (get_opt x) (\<lambda>(v, x). Option.bind (get_opt x) (\<lambda>(p, x).
        Some \<lparr>ad_index = i, ad_value = v, ad_padding = p, ad_version = get_int x\<rparr>)))),
      ae_json = (\<lambda>x. Some [x])\<rparr>"

lemma sample_app_ok: "app_env_ok sample_app"
  by (simp add: app_env_ok_def sample_app_def sample_macs_ok)

definition sample_keys :: expanded_app_state_keys where
  "sample_keys = \<lparr>ek_index = replicate 32 1, ek_value_encryption = replicate 32 2, ek_value_mac = replicate 32 3,
     ek_snapshot_mac = replicate 32 4, ek_patch_mac = replicate 32 5\<rparr>"

lemma sample_keys_ok: "keys_ok sample_keys"
  by (simp add: keys_ok_def sample_keys_def)

theorem record_roundtrip_witness:
  "\<exists>m rec. encode_record sample_app SyncdSet [91, 93] [7] sample_keys [1] (replicate 16 9) 3 = (Inr m :: (syncd_mutation \<times> u8 list) ares) \<and>
    sm_record (fst m) = Some rec \<and> sm_operation (fst m) = Some (op_value SyncdSet) \<and>
    decode_record sample_app SyncdSet rec sample_keys [1] True =
      Inr (\<lparr>mu_action_value = Some [7], mu_index = (case ae_json sample_app [91, 93] of Some parsed \<Rightarrow> parsed | None \<Rightarrow> []),
            mu_operation = SyncdSet\<rparr>,
           \<lparr>rm_index_mac = hmac_sha256 (ae_macs sample_app) (ek_index sample_keys) [91, 93], rm_value_mac = snd m\<rparr>)"
  by (rule record_roundtrip [OF sample_app_ok sample_keys_ok]) simp

end
