(* ===== verification/AppPatch.thy ===== *)
theory AppPatch
  imports AppHash
begin

text \<open>Processing of snapshots and patches of an app state collection (wacore/appstate/src/processor.rs).  The
  main result ties the hash to the stored codes: if the hash is the sum over the stored value codes,
  an accepted patch leaves the sum over the updated store.\<close>

section \<open>Results\<close>

record app_state_mutation_mac =
  am_index_mac :: "u8 list"
  am_value_mac :: "u8 list"

record processed_snapshot =
  ps_state :: hash_state
  ps_mutations :: "app_mutation list"
  ps_mutation_macs :: "app_state_mutation_mac list"

record patch_processing_result =
  pr_state :: hash_state
  pr_mutations :: "app_mutation list"
  pr_added_macs :: "app_state_mutation_mac list"
  pr_removed_index_macs :: "u8 list list"

type_synonym get_keys = "u8 list \<Rightarrow> expanded_app_state_keys ares"

definition or_zero :: "u64 option \<Rightarrow> u64" where
  "or_zero x = (case x of Some v \<Rightarrow> v | None \<Rightarrow> 0)"

section \<open>Snapshots\<close>

fun decode_snapshot_records ::
    "app_env \<Rightarrow> get_keys \<Rightarrow> bool \<Rightarrow> syncd_record list \<Rightarrow> (app_mutation list \<times> app_state_mutation_mac list) ares" where
  "decode_snapshot_records A get_keys validate_macs [] = Inr ([], [])"
| "decode_snapshot_records A get_keys validate_macs (rec # records) =
     bindR (ok_or (sr_key_id rec) MissingKeyId) (\<lambda>key_id.
     bindR (get_keys key_id) (\<lambda>keys.
     bindR (decode_record A SyncdSet rec keys key_id validate_macs) (\<lambda>(mutation, macs).
     bindR (decode_snapshot_records A get_keys validate_macs records) (\<lambda>(mutations, mutation_macs).
     Inr (mutation # mutations,
          \<lparr>am_index_mac = rm_index_mac macs, am_value_mac = rm_value_mac macs\<rparr> # mutation_macs)))))"

definition process_snapshot ::
    "app_env \<Rightarrow> syncd_snapshot \<Rightarrow> get_keys \<Rightarrow> bool \<Rightarrow> str \<Rightarrow> (hash_state, app_state_error, processed_snapshot) meth" where
  "process_snapshot A snapshot get_keys validate_macs collection_name =
     (let version = or_zero (ss_version snapshot) in
      bindS (modifyS (\<lambda>st. st\<lparr>hv_version := version\<rparr>)) (\<lambda>_.
      bindS getS (\<lambda>st.
      bindS (liftS (update_hash_from_records (ae_macs A) (ae_simd A) (ss_records snapshot) st)) (\<lambda>st.
      bindS (modifyS (\<lambda>_. st)) (\<lambda>_.
      bindS (liftS
        (if validate_macs
         then case (ss_mac snapshot, ss_key_id snapshot) of
                (Some mac_expected, Some key_id) \<Rightarrow>
                  bindR (get_keys key_id) (\<lambda>keys.
                  bindR (generate_snapshot_mac (ae_macs A) st collection_name (ek_snapshot_mac keys)) (\<lambda>computed.
                  if computed \<noteq> mac_expected then Inl (Err SnapshotMACMismatch) else Inr ()))
              | _ \<Rightarrow> Inl (Err SnapshotMACMismatch)
         else Inr ())) (\<lambda>_.
      bindS (liftS (decode_snapshot_records A get_keys validate_macs (ss_records snapshot))) (\<lambda>(mutations, mutation_macs).
      returnS \<lparr>ps_state = st, ps_mutations = mutations, ps_mutation_macs = mutation_macs\<rparr>)))))))"

section \<open>Patches\<close>

text \<open>The previous value of an index: what an earlier mutation of the patch set, unless this is a removal,
  otherwise the stored one.  The captured map takes the mutation's own value afterwards.\<close>

definition patch_prev ::
    "syncd_mutation list \<Rightarrow> (u8 list \<Rightarrow> u8 list option ares) \<Rightarrow> (u8 list \<rightharpoonup> u8 list) \<Rightarrow> u8 list \<Rightarrow> nat \<Rightarrow>
     u8 list option ares \<times> (u8 list \<rightharpoonup> u8 list)" where
  "patch_prev mutations get_prev_value_mac in_patch index_mac ent_index =
     (let m = mutations ! ent_index;
          is_remove = (operation_of m = op_value SyncdRemove);
          prev = (case in_patch index_mac of
                    Some value_mac \<Rightarrow> if \<not> is_remove then Inr (Some value_mac) else get_prev_value_mac index_mac
                  | None \<Rightarrow> get_prev_value_mac index_mac)
      in case prev of
           Inl e \<Rightarrow> (Inl e, in_patch)
         | Inr prev \<Rightarrow>
             (Inr prev,
              case (index_mac_of m, value_of m) of
                (Some index, Some value) \<Rightarrow> if 32 \<le> length value then in_patch(index \<mapsto> last32 value) else in_patch
              | _ \<Rightarrow> in_patch))"

fun detect_duplicate_index_in_patch ::
    "u8 list list \<Rightarrow> u8 list list \<Rightarrow> syncd_mutation list \<Rightarrow> unit ares" where
  "detect_duplicate_index_in_patch seen_set seen_remove [] = Inr ()"
| "detect_duplicate_index_in_patch seen_set seen_remove (m # ms) =
     (case index_mac_of m of
        None \<Rightarrow> detect_duplicate_index_in_patch seen_set seen_remove ms
      | Some index_mac \<Rightarrow>
          let op = (case op_try_from (operation_of m) of Some op \<Rightarrow> op | None \<Rightarrow> SyncdSet) in
          (case op of
             SyncdSet \<Rightarrow>
               if index_mac \<in> set seen_set then Inl (Err DuplicateIndexInPatch)
               else detect_duplicate_index_in_patch (seen_set @ [index_mac]) seen_remove ms
           | SyncdRemove \<Rightarrow>
               if index_mac \<in> set seen_remove then Inl (Err DuplicateIndexInPatch)
               else detect_duplicate_index_in_patch seen_set (seen_remove @ [index_mac]) ms))"

definition validate_patch_macs ::
    "app_env \<Rightarrow> syncd_patch \<Rightarrow> hash_state \<Rightarrow> expanded_app_state_keys \<Rightarrow> str \<Rightarrow> bool \<Rightarrow> unit ares" where
  "validate_patch_macs A patch st keys collection_name had_no_prior_state =
     (if had_no_prior_state then Inr ()
      else
        bindR (case sp_snapshot_mac patch of
                 Some snap_mac \<Rightarrow>
                   bindR (generate_snapshot_mac (ae_macs A) st collection_name (ek_snapshot_mac keys)) (\<lambda>computed_snap.
                   if computed_snap \<noteq> snap_mac then Inl (Err PatchSnapshotMACMismatch) else Inr ())
               | None \<Rightarrow> Inr ()) (\<lambda>_.
        case sp_patch_mac patch of
          Some patch_mac \<Rightarrow>
            let version = or_zero (sp_version patch) in
            bindR (generate_patch_mac (ae_macs A) patch collection_name (ek_patch_mac keys) version) (\<lambda>computed_patch.
            if computed_patch \<noteq> patch_mac then Inl (Err PatchMACMismatch) else Inr ())
        | None \<Rightarrow> Inr ()))"

definition validate_snapshot_mac ::
    "app_env \<Rightarrow> syncd_snapshot \<Rightarrow> hash_state \<Rightarrow> expanded_app_state_keys \<Rightarrow> str \<Rightarrow> unit ares" where
  "validate_snapshot_mac A snapshot st keys collection_name =
     (case ss_mac snapshot of
        None \<Rightarrow> Inl (Err SnapshotMACMismatch)
      | Some mac_expected \<Rightarrow>
          bindR (generate_snapshot_mac (ae_macs A) st collection_name (ek_snapshot_mac keys)) (\<lambda>computed.
          if computed \<noteq> mac_expected then Inl (Err SnapshotMACMismatch) else Inr ()))"

fun decode_patch_mutations ::
    "app_env \<Rightarrow> get_keys \<Rightarrow> bool \<Rightarrow> syncd_mutation list
      \<Rightarrow> (app_mutation list \<times> app_state_mutation_mac list \<times> u8 list list) ares" where
  "decode_patch_mutations A get_keys validate_macs [] = Inr ([], [], [])"
| "decode_patch_mutations A get_keys validate_macs (m # ms) =
     (case sm_record m of
        None \<Rightarrow> decode_patch_mutations A get_keys validate_macs ms
      | Some rec \<Rightarrow>
          let op = (case op_try_from (operation_of m) of Some op \<Rightarrow> op | None \<Rightarrow> SyncdSet) in
          bindR (ok_or (sr_key_id rec) MissingKeyId) (\<lambda>key_id.
          bindR (get_keys key_id) (\<lambda>keys.
          bindR (decode_record A op rec keys key_id validate_macs) (\<lambda>(mutation, macs).
          bindR (decode_patch_mutations A get_keys validate_macs ms) (\<lambda>(mutations, added_macs, removed_index_macs).
          case op of
            SyncdSet \<Rightarrow>
              Inr (mutation # mutations,
                   \<lparr>am_index_mac = rm_index_mac macs, am_value_mac = rm_value_mac macs\<rparr> # added_macs, removed_index_macs)
          | SyncdRemove \<Rightarrow> Inr (mutation # mutations, added_macs, rm_index_mac macs # removed_index_macs))))))"

definition saturating_succ :: "u64 \<Rightarrow> u64" where
  "saturating_succ v = (if unat v = 2 ^ 64 - 1 then v else v + 1)"

definition had_no_prior :: "hash_state \<Rightarrow> bool" where
  "had_no_prior st \<longleftrightarrow> hv_version st = 0 \<and> hv_hash st = replicate 128 0"

definition process_patch ::
    "app_env \<Rightarrow> syncd_patch \<Rightarrow> get_keys \<Rightarrow> (u8 list \<Rightarrow> u8 list option ares) \<Rightarrow> bool \<Rightarrow> str
      \<Rightarrow> (hash_state, app_state_error, patch_processing_result) meth" where
  "process_patch A patch get_keys get_prev_value_mac validate_macs collection_name st =
     (let had_no_prior_state = had_no_prior st;
          patch_version = or_zero (sp_version patch);
          expected_version = saturating_succ (hv_version st) in
      if \<not> had_no_prior_state \<and> patch_version \<noteq> expected_version
      then (Inl (Err (PatchVersionMismatch expected_version patch_version)), st)
      else
        let st = st\<lparr>hv_version := patch_version\<rparr>;
            ((has_missing_remove, result), st) =
              update_hash (ae_macs A) (ae_simd A) (sp_mutations patch)
                (patch_prev (sp_mutations patch) get_prev_value_mac) Map.empty st
        in
        (bindS (liftS (mapE (\<lambda>_. MismatchingLTHash) result)) (\<lambda>_.
         bindS (liftS
           (case sp_key_id patch of
              Some key_id \<Rightarrow>
                if validate_macs
                then bindR (get_keys key_id) (\<lambda>keys. validate_patch_macs A patch st keys collection_name had_no_prior_state)
                else Inr ()
            | None \<Rightarrow> Inr ())) (\<lambda>_.
         bindS (liftS (if validate_macs then detect_duplicate_index_in_patch [] [] (sp_mutations patch) else Inr ())) (\<lambda>_.
         bindS (liftS (decode_patch_mutations A get_keys validate_macs (sp_mutations patch)))
           (\<lambda>(mutations, added_macs, removed_index_macs).
         returnS \<lparr>pr_state = st, pr_mutations = mutations, pr_added_macs = added_macs,
                  pr_removed_index_macs = removed_index_macs\<rparr>))))) st)"

section \<open>Mutations as entries\<close>

text \<open>A mutation as whether it sets, its index code and its value code.\<close>

definition mut_entry :: "syncd_mutation \<Rightarrow> bool \<times> u8 list \<times> u8 list" where
  "mut_entry m = (operation_of m = op_value SyncdSet, the (index_mac_of m), last32 (the (value_of m)))"

definition known_op :: "syncd_mutation \<Rightarrow> bool" where
  "known_op m \<longleftrightarrow> sm_record m \<noteq> None \<and> op_try_from (operation_of m) \<noteq> None"

definition complete_mut :: "syncd_mutation \<Rightarrow> bool" where
  "complete_mut m \<longleftrightarrow> index_mac_of m \<noteq> None \<and> (\<exists>v. value_of m = Some v \<and> 32 \<le> length v)"

abbreviation set_entries :: "syncd_mutation list \<Rightarrow> (bool \<times> u8 list \<times> u8 list) list" where
  "set_entries ms \<equiv> filter fst (map mut_entry ms)"

abbreviation remove_entries :: "syncd_mutation list \<Rightarrow> (bool \<times> u8 list \<times> u8 list) list" where
  "remove_entries ms \<equiv> filter (\<lambda>e. \<not> fst e) (map mut_entry ms)"

abbreviation ent_index :: "bool \<times> u8 list \<times> u8 list \<Rightarrow> u8 list" where
  "ent_index e \<equiv> fst (snd e)"

abbreviation ent_value :: "bool \<times> u8 list \<times> u8 list \<Rightarrow> u8 list" where
  "ent_value e \<equiv> snd (snd e)"

lemma ok_or_Inr: "ok_or x e = Inr y \<longleftrightarrow> x = Some y"
  by (cases x) simp_all

lemma decode_record_macs:
  assumes "decode_record A op rec keys key_id validate = Inr (mu, macs)"
  shows "\<exists>i v. sr_index rec = Some i \<and> sr_value rec = Some v \<and> 48 \<le> length v \<and>
    rm_index_mac macs = i \<and> rm_value_mac macs = last32 v"
  using assms by (auto simp: decode_record_def ok_or_Inr Let_def split: if_splits)

lemma op_cases:
  assumes "known_op m"
  obtains "operation_of m = 0" "op_try_from (operation_of m) = Some SyncdSet" "fst (mut_entry m)"
    | "operation_of m = 1" "op_try_from (operation_of m) = Some SyncdRemove" "\<not> fst (mut_entry m)"
  using assms by (auto simp: known_op_def op_try_from_def mut_entry_def op_value_def split: if_splits)

lemma decode_patch_entries:
  assumes "decode_patch_mutations A gk validate ms = Inr (mus, added, removed)" "\<forall>m \<in> set ms. known_op m"
  shows "(\<forall>m \<in> set ms. complete_mut m) \<and> map (\<lambda>a. (am_index_mac a, am_value_mac a)) added = map snd (set_entries ms) \<and>
    removed = map ent_index (remove_entries ms)"
  using assms
proof (induction ms arbitrary: mus added removed)
  case (Cons m ms)
  obtain rec where r: "sm_record m = Some rec" using Cons.prems(2) by (auto simp: known_op_def)
  have k: "known_op m" using Cons.prems(2) by simp
  define op where "op = (case op_try_from (operation_of m) of Some op \<Rightarrow> op | None \<Rightarrow> SyncdSet)"
  obtain key_id keys mu macs mus' added' removed' where d:
    "decode_record A op rec keys key_id validate = Inr (mu, macs)"
    "decode_patch_mutations A gk validate ms = Inr (mus', added', removed')"
    "added = (if op = SyncdSet then \<lparr>am_index_mac = rm_index_mac macs, am_value_mac = rm_value_mac macs\<rparr> # added' else added')"
    "removed = (if op = SyncdSet then removed' else rm_index_mac macs # removed')"
    using Cons.prems(1) r by (cases op) (auto simp: op_def [symmetric] ok_or_Inr Let_def)
  obtain i v where iv: "sr_index rec = Some i" "sr_value rec = Some v" "48 \<le> length v" "rm_index_mac macs = i"
    "rm_value_mac macs = last32 v" using decode_record_macs [OF d(1)] by blast
  have "complete_mut m" "ent_index (mut_entry m) = i" "ent_value (mut_entry m) = last32 v"
    using r iv by (auto simp: complete_mut_def mut_entry_def index_mac_of_def value_of_def)
  moreover have "fst (mut_entry m) \<longleftrightarrow> op = SyncdSet" using k by (rule op_cases) (auto simp: op_def)
  ultimately show ?case using Cons.IH [OF d(2)] Cons.prems(2) d(3,4) iv(4,5) by (auto simp: prod_eq_iff)
qed simp

lemma detect_distinct:
  assumes "detect_duplicate_index_in_patch ss sr ms = Inr ()" "\<forall>m \<in> set ms. known_op m \<and> complete_mut m" "distinct ss" "distinct sr"
  shows "distinct (ss @ map ent_index (set_entries ms)) \<and> distinct (sr @ map ent_index (remove_entries ms))"
  using assms
proof (induction ms arbitrary: ss sr)
  case (Cons m ms)
  obtain i where i: "index_mac_of m = Some i" "ent_index (mut_entry m) = i" using Cons.prems(2) by (auto simp: complete_mut_def mut_entry_def)
  have "known_op m" using Cons.prems(2) by simp
  then show ?case
  proof (rule op_cases)
    assume "operation_of m = 0" "op_try_from (operation_of m) = Some SyncdSet" "fst (mut_entry m)"
    with Cons.IH [of "ss @ [i]" sr] Cons.prems i show ?thesis by (auto split: if_splits)
  next
    assume "operation_of m = 1" "op_try_from (operation_of m) = Some SyncdRemove" "\<not> fst (mut_entry m)"
    with Cons.IH [of ss "sr @ [i]"] Cons.prems i show ?thesis by (auto split: if_splits)
  qed
qed simp

text \<open>The codes the loop subtracts: the stored code of every index, once.\<close>

definition subtracted :: "(u8 list \<rightharpoonup> u8 list) \<Rightarrow> u8 list set \<Rightarrow> bool \<times> u8 list \<times> u8 list \<Rightarrow> u8 list option" where
  "subtracted m gone e = (if fst e \<and> ent_index e \<in> gone then None else m (ent_index e))"

lemma update_hash_loop_entries:
  assumes "all = pre @ ms" "\<forall>x \<in> set ms. known_op x \<and> complete_mut x"
    and "distinct (map ent_index (set_entries all))" "set gone = ent_index ` set (remove_entries all)"
    and "dom in_patch \<subseteq> ent_index ` set (map mut_entry pre)"
  shows "\<exists>c miss'. update_hash_loop (patch_prev all (\<lambda>i. Inr (m i))) gone (length pre) ms in_patch added removed miss =
    ((Inr (), c), added @ map ent_value (set_entries ms), removed @ List.map_filter (subtracted m (set gone)) (map mut_entry ms), miss')"
  using assms(1,2,5)
proof (induction ms arbitrary: pre in_patch added removed miss)
  case (Cons x ms)
  have x: "known_op x" "complete_mut x" using Cons.prems(2) by simp_all
  obtain i v where iv: "index_mac_of x = Some i" "value_of x = Some v" "32 \<le> length v" "ent_index (mut_entry x) = i" "ent_value (mut_entry x) = last32 v"
    using x(2) by (auto simp: complete_mut_def mut_entry_def)
  have nth: "all ! length pre = x" using Cons.prems(1) by simp
  have op: "operation_of x = op_value SyncdSet \<longleftrightarrow> fst (mut_entry x)" "operation_of x = op_value SyncdRemove \<longleftrightarrow> \<not> fst (mut_entry x)"
    using x(1) by (auto elim!: op_cases simp: op_value_def)
  have free: "in_patch i = None" if "fst (mut_entry x)" "i \<notin> set gone"
  proof (rule ccontr)
    assume "in_patch i \<noteq> None"
    then obtain y where y: "y \<in> set pre" "ent_index (mut_entry y) = i" using Cons.prems(3) by auto
    have "fst (mut_entry y)"
    proof (rule ccontr)
      assume "\<not> fst (mut_entry y)"
      then have "ent_index (mut_entry y) \<in> set gone" using y(1) assms(4) Cons.prems(1) by auto
      with that(2) y(2) show False by simp
    qed
    then have "ent_index (mut_entry y) \<in> ent_index ` set (set_entries pre)" using y(1) by auto
    moreover have "ent_index (mut_entry x) \<notin> ent_index ` set (set_entries pre)"
      using assms(3) that(1) Cons.prems(1) by auto
    ultimately show False using y(2) iv(4) by simp
  qed
  have prev: "patch_prev all (\<lambda>i. Inr (m i)) in_patch i (length pre) = (Inr (m i), in_patch(i \<mapsto> last32 v))"
    if "\<not> (fst (mut_entry x) \<and> i \<in> set gone)"
    using that free iv op by (auto simp: patch_prev_def nth Let_def split: option.split)
  have IH: "\<exists>c miss'. update_hash_loop (patch_prev all (\<lambda>i. Inr (m i))) gone (length (pre @ [x])) ms ip a r b =
      ((Inr (), c), a @ map ent_value (set_entries ms), r @ List.map_filter (subtracted m (set gone)) (map mut_entry ms), miss')"
    if "dom ip \<subseteq> insert i (dom in_patch)" for ip a r b
  proof (rule Cons.IH)
    have "insert i (dom in_patch) \<subseteq> ent_index ` set (map mut_entry (pre @ [x]))"
      using Cons.prems(3) iv(4) by (simp, blast)
    with that show "dom ip \<subseteq> ent_index ` set (map mut_entry (pre @ [x]))" by (rule subset_trans)
  qed (use Cons.prems in simp_all)
  show ?case
  proof (cases "fst (mut_entry x) \<and> i \<in> set gone")
    case True
    then have "subtracted m (set gone) (mut_entry x) = None" using iv(4) by (simp add: subtracted_def)
    with True IH [of in_patch "added @ [last32 v]" removed miss] iv op show ?thesis
      by (auto simp: List.map_filter_simps)
  next
    case False
    then have sub: "subtracted m (set gone) (mut_entry x) = m i" using iv(4) by (auto simp: subtracted_def)
    have dm: "dom (in_patch(i \<mapsto> last32 v)) \<subseteq> insert i (dom in_patch)" by simp
    let ?A = "if fst (mut_entry x) then added @ [last32 v] else added"
    let ?R = "case m i of Some p \<Rightarrow> removed @ [p] | None \<Rightarrow> removed"
    let ?b = "if m i = None then miss \<or> \<not> fst (mut_entry x) else miss"
    obtain c miss' where h: "update_hash_loop (patch_prev all (\<lambda>i. Inr (m i))) gone (length (pre @ [x])) ms (in_patch(i \<mapsto> last32 v)) ?A ?R ?b =
        ((Inr (), c), ?A @ map ent_value (set_entries ms), ?R @ List.map_filter (subtracted m (set gone)) (map mut_entry ms), miss')"
      using IH [OF dm] by blast
    show ?thesis
      using False sub h prev [OF False] iv op
      by (cases "fst (mut_entry x)"; cases "m i") (simp_all add: List.map_filter_simps)
  qed
qed (simp add: List.map_filter_simps)

section \<open>The hash of a store of codes\<close>

type_synonym mac_map = "u8 list \<rightharpoonup> u8 list"

definition digest :: "mac_prims \<Rightarrow> mac_map \<Rightarrow> nat \<Rightarrow> u16" where
  "digest M m i = (\<Sum>k \<in> dom m. item_vec M (the (m k)) i)"

definition synced :: "mac_prims \<Rightarrow> hash_state \<Rightarrow> mac_map \<Rightarrow> bool" where
  "synced M st m \<longleftrightarrow> finite (dom m) \<and> length (hv_hash st) = 128 \<and> lane (hv_hash st) = digest M m"

text \<open>The store after deleting the removed indices and writing the added codes.\<close>

definition store_after :: "mac_map \<Rightarrow> u8 list list \<Rightarrow> app_state_mutation_mac list \<Rightarrow> mac_map" where
  "store_after m removed added =
     fold (\<lambda>a m. m(am_index_mac a \<mapsto> am_value_mac a)) added (fold (\<lambda>i m. m(i := None)) removed m)"

lemma fold_delete: "fold (\<lambda>i m. m(i := None)) removed m = (\<lambda>k. if k \<in> set removed then None else m k)"
  by (induction removed arbitrary: m) (auto simp: fun_eq_iff)

lemma fold_put:
  assumes "distinct (map am_index_mac added)"
  shows "fold (\<lambda>a m. m(am_index_mac a \<mapsto> am_value_mac a)) added m = m ++ map_of (map (\<lambda>a. (am_index_mac a, am_value_mac a)) added)"
  using assms
proof (induction added arbitrary: m)
  case (Cons a added)
  then have "map_of (map (\<lambda>a. (am_index_mac a, am_value_mac a)) added) (am_index_mac a) = None"
    by (auto simp: map_of_eq_None_iff image_iff)
  with Cons show ?case by (auto simp: fun_eq_iff map_add_def split: option.split)
qed simp

lemma sum_map_filter:
  fixes g :: "u8 list \<Rightarrow> u16"
  assumes "distinct (map ent_index xs)"
  shows "sum_list (map g (List.map_filter (\<lambda>e. m (ent_index e)) xs)) = (\<Sum>k \<in> ent_index ` set xs \<inter> dom m. g (the (m k)))"
  using assms
proof (induction xs)
  case (Cons e xs)
  have "finite (ent_index ` set xs \<inter> dom m)" "ent_index e \<notin> ent_index ` set xs \<inter> dom m" using Cons.prems by auto
  then show ?case using Cons by (cases "m (ent_index e)") (auto simp: List.map_filter_simps Int_insert_left dom_def)
qed (simp add: List.map_filter_simps)

lemma map_filter_cong: "(\<And>x. x \<in> set xs \<Longrightarrow> f x = g x) \<Longrightarrow> List.map_filter f xs = List.map_filter g xs"
  by (induction xs) (auto simp: List.map_filter_simps split: option.split)

lemma sum_map_filter_split:
  "sum_list (map g (List.map_filter h xs)) =
   sum_list (map g (List.map_filter h (filter P xs))) + sum_list (map g (List.map_filter h (filter (\<lambda>x. \<not> P x) xs)))"
  for g :: "u8 list \<Rightarrow> u16"
  by (induction xs) (auto simp: List.map_filter_simps split: option.split)

lemma sum_subtracted:
  fixes g :: "u8 list \<Rightarrow> u16"
  assumes "distinct (map ent_index (filter fst es))" "distinct (map ent_index (filter (\<lambda>e. \<not> fst e) es))"
    and R: "R = ent_index ` set (filter (\<lambda>e. \<not> fst e) es)" and S: "S = ent_index ` set (filter fst es)" and "finite (dom m)"
  shows "sum_list (map g (List.map_filter (subtracted m R) es)) = (\<Sum>k \<in> dom m \<inter> (R \<union> S). g (the (m k)))"
proof -
  let ?m = "m |` (- R)"
  have "List.map_filter (subtracted m R) (filter fst es) = List.map_filter (\<lambda>e. ?m (ent_index e)) (filter fst es)"
    "List.map_filter (subtracted m R) (filter (\<lambda>e. \<not> fst e) es) = List.map_filter (\<lambda>e. m (ent_index e)) (filter (\<lambda>e. \<not> fst e) es)"
    by (auto simp: subtracted_def restrict_map_def intro!: map_filter_cong)
  then have "sum_list (map g (List.map_filter (subtracted m R) es)) =
      (\<Sum>k \<in> S \<inter> dom ?m. g (the (?m k))) + (\<Sum>k \<in> R \<inter> dom m. g (the (m k)))"
    using sum_map_filter [OF assms(1), of g ?m] sum_map_filter [OF assms(2), of g m]
    unfolding R S sum_map_filter_split [of g _ es fst] by simp
  also have "(\<Sum>k \<in> S \<inter> dom ?m. g (the (?m k))) = (\<Sum>k \<in> dom m \<inter> (S - R). g (the (m k)))"
    by (intro sum.cong) (auto simp: restrict_map_def split: if_splits)
  also have "\<dots> + (\<Sum>k \<in> R \<inter> dom m. g (the (m k))) = (\<Sum>k \<in> dom m \<inter> (S - R) \<union> R \<inter> dom m. g (the (m k)))"
    using assms(5) by (intro sum.union_disjoint [symmetric]) auto
  also have "dom m \<inter> (S - R) \<union> R \<inter> dom m = dom m \<inter> (R \<union> S)" by auto
  finally show ?thesis .
qed

lemma digest_after:
  assumes "finite (dom m)" "distinct (map fst ps)"
  shows "digest M ((\<lambda>k. if k \<in> R then None else m k) ++ map_of ps) i =
    digest M m i - (\<Sum>k \<in> dom m \<inter> (R \<union> fst ` set ps). item_vec M (the (m k)) i) + sum_list (map (\<lambda>p. item_vec M (snd p) i) ps)"
proof -
  let ?n = "(\<lambda>k. if k \<in> R then None else m k) ++ map_of ps" and ?S = "fst ` set ps"
  let ?f = "\<lambda>k. item_vec M (the (m k)) i"
  have dom: "dom ?n = (dom m - (R \<union> ?S)) \<union> ?S"
    by (auto simp: dom_map_of_conv_image_fst split: if_splits)
  have "digest M ?n i = (\<Sum>k \<in> dom m - (R \<union> ?S). item_vec M (the (?n k)) i) + (\<Sum>k \<in> ?S. item_vec M (the (?n k)) i)"
    unfolding digest_def dom using assms(1) by (intro sum.union_disjoint) auto
  also have "(\<Sum>k \<in> dom m - (R \<union> ?S). item_vec M (the (?n k)) i) = (\<Sum>k \<in> dom m - (R \<union> ?S). ?f k)"
    by (intro sum.cong) (auto simp: map_add_def map_of_eq_None_iff [THEN iffD2])
  also have "(\<Sum>k \<in> ?S. item_vec M (the (?n k)) i) = sum_list (map (\<lambda>p. item_vec M (snd p) i) ps)"
  proof -
    have "(\<Sum>k \<in> ?S. item_vec M (the (?n k)) i) = sum_list (map (\<lambda>k. item_vec M (the (?n k)) i) (map fst ps))"
      using sum_list_distinct_conv_sum_set [OF assms(2), of "\<lambda>k. item_vec M (the (?n k)) i"] by simp
    also have "\<dots> = sum_list (map (\<lambda>p. item_vec M (snd p) i) ps)"
      using assms(2) by (intro arg_cong [where f = sum_list]) (auto simp: map_add_def)
    finally show ?thesis .
  qed
  also have "(\<Sum>k \<in> dom m - (R \<union> ?S). ?f k) = digest M m i - (\<Sum>k \<in> dom m \<inter> (R \<union> ?S). ?f k)"
    unfolding digest_def using assms(1) sum.Int_Diff [OF assms(1), of ?f "R \<union> ?S"] by simp
  finally show ?thesis .
qed

section \<open>Accepted patches\<close>

lemma removed_in_patch_entries:
  assumes "\<forall>m \<in> set ms. known_op m \<and> complete_mut m"
  shows "set (removed_in_patch ms) = ent_index ` set (remove_entries ms)"
proof -
  have "operation_of m = op_value SyncdRemove \<longleftrightarrow> \<not> fst (mut_entry m)" "index_mac_of m = Some (ent_index (mut_entry m))" if "m \<in> set ms" for m
    using that assms by (auto elim!: op_cases simp: op_value_def complete_mut_def mut_entry_def)
  then have "List.map_filter (\<lambda>m. if operation_of m = op_value SyncdRemove then index_mac_of m else None) ms =
      List.map_filter (\<lambda>m. if \<not> fst (mut_entry m) then Some (ent_index (mut_entry m)) else None) ms"
    by (intro map_filter_cong) auto
  moreover have "\<forall>m \<in> set ms. index_mac_of m \<noteq> None" using assms by (simp add: complete_mut_def)
  ultimately show ?thesis by (auto simp: removed_in_patch_def List.map_filter_def image_iff)
qed

text \<open>What an accepted patch has passed.\<close>

lemma process_patch_parts:
  assumes "process_patch A patch gk gp validate name st = (Inr r, st')"
  obtains miss added removed mus where
    "update_hash (ae_macs A) (ae_simd A) (sp_mutations patch) (patch_prev (sp_mutations patch) gp) Map.empty
       (st\<lparr>hv_version := or_zero (sp_version patch)\<rparr>) = ((miss, Inr ()), st')"
    "had_no_prior st \<or> or_zero (sp_version patch) = saturating_succ (hv_version st)"
    "validate \<Longrightarrow> detect_duplicate_index_in_patch [] [] (sp_mutations patch) = Inr ()"
    "decode_patch_mutations A gk validate (sp_mutations patch) = Inr (mus, added, removed)"
    "r = \<lparr>pr_state = st', pr_mutations = mus, pr_added_macs = added, pr_removed_index_macs = removed\<rparr>"
    "\<And>key_id. validate \<Longrightarrow> sp_key_id patch = Some key_id \<Longrightarrow>
       \<exists>keys. gk key_id = Inr keys \<and> validate_patch_macs A patch st' keys name (had_no_prior st) = Inr ()"
proof -
  obtain miss res st1 where u: "update_hash (ae_macs A) (ae_simd A) (sp_mutations patch) (patch_prev (sp_mutations patch) gp) Map.empty
       (st\<lparr>hv_version := or_zero (sp_version patch)\<rparr>) = ((miss, res), st1)" by (metis surj_pair)
  have x: "(had_no_prior st \<or> or_zero (sp_version patch) = saturating_succ (hv_version st)) \<and> res = Inr () \<and> st1 = st' \<and>
    (\<exists>mus added removed. decode_patch_mutations A gk validate (sp_mutations patch) = Inr (mus, added, removed) \<and>
      r = \<lparr>pr_state = st', pr_mutations = mus, pr_added_macs = added, pr_removed_index_macs = removed\<rparr>) \<and>
    (validate \<longrightarrow> detect_duplicate_index_in_patch [] [] (sp_mutations patch) = Inr ()) \<and>
    (\<forall>key_id. validate \<and> sp_key_id patch = Some key_id \<longrightarrow>
       (\<exists>keys. gk key_id = Inr keys \<and> validate_patch_macs A patch st' keys name (had_no_prior st) = Inr ()))"
    using assms u by (auto simp: process_patch_def Let_def bindS_eq_Inr split: if_splits option.splits)
  then obtain mus added removed where "decode_patch_mutations A gk validate (sp_mutations patch) = Inr (mus, added, removed)"
    "r = \<lparr>pr_state = st', pr_mutations = mus, pr_added_macs = added, pr_removed_index_macs = removed\<rparr>" by blast
  with u x show ?thesis using that [of miss mus added removed] by blast
qed

lemma accepted_patch_synced:
  assumes "mac_prims_ok (ae_macs A)" "synced (ae_macs A) st m" "\<forall>x \<in> set (sp_mutations patch). known_op x"
    and "process_patch A patch gk (\<lambda>i. Inr (p i)) True name st = (Inr r, st')"
    and "\<forall>x \<in> set (sp_mutations patch). \<forall>i. index_mac_of x = Some i \<longrightarrow> p i = m i"
  shows "synced (ae_macs A) (pr_state r) (store_after m (pr_removed_index_macs r) (pr_added_macs r))"
proof -
  let ?ms = "sp_mutations patch" and ?M = "ae_macs A"
  obtain miss added removed mus where u:
    "update_hash ?M (ae_simd A) ?ms (patch_prev ?ms (\<lambda>i. Inr (p i))) Map.empty
       (st\<lparr>hv_version := or_zero (sp_version patch)\<rparr>) = ((miss, Inr ()), st')"
    "detect_duplicate_index_in_patch [] [] ?ms = Inr ()"
    "decode_patch_mutations A gk True ?ms = Inr (mus, added, removed)"
    "r = \<lparr>pr_state = st', pr_mutations = mus, pr_added_macs = added, pr_removed_index_macs = removed\<rparr>"
    by (rule process_patch_parts [OF assms(4)]) blast
  note e = decode_patch_entries [OF u(3) assms(3)]
  have ok: "\<forall>x \<in> set ?ms. known_op x \<and> complete_mut x" using e assms(3) by simp
  have d: "distinct (map ent_index (set_entries ?ms))" "distinct (map ent_index (remove_entries ?ms))"
    using detect_distinct [OF u(2) ok] by simp_all
  let ?R = "ent_index ` set (remove_entries ?ms)"
  let ?sub = "List.map_filter (subtracted m ?R) (map mut_entry ?ms)" and ?add = "map ent_value (set_entries ?ms)"
  obtain c where l: "update_hash_loop (patch_prev ?ms (\<lambda>i. Inr (p i))) (removed_in_patch ?ms) 0 ?ms Map.empty [] [] False =
      ((Inr (), c), ?add, List.map_filter (subtracted p ?R) (map mut_entry ?ms), miss)"
    using update_hash_loop_entries [of ?ms "[]" ?ms "removed_in_patch ?ms" Map.empty p "[]" "[]" False] ok d(1)
      removed_in_patch_entries [OF ok] u(1)
    by (auto simp: update_hash_def split: sum.splits)
  have "p (ent_index (mut_entry x)) = m (ent_index (mut_entry x))" if "x \<in> set ?ms" for x
    using that ok assms(5) by (auto simp: complete_mut_def mut_entry_def)
  then have "List.map_filter (subtracted p ?R) (map mut_entry ?ms) = ?sub"
    by (intro map_filter_cong) (auto simp: subtracted_def)
  note l' = l [unfolded this]
  have len: "length (hv_hash st) = 128" and fin: "finite (dom m)" and lane: "lane (hv_hash st) = digest ?M m"
    using assms(2) by (simp_all add: synced_def)
  obtain h where h: "subtract_then_add_in_place ?M (ae_simd A) WAPATCH_INTEGRITY (hv_hash st) ?sub [] = (Inr h :: u8 list ares)" "length h = 128"
    "lane h = (\<lambda>i. lane (hv_hash st) i - sum_list (map (\<lambda>x. item_vec ?M x i) ?sub))"
    using subtract_then_add_vec [OF assms(1) len, of "ae_simd A" ?sub "[]"] by auto
  obtain h' where h': "subtract_then_add_in_place ?M (ae_simd A) WAPATCH_INTEGRITY h [] ?add = (Inr h' :: u8 list ares)" "length h' = 128"
    "lane h' = (\<lambda>i. lane h i + sum_list (map (\<lambda>x. item_vec ?M x i) ?add))"
    using subtract_then_add_vec [OF assms(1) h(2), of "ae_simd A" "[]" ?add] by auto
  have st': "hv_hash st' = h'" using u(1) l' h(1) h'(1) by (auto simp: update_hash_def)
  let ?ps = "map (\<lambda>a. (am_index_mac a, am_value_mac a)) added"
  have ps: "?ps = map snd (set_entries ?ms)" using e by simp
  then have dps: "distinct (map fst ?ps)" using d(1) by (simp add: comp_def)
  have "distinct (map am_index_mac added)" using dps by (simp add: comp_def)
  then have s: "store_after m removed added = (\<lambda>k. if k \<in> ?R then None else m k) ++ map_of ?ps"
    using e by (simp add: store_after_def fold_delete fold_put)
  have "lane h' i = digest ?M (store_after m removed added) i" for i
  proof -
    have "sum_list (map (\<lambda>x. item_vec ?M x i) ?sub) = (\<Sum>k \<in> dom m \<inter> (?R \<union> ent_index ` set (set_entries ?ms)). item_vec ?M (the (m k)) i)"
      using d fin by (intro sum_subtracted) auto
    moreover have "fst ` set ?ps = ent_index ` set (set_entries ?ms)" unfolding ps by (simp add: image_image)
    moreover have "sum_list (map (\<lambda>p. item_vec ?M (snd p) i) ?ps) = sum_list (map (\<lambda>x. item_vec ?M x i) ?add)"
      unfolding ps by (simp add: comp_def)
    ultimately show ?thesis using digest_after [OF fin dps, of ?M ?R i] unfolding s h'(3) h(3) lane by simp
  qed
  moreover have "finite (dom (store_after m removed added))"
    unfolding s using fin by (auto simp: finite_dom_map_of intro: finite_subset [OF _ fin] split: if_splits)
  ultimately show ?thesis using st' h'(2) u(4) by (simp add: synced_def fun_eq_iff)
qed

section \<open>Accepted snapshots\<close>

lemma process_snapshot_parts:
  assumes "process_snapshot A snapshot gk validate name st = (Inr r, st')"
  obtains mus macs where
    "update_hash_from_records (ae_macs A) (ae_simd A) (ss_records snapshot) (st\<lparr>hv_version := or_zero (ss_version snapshot)\<rparr>) =
       (Inr st' :: hash_state ares)"
    "decode_snapshot_records A gk validate (ss_records snapshot) = Inr (mus, macs)"
    "r = \<lparr>ps_state = st', ps_mutations = mus, ps_mutation_macs = macs\<rparr>"
proof -
  have "\<exists>mus macs. update_hash_from_records (ae_macs A) (ae_simd A) (ss_records snapshot) (st\<lparr>hv_version := or_zero (ss_version snapshot)\<rparr>) =
       (Inr st' :: hash_state ares) \<and> decode_snapshot_records A gk validate (ss_records snapshot) = Inr (mus, macs) \<and>
       r = \<lparr>ps_state = st', ps_mutations = mus, ps_mutation_macs = macs\<rparr>"
    using assms by (auto simp: process_snapshot_def Let_def bindS_eq_Inr)
  with that show ?thesis by blast
qed

lemma decode_snapshot_entries:
  assumes "decode_snapshot_records A gk validate rs = Inr (mus, macs)"
  shows "map (\<lambda>a. Some (am_index_mac a)) macs = map sr_index rs \<and>
    List.map_filter (\<lambda>record. case sr_value record of
        Some blob \<Rightarrow> if 32 \<le> length blob then Some (last32 blob) else None | None \<Rightarrow> None) rs = map am_value_mac macs"
  using assms
proof (induction rs arbitrary: mus macs)
  case (Cons rec rs)
  obtain key_id keys mu m mus' macs' where d: "decode_record A SyncdSet rec keys key_id validate = Inr (mu, m)"
    "decode_snapshot_records A gk validate rs = Inr (mus', macs')"
    "macs = \<lparr>am_index_mac = rm_index_mac m, am_value_mac = rm_value_mac m\<rparr> # macs'"
    using Cons.prems by (auto simp: ok_or_Inr)
  show ?case using decode_record_macs [OF d(1)] Cons.IH [OF d(2)] d(3) by (auto simp: List.map_filter_simps)
qed (simp add: List.map_filter_simps)

lemma lanes_zero: "lanes (replicate (2 * n) 0) = replicate n 0"
  by (induction n) (simp_all add: u16_from_le_bytes_def u16_from_be_bytes_def)

lemma lane_zero: "lane (replicate 128 0) i = 0"
  using lanes_zero [of 64] by (simp add: lane_def)

text \<open>A snapshot whose records have different indices gives a hash that is the sum over its codes.\<close>

lemma accepted_snapshot_synced:
  assumes "mac_prims_ok (ae_macs A)" "distinct (map sr_index (ss_records snapshot))"
    and "process_snapshot A snapshot gk validate name hash_state_default = (Inr r, st')"
  shows "synced (ae_macs A) st' (store_after Map.empty [] (ps_mutation_macs r)) \<and> ps_state r = st' \<and>
    hv_version st' = or_zero (ss_version snapshot)"
proof -
  let ?M = "ae_macs A"
  obtain mus macs where u:
    "update_hash_from_records ?M (ae_simd A) (ss_records snapshot) (hash_state_default\<lparr>hv_version := or_zero (ss_version snapshot)\<rparr>) =
       (Inr st' :: hash_state ares)"
    "decode_snapshot_records A gk validate (ss_records snapshot) = Inr (mus, macs)"
    "r = \<lparr>ps_state = st', ps_mutations = mus, ps_mutation_macs = macs\<rparr>"
    by (rule process_snapshot_parts [OF assms(3)])
  note e = decode_snapshot_entries [OF u(2)]
  have "distinct (map (\<lambda>a. Some (am_index_mac a)) macs)" using e assms(2) by simp
  then have d: "distinct (map am_index_mac macs)" by (simp add: distinct_map inj_on_def)
  obtain h where h: "subtract_then_add_in_place ?M (ae_simd A) WAPATCH_INTEGRITY (replicate 128 0) [] (map am_value_mac macs) = (Inr h :: u8 list ares)"
    "length h = 128" "lane h = (\<lambda>i. lane (replicate 128 0) i + sum_list (map (\<lambda>x. item_vec ?M x i) (map am_value_mac macs)))"
    using subtract_then_add_vec [OF assms(1), of "replicate 128 0" "ae_simd A" "[]" "map am_value_mac macs"] by auto
  let ?ps = "map (\<lambda>a. (am_index_mac a, am_value_mac a)) macs"
  have s: "store_after Map.empty [] macs = map_of ?ps" using d by (simp add: store_after_def fold_put)
  have dps: "distinct (map fst ?ps)" using d by (simp add: comp_def)
  have st': "hv_hash st' = h" "hv_version st' = or_zero (ss_version snapshot)"
    using u(1) e h(1) by (auto simp: update_hash_from_records_def hash_state_default_def)
  have "lane h i = digest ?M (map_of ?ps) i" for i
    using digest_after [of Map.empty ?ps ?M "{}" i] dps
    by (simp add: h(3) lane_zero digest_def comp_def)
  then show ?thesis using st' h(2) u(3) by (auto simp: synced_def s fun_eq_iff finite_dom_map_of)
qed

section \<open>What acceptance proves\<close>

text \<open>The codes of the blobs of a patch, in order.\<close>

abbreviation blob_macs :: "syncd_mutation list \<Rightarrow> u8 list list" where
  "blob_macs ms \<equiv> List.map_filter (\<lambda>m. case value_of m of
      Some blob \<Rightarrow> if 32 \<le> length blob then Some (last32 blob) else None | None \<Rightarrow> None) ms"

lemma update_hash_version:
  assumes "update_hash M simd ms gp c st = (x, st')"
  shows "hv_version st' = hv_version st"
  using assms by (auto simp: update_hash_def Let_def split_def split: sum.splits)

lemma accepted_patch_version:
  assumes "process_patch A patch gk gp validate name st = (Inr r, st')"
  shows "pr_state r = st' \<and> hv_version st' = or_zero (sp_version patch) \<and>
    (had_no_prior st \<or> hv_version st' = saturating_succ (hv_version st))"
  by (rule process_patch_parts [OF assms]) (auto dest: update_hash_version)

text \<open>C35: a patch without key id is accepted or refused, and applied, whatever snapshot
  and patch codes it carries, even when codes are to be validated.\<close>

theorem keyless_patch_unchecked:
  assumes "sp_key_id patch = None"
  shows "process_patch A (patch\<lparr>sp_snapshot_mac := any_snapshot_mac, sp_patch_mac := any_patch_mac\<rparr>) gk gp validate name st =
    process_patch A patch gk gp validate name st"
  using assms by (cases patch) (simp add: process_patch_def Let_def split_def)

definition sample_patch :: syncd_patch where
  "sample_patch = \<lparr>sp_version = Some 2, sp_mutations = [], sp_external_mutations = None,
     sp_snapshot_mac = Some (replicate 32 130), sp_patch_mac = None, sp_key_id = Some [1]\<rparr>"

lemma sum_version: "sum_list (u64_to_be 2) = 2"
  by code_simp

lemma sample_patch_accepted:
  "process_patch sample_app sample_patch (\<lambda>_. Inr sample_keys) (\<lambda>_. Inr None) True [] (hash_state_default\<lparr>hv_version := 1\<rparr>) =
     (Inr \<lparr>pr_state = hash_state_default\<lparr>hv_version := 2\<rparr>, pr_mutations = [], pr_added_macs = [], pr_removed_index_macs = []\<rparr>,
      hash_state_default\<lparr>hv_version := 2\<rparr>)"
  by (simp add: process_patch_def sample_patch_def had_no_prior_def or_zero_def saturating_succ_def hash_state_default_def
    Let_def update_hash_def removed_in_patch_def subtract_then_add_in_place_def WAPATCH_INTEGRITY_def
    validate_patch_macs_def generate_snapshot_mac_def mac_of_sha256 sample_app_def sample_macs_def sample_keys_def
    sum_version sum_list_replicate)

theorem keyless_patch_unchecked_witness:
  "process_patch sample_app (sample_patch\<lparr>sp_key_id := None, sp_snapshot_mac := Some [], sp_patch_mac := Some [1]\<rparr>)
      (\<lambda>_. Inr sample_keys) (\<lambda>_. Inr None) True [] (hash_state_default\<lparr>hv_version := 1\<rparr>) =
    process_patch sample_app (sample_patch\<lparr>sp_key_id := None\<rparr>)
      (\<lambda>_. Inr sample_keys) (\<lambda>_. Inr None) True [] (hash_state_default\<lparr>hv_version := 1\<rparr>)"
  using keyless_patch_unchecked [of "sample_patch\<lparr>sp_key_id := None\<rparr>" sample_app "Some [1]" "Some []"
    "\<lambda>_. Inr sample_keys" "\<lambda>_. Inr None" True "[]" "hash_state_default\<lparr>hv_version := 1\<rparr>"] by simp

end
