(* ===== verification/Store.thy ===== *)
theory Store
  imports AppPatch
begin

text \<open>The storage interface (wacore/src/store/traits.rs): its entries, the operations of the app state store
  with the ones the trait derives from the others, and their contract as a locale.\<close>

section \<open>Entries\<close>

datatype store_error =
  StoreIo | Serialization | Validation str | StoreConnection | Database | RetriesExhausted str | Migration
  | InvalidConfig str | DeviceNotFound int

record app_state_sync_key =
  ak_key_data :: "u8 list"
  ak_fingerprint :: "u8 list"
  ak_timestamp :: int

record lid_pn_mapping_entry =
  lp_lid :: str
  lp_phone_number :: str
  lp_created_at :: int
  lp_updated_at :: int
  lp_learning_source :: str

record tc_token_entry =
  tc_token :: "u8 list"
  tc_token_timestamp :: int
  tc_sender_timestamp :: "int option"

record msg_secret_entry =
  ms_chat :: str
  ms_sender :: str
  ms_msg_id :: str
  ms_secret :: "u8 list"
  ms_expires_at :: int
  ms_message_ts :: int

record device_info =
  di_device_id :: u32
  di_key_index :: "u32 option"

record device_list_record =
  dl_user :: str
  dl_devices :: "device_info list"
  dl_timestamp :: int
  dl_phash :: "str option"
  dl_raw_id :: "u32 option"

definition merge_msg_secret_expiry :: "int \<Rightarrow> int \<Rightarrow> int" where
  "merge_msg_secret_expiry existing incoming = (if existing = 0 \<or> incoming = 0 then 0 else max existing incoming)"

definition merge_msg_secret_message_ts :: "int \<Rightarrow> int \<Rightarrow> int" where
  "merge_msg_secret_message_ts existing incoming = max existing incoming"

section \<open>The app state store\<close>

type_synonym ('s, 'a) store_op = "('s, store_error, 'a) meth"

record 's app_sync_ops =
  op_get_sync_key :: "u8 list \<Rightarrow> ('s, app_state_sync_key option) store_op"
  op_set_sync_key :: "u8 list \<Rightarrow> app_state_sync_key \<Rightarrow> ('s, unit) store_op"
  op_get_version :: "str \<Rightarrow> ('s, hash_state) store_op"
  op_set_version :: "str \<Rightarrow> hash_state \<Rightarrow> ('s, unit) store_op"
  op_put_mutation_macs :: "str \<Rightarrow> u64 \<Rightarrow> app_state_mutation_mac list \<Rightarrow> ('s, unit) store_op"
  op_get_mutation_mac :: "str \<Rightarrow> u8 list \<Rightarrow> ('s, u8 list option) store_op"
  op_delete_mutation_macs :: "str \<Rightarrow> u8 list list \<Rightarrow> ('s, unit) store_op"
  op_clear_mutation_macs :: "str \<Rightarrow> ('s, unit) store_op"
  op_get_latest_sync_key_id :: "('s, u8 list option) store_op"

fun get_macs_loop :: "'s app_sync_ops \<Rightarrow> str \<Rightarrow> mac_map \<Rightarrow> u8 list list \<Rightarrow> ('s, mac_map) store_op" where
  "get_macs_loop B name out [] = returnS out"
| "get_macs_loop B name out (index_mac # index_macs) =
     bindS (op_get_mutation_mac B name index_mac) (\<lambda>mac.
     get_macs_loop B name (case mac of Some m \<Rightarrow> out(index_mac \<mapsto> m) | None \<Rightarrow> out) index_macs)"

definition get_mutation_macs :: "'s app_sync_ops \<Rightarrow> str \<Rightarrow> u8 list list \<Rightarrow> ('s, mac_map) store_op" where
  "get_mutation_macs B name index_macs = get_macs_loop B name Map.empty index_macs"

text \<open>The contract.  \<open>ver\<close> is the recorded state of a collection and \<open>macs\<close> its codes; reads do not change them, writes change the
  named collection only, as told.\<close>

locale app_sync_store =
  fixes B :: "'s app_sync_ops"
    and ver :: "'s \<Rightarrow> str \<Rightarrow> hash_state"
    and macs :: "'s \<Rightarrow> str \<Rightarrow> mac_map"
  assumes get_sync_key: "op_get_sync_key B k s = (r, s') \<Longrightarrow> ver s' = ver s \<and> macs s' = macs s"
    and get_version: "op_get_version B n s = (rv, s') \<Longrightarrow> ver s' = ver s \<and> macs s' = macs s \<and> (\<forall>st. rv = Inr st \<longrightarrow> st = ver s n)"
    and set_version: "op_set_version B n st s = (Inr (), s') \<Longrightarrow> ver s' = (ver s)(n := st) \<and> macs s' = macs s"
    and put_macs: "op_put_mutation_macs B n v added s = (Inr (), s') \<Longrightarrow>
      ver s' = ver s \<and> macs s' = (macs s)(n := store_after (macs s n) [] added)"
    and get_mac: "op_get_mutation_mac B n i s = (rm, s') \<Longrightarrow> ver s' = ver s \<and> macs s' = macs s \<and> (\<forall>m. rm = Inr m \<longrightarrow> m = macs s n i)"
    and delete_macs: "op_delete_mutation_macs B n removed s = (Inr (), s') \<Longrightarrow>
      ver s' = ver s \<and> macs s' = (macs s)(n := store_after (macs s n) removed [])"
    and clear_macs: "op_clear_mutation_macs B n s = (Inr (), s') \<Longrightarrow> ver s' = ver s \<and> macs s' = (macs s)(n := Map.empty)"
begin

lemma get_macs_loop:
  "get_macs_loop B n out is s = (r, s') \<Longrightarrow>
     ver s' = ver s \<and> macs s' = macs s \<and> (\<forall>p. r = Inr p \<longrightarrow> p = out ++ (macs s n |` set is))"
proof (induction "is" arbitrary: out s)
  case (Cons i "is")
  obtain r1 s1 where 1: "op_get_mutation_mac B n i s = (r1, s1)" by fastforce
  note g1 = get_mac [OF 1]
  show ?case
  proof (cases r1)
    case (Inl e)
    with 1 g1 Cons.prems show ?thesis by (auto simp: bindS_def)
  next
    case (Inr m)
    then have r: "get_macs_loop B n (case m of Some m \<Rightarrow> out(i \<mapsto> m) | None \<Rightarrow> out) is s1 = (r, s')"
      using 1 Cons.prems by (simp add: bindS_def)
    have "(case m of Some m \<Rightarrow> out(i \<mapsto> m) | None \<Rightarrow> out) ++ (macs s n |` set is) = out ++ (macs s n |` set (i # is))"
      using g1 Inr by (auto simp: fun_eq_iff map_add_def restrict_map_def split: option.splits)
    with Cons.IH [OF r] g1 show ?thesis by auto
  qed
qed (auto simp: returnS_def restrict_map_def map_add_def fun_eq_iff)

lemma get_macs:
  "get_mutation_macs B n is s = (r, s') \<Longrightarrow>
     ver s' = ver s \<and> macs s' = macs s \<and> (\<forall>p. r = Inr p \<longrightarrow> p = macs s n |` set is)"
  unfolding get_mutation_macs_def by (drule get_macs_loop) simp

end

text \<open>A store whose operations do not fail.\<close>

locale reliable_app_sync_store = app_sync_store +
  assumes set_version_done: "\<exists>s'. op_set_version B n st s = (Inr (), s')"
    and put_macs_done: "\<exists>s'. op_put_mutation_macs B n v added s = (Inr (), s')"
    and delete_macs_done: "\<exists>s'. op_delete_mutation_macs B n removed s = (Inr (), s')"
    and clear_macs_done: "\<exists>s'. op_clear_mutation_macs B n s = (Inr (), s')"

end
