(* ===== verification/MemStore.thy ===== *)
theory MemStore
  imports Store Device "HOL-Library.AList"
begin

text \<open>The in-memory backend (wacore/src/store/in_memory.rs), all of it.  A hash map is an association list
  with different keys; the order is one iteration order of the map, which no operation promises.  The
  mutex makes each operation one step.\<close>

section \<open>State\<close>

type_synonym ('k, 'v) hmap = "('k \<times> 'v) list"

definition hm_retain :: "('k \<Rightarrow> 'v \<Rightarrow> bool) \<Rightarrow> ('k, 'v) hmap \<Rightarrow> ('k, 'v) hmap" where
  "hm_retain P m = filter (\<lambda>(k, v). P k v) m"

record sent_message_entry =
  sm_payload :: "u8 list"
  sm_timestamp :: int

type_synonym msg_secret_row = "u8 list \<times> int \<times> int"

record in_memory_state =
  im_identities :: "(str, u8 list) hmap"
  im_sessions :: "(str, u8 list) hmap"
  im_prekeys :: "(u32, u8 list) hmap"
  im_signed_prekeys :: "(u32, u8 list) hmap"
  im_sender_keys :: "(str, u8 list) hmap"
  im_sync_keys :: "(u8 list, app_state_sync_key) hmap"
  im_latest_sync_key_id :: "u8 list option"
  im_versions :: "(str, hash_state) hmap"
  im_mutation_macs :: "(str \<times> u8 list, u8 list) hmap"
  im_sender_key_devices :: "(str, (str, bool) hmap) hmap"
  im_lid_mappings :: "(str, lid_pn_mapping_entry) hmap"
  im_pn_to_lid :: "(str, str) hmap"
  im_base_keys :: "(str \<times> str, u8 list) hmap"
  im_device_lists :: "(str, device_list_record) hmap"
  im_group_metadata :: "(str, u8 list) hmap"
  im_tc_tokens :: "(str, tc_token_entry) hmap"
  im_sent_messages :: "(str \<times> str, sent_message_entry) hmap"
  im_msg_secrets :: "(str \<times> str \<times> str, msg_secret_row) hmap"
  im_device :: "device option"
  im_next_device_id :: "32 word"

definition MAX_SENT_MESSAGES :: nat where
  "MAX_SENT_MESSAGES = 4096"

definition in_memory_new :: in_memory_state where
  "in_memory_new =
     \<lparr>im_identities = [], im_sessions = [], im_prekeys = [], im_signed_prekeys = [], im_sender_keys = [],
      im_sync_keys = [], im_latest_sync_key_id = None, im_versions = [], im_mutation_macs = [],
      im_sender_key_devices = [], im_lid_mappings = [], im_pn_to_lid = [], im_base_keys = [], im_device_lists = [],
      im_group_metadata = [], im_tc_tokens = [], im_sent_messages = [], im_msg_secrets = [], im_device = None,
      im_next_device_id = 1\<rparr>"

type_synonym 'a mem_op = "(in_memory_state, 'a) store_op"

definition readM :: "(in_memory_state \<Rightarrow> 'a) \<Rightarrow> 'a mem_op" where
  "readM f s = (Inr (f s), s)"

section \<open>Signal store\<close>

definition put_identity :: "str \<Rightarrow> u8 list \<Rightarrow> unit mem_op" where
  "put_identity address key = modifyS (\<lambda>s. s\<lparr>im_identities := AList.update address key (im_identities s)\<rparr>)"

definition load_identity :: "str \<Rightarrow> u8 list option mem_op" where
  "load_identity address = readM (\<lambda>s. map_of (im_identities s) address)"

definition delete_identity :: "str \<Rightarrow> unit mem_op" where
  "delete_identity address = modifyS (\<lambda>s. s\<lparr>im_identities := AList.delete address (im_identities s)\<rparr>)"

definition get_session :: "str \<Rightarrow> u8 list option mem_op" where
  "get_session address = readM (\<lambda>s. map_of (im_sessions s) address)"

definition put_session :: "str \<Rightarrow> u8 list \<Rightarrow> unit mem_op" where
  "put_session address session = modifyS (\<lambda>s. s\<lparr>im_sessions := AList.update address session (im_sessions s)\<rparr>)"

definition has_session :: "str \<Rightarrow> bool mem_op" where
  "has_session address = readM (\<lambda>s. map_of (im_sessions s) address \<noteq> None)"

definition address_matches :: "str \<Rightarrow> str \<Rightarrow> bool" where
  "address_matches user addr \<longleftrightarrow>
     take (length user) addr = user \<and> length user < length addr \<and> addr ! length user \<in> {64, 58}"

definition has_signal_state_for_user :: "str \<Rightarrow> bool mem_op" where
  "has_signal_state_for_user user = readM (\<lambda>s. list_ex (\<lambda>(k, _). address_matches user k) (im_sessions s) \<or>
       list_ex (\<lambda>(k, _). address_matches user k) (im_identities s))"

definition delete_session :: "str \<Rightarrow> unit mem_op" where
  "delete_session address = modifyS (\<lambda>s. s\<lparr>im_sessions := AList.delete address (im_sessions s)\<rparr>)"

definition store_prekey :: "u32 \<Rightarrow> u8 list \<Rightarrow> bool \<Rightarrow> unit mem_op" where
  "store_prekey ident record uploaded = modifyS (\<lambda>s. s\<lparr>im_prekeys := AList.update ident record (im_prekeys s)\<rparr>)"

definition mark_prekeys_uploaded :: "u32 list \<Rightarrow> unit mem_op" where
  "mark_prekeys_uploaded ids = modifyS (\<lambda>s. s)"

definition store_prekeys_batch :: "(u32 \<times> u8 list) list \<Rightarrow> bool \<Rightarrow> unit mem_op" where
  "store_prekeys_batch keys uploaded = modifyS (\<lambda>s. s\<lparr>im_prekeys := fold (\<lambda>(ident, record). AList.update ident record) keys (im_prekeys s)\<rparr>)"

definition load_prekey :: "u32 \<Rightarrow> u8 list option mem_op" where
  "load_prekey ident = readM (\<lambda>s. map_of (im_prekeys s) ident)"

definition load_prekeys_batch :: "u32 list \<Rightarrow> (u32 \<times> u8 list) list mem_op" where
  "load_prekeys_batch ids = readM (\<lambda>s. List.map_filter (\<lambda>ident. map_option (Pair ident) (map_of (im_prekeys s) ident)) ids)"

definition remove_prekey :: "u32 \<Rightarrow> unit mem_op" where
  "remove_prekey ident = modifyS (\<lambda>s. s\<lparr>im_prekeys := AList.delete ident (im_prekeys s)\<rparr>)"

definition get_max_prekey_id :: "u32 mem_op" where
  "get_max_prekey_id = readM (\<lambda>s. if im_prekeys s = [] then 0 else Max (set (map fst (im_prekeys s))))"

definition store_signed_prekey :: "u32 \<Rightarrow> u8 list \<Rightarrow> unit mem_op" where
  "store_signed_prekey ident record = modifyS (\<lambda>s. s\<lparr>im_signed_prekeys := AList.update ident record (im_signed_prekeys s)\<rparr>)"

definition load_signed_prekey :: "u32 \<Rightarrow> u8 list option mem_op" where
  "load_signed_prekey ident = readM (\<lambda>s. map_of (im_signed_prekeys s) ident)"

definition load_all_signed_prekeys :: "(u32 \<times> u8 list) list mem_op" where
  "load_all_signed_prekeys = readM (\<lambda>s. im_signed_prekeys s)"

definition remove_signed_prekey :: "u32 \<Rightarrow> unit mem_op" where
  "remove_signed_prekey ident = modifyS (\<lambda>s. s\<lparr>im_signed_prekeys := AList.delete ident (im_signed_prekeys s)\<rparr>)"

definition put_sender_key :: "str \<Rightarrow> u8 list \<Rightarrow> unit mem_op" where
  "put_sender_key address record = modifyS (\<lambda>s. s\<lparr>im_sender_keys := AList.update address record (im_sender_keys s)\<rparr>)"

definition get_sender_key :: "str \<Rightarrow> u8 list option mem_op" where
  "get_sender_key address = readM (\<lambda>s. map_of (im_sender_keys s) address)"

definition delete_sender_key :: "str \<Rightarrow> unit mem_op" where
  "delete_sender_key address = modifyS (\<lambda>s. s\<lparr>im_sender_keys := AList.delete address (im_sender_keys s)\<rparr>)"

section \<open>App state store\<close>

definition get_sync_key :: "u8 list \<Rightarrow> app_state_sync_key option mem_op" where
  "get_sync_key key_id = readM (\<lambda>s. map_of (im_sync_keys s) key_id)"

definition set_sync_key :: "u8 list \<Rightarrow> app_state_sync_key \<Rightarrow> unit mem_op" where
  "set_sync_key key_id key = modifyS (\<lambda>s. s\<lparr>im_sync_keys := AList.update key_id key (im_sync_keys s), im_latest_sync_key_id := Some key_id\<rparr>)"

definition get_version :: "str \<Rightarrow> hash_state mem_op" where
  "get_version name = readM (\<lambda>s. case map_of (im_versions s) name of Some st \<Rightarrow> st | None \<Rightarrow> hash_state_default)"

definition set_version :: "str \<Rightarrow> hash_state \<Rightarrow> unit mem_op" where
  "set_version name st = modifyS (\<lambda>s. s\<lparr>im_versions := AList.update name st (im_versions s)\<rparr>)"

definition put_mutation_macs :: "str \<Rightarrow> u64 \<Rightarrow> app_state_mutation_mac list \<Rightarrow> unit mem_op" where
  "put_mutation_macs name version mutations = modifyS (\<lambda>s. s\<lparr>im_mutation_macs :=
       fold (\<lambda>m. AList.update (name, am_index_mac m) (am_value_mac m)) mutations (im_mutation_macs s)\<rparr>)"

definition get_mutation_mac :: "str \<Rightarrow> u8 list \<Rightarrow> u8 list option mem_op" where
  "get_mutation_mac name index_mac = readM (\<lambda>s. map_of (im_mutation_macs s) (name, index_mac))"

definition delete_mutation_macs :: "str \<Rightarrow> u8 list list \<Rightarrow> unit mem_op" where
  "delete_mutation_macs name index_macs = modifyS (\<lambda>s. s\<lparr>im_mutation_macs := fold (\<lambda>im. AList.delete (name, im)) index_macs (im_mutation_macs s)\<rparr>)"

definition clear_mutation_macs :: "str \<Rightarrow> unit mem_op" where
  "clear_mutation_macs name = modifyS (\<lambda>s. s\<lparr>im_mutation_macs := hm_retain (\<lambda>(n, _) _. n \<noteq> name) (im_mutation_macs s)\<rparr>)"

definition get_latest_sync_key_id :: "u8 list option mem_op" where
  "get_latest_sync_key_id = readM (\<lambda>s. im_latest_sync_key_id s)"

section \<open>Protocol store\<close>

definition get_sender_key_devices :: "str \<Rightarrow> (str \<times> bool) list mem_op" where
  "get_sender_key_devices group_jid = readM (\<lambda>s. case map_of (im_sender_key_devices s) group_jid of Some m \<Rightarrow> m | None \<Rightarrow> [])"

definition set_sender_key_status :: "str \<Rightarrow> (str \<times> bool) list \<Rightarrow> unit mem_op" where
  "set_sender_key_status group_jid entries = modifyS (\<lambda>s. 
     let m = (case map_of (im_sender_key_devices s) group_jid of Some m \<Rightarrow> m | None \<Rightarrow> [])
     in s\<lparr>im_sender_key_devices :=
          AList.update group_jid (fold (\<lambda>(device_jid, has_key). AList.update device_jid has_key) entries m) (im_sender_key_devices s)\<rparr>)"

definition clear_sender_key_devices :: "str \<Rightarrow> unit mem_op" where
  "clear_sender_key_devices group_jid = modifyS (\<lambda>s. s\<lparr>im_sender_key_devices := AList.delete group_jid (im_sender_key_devices s)\<rparr>)"

definition clear_all_sender_key_devices :: "unit mem_op" where
  "clear_all_sender_key_devices = modifyS (\<lambda>s. s\<lparr>im_sender_key_devices := []\<rparr>)"

definition delete_sender_key_device_rows :: "str list \<Rightarrow> unit mem_op" where
  "delete_sender_key_device_rows device_jids = modifyS (\<lambda>s. if device_jids = [] then s
     else s\<lparr>im_sender_key_devices :=
            map (\<lambda>(g, m). (g, hm_retain (\<lambda>jid _. jid \<notin> set device_jids) m)) (im_sender_key_devices s)\<rparr>)"

definition get_lid_mapping :: "str \<Rightarrow> lid_pn_mapping_entry option mem_op" where
  "get_lid_mapping lid = readM (\<lambda>s. map_of (im_lid_mappings s) lid)"

definition get_pn_mapping :: "str \<Rightarrow> lid_pn_mapping_entry option mem_op" where
  "get_pn_mapping phone = readM (\<lambda>s. Option.bind (map_of (im_pn_to_lid s) phone) (map_of (im_lid_mappings s)))"

definition put_lid_mapping :: "lid_pn_mapping_entry \<Rightarrow> unit mem_op" where
  "put_lid_mapping entry = modifyS (\<lambda>s. 
     let s = (case map_of (im_lid_mappings s) (lp_lid entry) of
                Some old \<Rightarrow>
                  if lp_phone_number old \<noteq> lp_phone_number entry
                  then s\<lparr>im_pn_to_lid := AList.delete (lp_phone_number old) (im_pn_to_lid s)\<rparr> else s
              | None \<Rightarrow> s)
     in s\<lparr>im_pn_to_lid := AList.update (lp_phone_number entry) (lp_lid entry) (im_pn_to_lid s),
          im_lid_mappings := AList.update (lp_lid entry) entry (im_lid_mappings s)\<rparr>)"

definition get_all_lid_mappings :: "lid_pn_mapping_entry list mem_op" where
  "get_all_lid_mappings = readM (\<lambda>s. map snd (im_lid_mappings s))"

definition save_base_key :: "str \<Rightarrow> str \<Rightarrow> u8 list \<Rightarrow> unit mem_op" where
  "save_base_key address message_id base_key = modifyS (\<lambda>s. s\<lparr>im_base_keys := AList.update (address, message_id) base_key (im_base_keys s)\<rparr>)"

definition has_same_base_key :: "str \<Rightarrow> str \<Rightarrow> u8 list \<Rightarrow> bool mem_op" where
  "has_same_base_key address message_id current_base_key = readM (\<lambda>s. map_of (im_base_keys s) (address, message_id) = Some current_base_key)"

definition delete_base_key :: "str \<Rightarrow> str \<Rightarrow> unit mem_op" where
  "delete_base_key address message_id = modifyS (\<lambda>s. s\<lparr>im_base_keys := AList.delete (address, message_id) (im_base_keys s)\<rparr>)"

definition update_device_list :: "device_list_record \<Rightarrow> unit mem_op" where
  "update_device_list record = modifyS (\<lambda>s. s\<lparr>im_device_lists := AList.update (dl_user record) record (im_device_lists s)\<rparr>)"

definition get_devices :: "str \<Rightarrow> device_list_record option mem_op" where
  "get_devices user = readM (\<lambda>s. map_of (im_device_lists s) user)"

definition delete_devices :: "str \<Rightarrow> unit mem_op" where
  "delete_devices user = modifyS (\<lambda>s. s\<lparr>im_device_lists := AList.delete user (im_device_lists s)\<rparr>)"

definition get_group_metadata :: "str \<Rightarrow> u8 list option mem_op" where
  "get_group_metadata group_jid = readM (\<lambda>s. map_of (im_group_metadata s) group_jid)"

definition put_group_metadata :: "str \<Rightarrow> u8 list \<Rightarrow> unit mem_op" where
  "put_group_metadata group_jid blob = modifyS (\<lambda>s. s\<lparr>im_group_metadata := AList.update group_jid blob (im_group_metadata s)\<rparr>)"

definition delete_group_metadata :: "str \<Rightarrow> unit mem_op" where
  "delete_group_metadata group_jid = modifyS (\<lambda>s. s\<lparr>im_group_metadata := AList.delete group_jid (im_group_metadata s)\<rparr>)"

definition get_tc_token :: "str \<Rightarrow> tc_token_entry option mem_op" where
  "get_tc_token jid = readM (\<lambda>s. map_of (im_tc_tokens s) jid)"

definition put_tc_token :: "str \<Rightarrow> tc_token_entry \<Rightarrow> unit mem_op" where
  "put_tc_token jid entry = modifyS (\<lambda>s. s\<lparr>im_tc_tokens := AList.update jid entry (im_tc_tokens s)\<rparr>)"

definition delete_tc_token :: "str \<Rightarrow> unit mem_op" where
  "delete_tc_token jid = modifyS (\<lambda>s. s\<lparr>im_tc_tokens := AList.delete jid (im_tc_tokens s)\<rparr>)"

definition get_all_tc_token_jids :: "str list mem_op" where
  "get_all_tc_token_jids = readM (\<lambda>s. map fst (im_tc_tokens s))"

definition delete_expired_tc_tokens :: "int \<Rightarrow> u32 mem_op" where
  "delete_expired_tc_tokens cutoff_timestamp s =
     (let kept = hm_retain (\<lambda>_ entry. tc_token_timestamp entry \<ge> cutoff_timestamp) (im_tc_tokens s)
      in (Inr (of_nat (length (im_tc_tokens s) - length kept)), s\<lparr>im_tc_tokens := kept\<rparr>))"

text \<open>Entries of equal age are dropped in an order the source leaves open.\<close>

definition evict_sent_messages :: "(str \<times> str, sent_message_entry) hmap \<Rightarrow> (str \<times> str, sent_message_entry) hmap" where
  "evict_sent_messages m =
     (if length m \<ge> MAX_SENT_MESSAGES
      then
        let target = MAX_SENT_MESSAGES * 3 div 4;
            drop_count = length m - target;
            by_age = sort_key fst (map (\<lambda>(k, e). (sm_timestamp e, k)) m)
        in fold (\<lambda>(_, k). AList.delete k) (take drop_count by_age) m
      else m)"

definition store_sent_message :: "int \<Rightarrow> str \<Rightarrow> str \<Rightarrow> u8 list \<Rightarrow> unit mem_op" where
  "store_sent_message now chat_jid message_id payload = modifyS (\<lambda>s.
     s\<lparr>im_sent_messages := AList.update (chat_jid, message_id) \<lparr>sm_payload = payload, sm_timestamp = now\<rparr>
        (evict_sent_messages (im_sent_messages s))\<rparr>)"

definition take_sent_message :: "str \<Rightarrow> str \<Rightarrow> u8 list option mem_op" where
  "take_sent_message chat_jid message_id s =
     (Inr (map_option sm_payload (map_of (im_sent_messages s) (chat_jid, message_id))),
      s\<lparr>im_sent_messages := AList.delete (chat_jid, message_id) (im_sent_messages s)\<rparr>)"

definition delete_expired_sent_messages :: "int \<Rightarrow> u32 mem_op" where
  "delete_expired_sent_messages cutoff_timestamp s =
     (let kept = hm_retain (\<lambda>_ entry. sm_timestamp entry \<ge> cutoff_timestamp) (im_sent_messages s)
      in (Inr (of_nat (length (im_sent_messages s) - length kept)), s\<lparr>im_sent_messages := kept\<rparr>))"

section \<open>Message secrets and device\<close>

definition put_secret :: "msg_secret_entry \<Rightarrow> (str \<times> str \<times> str, msg_secret_row) hmap \<Rightarrow> (str \<times> str \<times> str, msg_secret_row) hmap" where
  "put_secret entry m =
     (let key = (ms_chat entry, ms_sender entry, ms_msg_id entry);
          (expires_at, message_ts) =
            (case map_of m key of
               Some (_, existing_exp, existing_ts) \<Rightarrow>
                 (merge_msg_secret_expiry existing_exp (ms_expires_at entry),
                  merge_msg_secret_message_ts existing_ts (ms_message_ts entry))
             | None \<Rightarrow> (ms_expires_at entry, ms_message_ts entry))
      in AList.update key (ms_secret entry, expires_at, message_ts) m)"

definition put_msg_secrets :: "msg_secret_entry list \<Rightarrow> nat mem_op" where
  "put_msg_secrets entries s = (Inr (length entries), s\<lparr>im_msg_secrets := fold put_secret entries (im_msg_secrets s)\<rparr>)"

definition get_msg_secret_with_ts :: "str \<Rightarrow> str \<Rightarrow> str \<Rightarrow> (u8 list \<times> int) option mem_op" where
  "get_msg_secret_with_ts chat sender msg_id = readM (\<lambda>s.
     map_option (\<lambda>(secret, _, message_ts). (secret, message_ts)) (map_of (im_msg_secrets s) (chat, sender, msg_id)))"

definition get_msg_secret :: "str \<Rightarrow> str \<Rightarrow> str \<Rightarrow> u8 list option mem_op" where
  "get_msg_secret chat sender msg_id =
     bindS (get_msg_secret_with_ts chat sender msg_id) (\<lambda>r. returnS (map_option fst r))"

definition delete_expired_msg_secrets :: "int \<Rightarrow> u32 mem_op" where
  "delete_expired_msg_secrets cutoff_timestamp s =
     (let kept = hm_retain (\<lambda>_ (_, expires_at, _). expires_at = 0 \<or> expires_at > cutoff_timestamp) (im_msg_secrets s)
      in (Inr (of_nat (length (im_msg_secrets s) - length kept)), s\<lparr>im_msg_secrets := kept\<rparr>))"

definition save_device :: "device \<Rightarrow> unit mem_op" where
  "save_device d = modifyS (\<lambda>s. s\<lparr>im_device := Some d\<rparr>)"

definition load_device :: "device option mem_op" where
  "load_device = readM (\<lambda>s. im_device s)"

definition device_exists :: "bool mem_op" where
  "device_exists = readM (\<lambda>s. im_device s \<noteq> None)"

text \<open>\<open>new_device\<close> is \<open>Device::new\<close>, which draws fresh keys.\<close>

definition create_device :: "device \<Rightarrow> 32 word mem_op" where
  "create_device new_device s =
     (Inr (im_next_device_id s),
      s\<lparr>im_next_device_id := im_next_device_id s + 1,
        im_device := (case im_device s of None \<Rightarrow> Some new_device | Some d \<Rightarrow> Some d)\<rparr>)"

section \<open>Reachable states\<close>

text \<open>Every operation that changes the state, as a command.\<close>

datatype mem_cmd =
    PutIdentity str "u8 list"
  | DeleteIdentity str
  | PutSession str "u8 list"
  | DeleteSession str
  | StorePrekey u32 "u8 list" bool
  | MarkPrekeysUploaded "u32 list"
  | StorePrekeysBatch "(u32 \<times> u8 list) list" bool
  | RemovePrekey u32
  | StoreSignedPrekey u32 "u8 list"
  | RemoveSignedPrekey u32
  | PutSenderKey str "u8 list"
  | DeleteSenderKey str
  | SetSyncKey "u8 list" app_state_sync_key
  | SetVersion str hash_state
  | PutMutationMacs str u64 "app_state_mutation_mac list"
  | DeleteMutationMacs str "u8 list list"
  | ClearMutationMacs str
  | SetSenderKeyStatus str "(str \<times> bool) list"
  | ClearSenderKeyDevices str
  | ClearAllSenderKeyDevices
  | DeleteSenderKeyDeviceRows "str list"
  | PutLidMapping lid_pn_mapping_entry
  | SaveBaseKey str str "u8 list"
  | DeleteBaseKey str str
  | UpdateDeviceList device_list_record
  | DeleteDevices str
  | PutGroupMetadata str "u8 list"
  | DeleteGroupMetadata str
  | PutTcToken str tc_token_entry
  | DeleteTcToken str
  | DeleteExpiredTcTokens int
  | StoreSentMessage int str str "u8 list"
  | TakeSentMessage str str
  | DeleteExpiredSentMessages int
  | PutMsgSecrets "msg_secret_entry list"
  | DeleteExpiredMsgSecrets int
  | SaveDevice device
  | CreateDevice device

fun mem_run :: "mem_cmd \<Rightarrow> in_memory_state \<Rightarrow> in_memory_state" where
  "mem_run (PutIdentity x0 x1) s = snd (put_identity x0 x1 s)"
| "mem_run (DeleteIdentity x0) s = snd (delete_identity x0 s)"
| "mem_run (PutSession x0 x1) s = snd (put_session x0 x1 s)"
| "mem_run (DeleteSession x0) s = snd (delete_session x0 s)"
| "mem_run (StorePrekey x0 x1 x2) s = snd (store_prekey x0 x1 x2 s)"
| "mem_run (MarkPrekeysUploaded x0) s = snd (mark_prekeys_uploaded x0 s)"
| "mem_run (StorePrekeysBatch x0 x1) s = snd (store_prekeys_batch x0 x1 s)"
| "mem_run (RemovePrekey x0) s = snd (remove_prekey x0 s)"
| "mem_run (StoreSignedPrekey x0 x1) s = snd (store_signed_prekey x0 x1 s)"
| "mem_run (RemoveSignedPrekey x0) s = snd (remove_signed_prekey x0 s)"
| "mem_run (PutSenderKey x0 x1) s = snd (put_sender_key x0 x1 s)"
| "mem_run (DeleteSenderKey x0) s = snd (delete_sender_key x0 s)"
| "mem_run (SetSyncKey x0 x1) s = snd (set_sync_key x0 x1 s)"
| "mem_run (SetVersion x0 x1) s = snd (set_version x0 x1 s)"
| "mem_run (PutMutationMacs x0 x1 x2) s = snd (put_mutation_macs x0 x1 x2 s)"
| "mem_run (DeleteMutationMacs x0 x1) s = snd (delete_mutation_macs x0 x1 s)"
| "mem_run (ClearMutationMacs x0) s = snd (clear_mutation_macs x0 s)"
| "mem_run (SetSenderKeyStatus x0 x1) s = snd (set_sender_key_status x0 x1 s)"
| "mem_run (ClearSenderKeyDevices x0) s = snd (clear_sender_key_devices x0 s)"
| "mem_run ClearAllSenderKeyDevices s = snd (clear_all_sender_key_devices s)"
| "mem_run (DeleteSenderKeyDeviceRows x0) s = snd (delete_sender_key_device_rows x0 s)"
| "mem_run (PutLidMapping x0) s = snd (put_lid_mapping x0 s)"
| "mem_run (SaveBaseKey x0 x1 x2) s = snd (save_base_key x0 x1 x2 s)"
| "mem_run (DeleteBaseKey x0 x1) s = snd (delete_base_key x0 x1 s)"
| "mem_run (UpdateDeviceList x0) s = snd (update_device_list x0 s)"
| "mem_run (DeleteDevices x0) s = snd (delete_devices x0 s)"
| "mem_run (PutGroupMetadata x0 x1) s = snd (put_group_metadata x0 x1 s)"
| "mem_run (DeleteGroupMetadata x0) s = snd (delete_group_metadata x0 s)"
| "mem_run (PutTcToken x0 x1) s = snd (put_tc_token x0 x1 s)"
| "mem_run (DeleteTcToken x0) s = snd (delete_tc_token x0 s)"
| "mem_run (DeleteExpiredTcTokens x0) s = snd (delete_expired_tc_tokens x0 s)"
| "mem_run (StoreSentMessage x0 x1 x2 x3) s = snd (store_sent_message x0 x1 x2 x3 s)"
| "mem_run (TakeSentMessage x0 x1) s = snd (take_sent_message x0 x1 s)"
| "mem_run (DeleteExpiredSentMessages x0) s = snd (delete_expired_sent_messages x0 s)"
| "mem_run (PutMsgSecrets x0) s = snd (put_msg_secrets x0 s)"
| "mem_run (DeleteExpiredMsgSecrets x0) s = snd (delete_expired_msg_secrets x0 s)"
| "mem_run (SaveDevice x0) s = snd (save_device x0 s)"
| "mem_run (CreateDevice x0) s = snd (create_device x0 s)"

definition mem_reachable :: "in_memory_state \<Rightarrow> bool" where
  "mem_reachable s \<longleftrightarrow> (\<exists>cmds. s = fold mem_run cmds in_memory_new)"

definition reverse_index :: "(str, lid_pn_mapping_entry) hmap \<Rightarrow> (str, str) hmap \<Rightarrow> bool" where
  "reverse_index m r \<longleftrightarrow> (\<forall>p l. map_of r p = Some l \<longrightarrow> (\<exists>e. map_of m l = Some e \<and> lp_phone_number e = p \<and> lp_lid e = l))"

definition mem_inv :: "in_memory_state \<Rightarrow> bool" where
  "mem_inv s \<longleftrightarrow> distinct (map fst (im_prekeys s)) \<and> distinct (map fst (im_tc_tokens s)) \<and>
     distinct (map fst (im_msg_secrets s)) \<and> distinct (map fst (im_sent_messages s)) \<and>
     length (im_sent_messages s) \<le> MAX_SENT_MESSAGES \<and>
     reverse_index (im_lid_mappings s) (im_pn_to_lid s) \<and>
     (\<forall>u r. map_of (im_device_lists s) u = Some r \<longrightarrow> dl_user r = u)"

lemma map_of_update [simp]: "map_of (AList.update k v m) x = (if x = k then Some v else map_of m x)"
  by (simp add: AList.update_conv)

lemma map_of_delete [simp]: "map_of (AList.delete k m) x = (if x = k then None else map_of m x)"
  by (simp add: AList.delete_conv)

lemma distinct_retain [simp]: "distinct (map fst m) \<Longrightarrow> distinct (map fst (hm_retain P m))"
  unfolding hm_retain_def by (rule distinct_map_filter)

lemma map_of_retain: "distinct (map fst m) \<Longrightarrow>
  map_of (hm_retain P m) k = (case map_of m k of Some v \<Rightarrow> if P k v then Some v else None | None \<Rightarrow> None)"
proof (induction m)
  case (Cons a m)
  obtain k' v where a: "a = (k', v)" by fastforce
  have "map_of m k' = None" using Cons.prems a by (auto simp: map_of_eq_None_iff)
  with Cons a show ?case by (auto simp: hm_retain_def split: option.splits)
qed (simp add: hm_retain_def)

lemma length_retain [simp]: "length (hm_retain P m) \<le> length m"
  by (simp add: hm_retain_def)

lemma length_update: "length (AList.update k v m) = (if k \<in> fst ` set m then length m else Suc (length m))"
  by (induction m) auto

lemma length_delete: "length (AList.delete k m) \<le> length m"
  by (simp add: AList.delete_eq)

lemma distinct_fold_update:
  "distinct (map fst m) \<Longrightarrow> distinct (map fst (fold (\<lambda>(k, v). AList.update k v) kvs m))"
  by (induction kvs arbitrary: m) (auto simp: AList.distinct_update)

lemma distinct_put_secrets: "distinct (map fst m) \<Longrightarrow> distinct (map fst (fold put_secret es m))"
  by (induction es arbitrary: m) (auto simp: put_secret_def split_def Let_def AList.distinct_update)

section \<open>Eviction\<close>

lemma fold_delete_filter: "fold (\<lambda>(_, k). AList.delete k) xs m = filter (\<lambda>(k, v). k \<notin> snd ` set xs) m"
  by (induction xs arbitrary: m) (auto simp: AList.delete_eq split_def intro: filter_cong)

lemma evict_parts:
  assumes "distinct (map fst m)" "length m = MAX_SENT_MESSAGES"
  obtains gone where "evict_sent_messages m = filter (\<lambda>(k, v). k \<notin> gone) m" "gone \<subseteq> fst ` set m" "card gone = 1024"
    "\<And>k e k' e'. (k, e) \<in> set m \<Longrightarrow> k \<in> gone \<Longrightarrow> (k', e') \<in> set m \<Longrightarrow> k' \<notin> gone \<Longrightarrow> sm_timestamp e \<le> sm_timestamp e'"
proof -
  let ?ks = "sort_key fst (map (\<lambda>(k, e). (sm_timestamp e, k)) m)"
  let ?gone = "snd ` set (take 1024 ?ks)"
  have dk: "distinct (map snd ?ks)"
  proof -
    have "mset (map snd ?ks) = mset (map fst m)" by (simp add: split_def image_mset.compositionality comp_def)
    with assms(1) show ?thesis by (metis mset_eq_imp_distinct_iff)
  qed
  have len: "length ?ks = 4096" using assms(2) by (simp add: MAX_SENT_MESSAGES_def)
  have 1: "evict_sent_messages m = filter (\<lambda>(k, v). k \<notin> ?gone) m"
    using assms(2) by (simp add: evict_sent_messages_def MAX_SENT_MESSAGES_def fold_delete_filter Let_def)
  have 2: "?gone \<subseteq> fst ` set m"
    using set_take_subset [of 1024 ?ks] by (force simp: image_iff)
  have "distinct (take 1024 (map snd ?ks))" using dk by (rule distinct_take)
  then have 3: "card ?gone = 1024"
    using distinct_card [of "take 1024 (map snd ?ks)"] len by (simp add: take_map)
  have "sorted (map fst (take 1024 ?ks @ drop 1024 ?ks))" by (simp only: append_take_drop_id) simp
  then have old: "fst x \<le> fst y" if "x \<in> set (take 1024 ?ks)" "y \<in> set (drop 1024 ?ks)" for x y
    using that by (auto simp only: map_append sorted_append set_map) 
  have 4: "sm_timestamp e \<le> sm_timestamp e'" if h: "(k, e) \<in> set m" "k \<in> ?gone" "(k', e') \<in> set m" "k' \<notin> ?gone" for k e k' e'
  proof -
    obtain t where t: "(t, k) \<in> set (take 1024 ?ks)" using h(2) by force
    then have "(t, k) \<in> set ?ks" by (rule in_set_takeD)
    then obtain e1 where "(k, e1) \<in> set m" "t = sm_timestamp e1" by auto
    then have te: "t = sm_timestamp e" using h(1) assms(1) by (metis eq_key_imp_eq_value)
    have "(sm_timestamp e', k') \<in> set ?ks" using h(3) by force
    moreover have "(sm_timestamp e', k') \<notin> set (take 1024 ?ks)" using h(4) by force
    ultimately have "(sm_timestamp e', k') \<in> set (drop 1024 ?ks)"
      by (metis UnE append_take_drop_id set_append)
    from old [OF t this] te show ?thesis by simp
  qed
  show ?thesis using that [of ?gone] 1 2 3 4 by blast
qed

lemma evict_inv:
  assumes "distinct (map fst m)" "length m \<le> MAX_SENT_MESSAGES"
  shows "distinct (map fst (evict_sent_messages m)) \<and> length (evict_sent_messages m) < MAX_SENT_MESSAGES"
proof (cases "length m = MAX_SENT_MESSAGES")
  case True
  obtain gone where g: "evict_sent_messages m = filter (\<lambda>(k, v). k \<notin> gone) m" "gone \<subseteq> fst ` set m" "card gone = 1024"
    by (rule evict_parts [OF assms(1) True])
  have "gone \<noteq> {}" using g(3) by auto
  then obtain k where k: "k \<in> gone" by blast
  then obtain e where "(k, e) \<in> set m" using g(2) by force
  with k have "length (filter (\<lambda>(k, v). k \<notin> gone) m) < length m" by (intro length_filter_less) auto
  then show ?thesis using g(1) True assms(1) by (auto intro: distinct_map_filter)
next
  case False
  then show ?thesis using assms by (simp add: evict_sent_messages_def)
qed

lemma reverse_index_put:
  assumes "reverse_index m r"
  shows "reverse_index (AList.update (lp_lid e) e m)
    (AList.update (lp_phone_number e) (lp_lid e)
      (case map_of m (lp_lid e) of
         Some old \<Rightarrow> if lp_phone_number old \<noteq> lp_phone_number e then AList.delete (lp_phone_number old) r else r
       | None \<Rightarrow> r))" (is "reverse_index ?m ?r")
  unfolding reverse_index_def
proof (intro allI impI)
  fix p l assume h: "map_of ?r p = Some l"
  show "\<exists>e'. map_of ?m l = Some e' \<and> lp_phone_number e' = p \<and> lp_lid e' = l"
  proof (cases "p = lp_phone_number e")
    case False
    then have r: "map_of r p = Some l" using h by (auto split: option.splits if_splits)
    then obtain e' where e': "map_of m l = Some e'" "lp_phone_number e' = p" "lp_lid e' = l"
      using assms unfolding reverse_index_def by blast
    moreover have "l \<noteq> lp_lid e" using h e' False by (auto split: if_splits)
    ultimately show ?thesis by simp
  qed (use h in simp)
qed

lemma mem_inv_frame [simp]:
  "mem_inv (s\<lparr>im_identities := x_identities\<rparr>) = mem_inv s"
  "mem_inv (s\<lparr>im_sessions := x_sessions\<rparr>) = mem_inv s"
  "mem_inv (s\<lparr>im_signed_prekeys := x_signed_prekeys\<rparr>) = mem_inv s"
  "mem_inv (s\<lparr>im_sender_keys := x_sender_keys\<rparr>) = mem_inv s"
  "mem_inv (s\<lparr>im_sync_keys := x_sync_keys\<rparr>) = mem_inv s"
  "mem_inv (s\<lparr>im_latest_sync_key_id := x_latest_sync_key_id\<rparr>) = mem_inv s"
  "mem_inv (s\<lparr>im_versions := x_versions\<rparr>) = mem_inv s"
  "mem_inv (s\<lparr>im_mutation_macs := x_mutation_macs\<rparr>) = mem_inv s"
  "mem_inv (s\<lparr>im_sender_key_devices := x_sender_key_devices\<rparr>) = mem_inv s"
  "mem_inv (s\<lparr>im_base_keys := x_base_keys\<rparr>) = mem_inv s"
  "mem_inv (s\<lparr>im_group_metadata := x_group_metadata\<rparr>) = mem_inv s"
  "mem_inv (s\<lparr>im_device := x_device\<rparr>) = mem_inv s"
  "mem_inv (s\<lparr>im_next_device_id := x_next_device_id\<rparr>) = mem_inv s"
  by (simp_all add: mem_inv_def)

lemmas mem_write_defs = put_identity_def delete_identity_def put_session_def delete_session_def
  store_signed_prekey_def remove_signed_prekey_def mark_prekeys_uploaded_def put_sender_key_def delete_sender_key_def set_sync_key_def
  set_version_def put_mutation_macs_def delete_mutation_macs_def clear_mutation_macs_def set_sender_key_status_def
  clear_sender_key_devices_def clear_all_sender_key_devices_def delete_sender_key_device_rows_def save_base_key_def
  delete_base_key_def put_group_metadata_def delete_group_metadata_def save_device_def create_device_def

lemmas mem_inv_writes = mem_inv_def store_prekey_def store_prekeys_batch_def remove_prekey_def update_device_list_def
  delete_devices_def put_tc_token_def delete_tc_token_def delete_expired_tc_tokens_def put_msg_secrets_def
  delete_expired_msg_secrets_def put_lid_mapping_def store_sent_message_def take_sent_message_def delete_expired_sent_messages_def

lemma put_lid_mapping_inv:
  assumes "mem_inv s"
  shows "mem_inv (snd (put_lid_mapping e s))"
  using assms reverse_index_put [of "im_lid_mappings s" "im_pn_to_lid s" e]
  by (cases "map_of (im_lid_mappings s) (lp_lid e)") (auto simp: mem_inv_writes Let_def split: if_splits)

lemma sent_message_inv:
  assumes "mem_inv s"
  shows "mem_inv (snd (store_sent_message now c i p s))" "mem_inv (snd (take_sent_message c i s))"
    "mem_inv (snd (delete_expired_sent_messages t s))"
proof -
  show "mem_inv (snd (store_sent_message now c i p s))"
    using assms evict_inv [of "im_sent_messages s"] by (simp add: mem_inv_writes AList.distinct_update length_update)
  show "mem_inv (snd (take_sent_message c i s))"
    using assms length_delete [of "(c, i)" "im_sent_messages s"] by (simp add: mem_inv_writes AList.distinct_delete)
  show "mem_inv (snd (delete_expired_sent_messages t s))"
    using assms length_retain [of "\<lambda>_ e. sm_timestamp e \<ge> t" "im_sent_messages s"]
    by (simp add: mem_inv_writes Let_def del: length_retain)
qed

lemma other_writes_inv:
  assumes "mem_inv s"
  shows "mem_inv (snd (store_prekey i r u s))" "mem_inv (snd (store_prekeys_batch ks u s))" "mem_inv (snd (remove_prekey i s))"
    "mem_inv (snd (update_device_list dl s))" "mem_inv (snd (delete_devices n s))" "mem_inv (snd (put_tc_token n tc s))"
    "mem_inv (snd (delete_tc_token n s))" "mem_inv (snd (delete_expired_tc_tokens t s))" "mem_inv (snd (put_msg_secrets es s))"
    "mem_inv (snd (delete_expired_msg_secrets t s))"
  using assms
  by (simp_all add: mem_inv_writes Let_def AList.distinct_update AList.distinct_delete distinct_fold_update distinct_put_secrets)

lemma mem_run_inv: "mem_inv s \<Longrightarrow> mem_inv (mem_run c s)"
  by (cases c) (simp_all add: put_lid_mapping_inv sent_message_inv other_writes_inv mem_write_defs Let_def)

lemma mem_reachable_inv: "mem_reachable s \<Longrightarrow> mem_inv s"
proof -
  have "mem_inv in_memory_new" by (simp add: mem_inv_def in_memory_new_def reverse_index_def)
  then have "mem_inv (fold mem_run cmds in_memory_new)" for cmds
    by (induction cmds rule: rev_induct) (simp_all add: mem_run_inv)
  then show "mem_reachable s \<Longrightarrow> mem_inv s" by (auto simp: mem_reachable_def)
qed

lemma mem_reachable_run: "mem_reachable s \<Longrightarrow> mem_reachable (mem_run c s)"
proof -
  assume "mem_reachable s"
  then obtain cmds where "s = fold mem_run cmds in_memory_new" by (auto simp: mem_reachable_def)
  then have "mem_run c s = fold mem_run (cmds @ [c]) in_memory_new" by simp
  then show ?thesis unfolding mem_reachable_def by blast
qed

section \<open>The app state contract\<close>

definition mem_ops :: "in_memory_state app_sync_ops" where
  "mem_ops =
     \<lparr>op_get_sync_key = get_sync_key, op_set_sync_key = set_sync_key, op_get_version = get_version,
      op_set_version = set_version, op_put_mutation_macs = put_mutation_macs, op_get_mutation_mac = get_mutation_mac,
      op_delete_mutation_macs = delete_mutation_macs, op_clear_mutation_macs = clear_mutation_macs,
      op_get_latest_sync_key_id = get_latest_sync_key_id\<rparr>"

definition mem_ver :: "in_memory_state \<Rightarrow> str \<Rightarrow> hash_state" where
  "mem_ver s n = (case map_of (im_versions s) n of Some st \<Rightarrow> st | None \<Rightarrow> hash_state_default)"

definition mem_macs :: "in_memory_state \<Rightarrow> str \<Rightarrow> mac_map" where
  "mem_macs s n = (\<lambda>i. map_of (im_mutation_macs s) (n, i))"

lemma map_of_put_macs:
  "map_of (fold (\<lambda>m. AList.update (n, am_index_mac m) (am_value_mac m)) ms M) (n', i) =
   (if n' = n then store_after (\<lambda>i. map_of M (n, i)) [] ms i else map_of M (n', i))"
proof (induction ms arbitrary: M)
  case (Cons m ms)
  have "(\<lambda>i. map_of (AList.update (n, am_index_mac m) (am_value_mac m) M) (n, i)) =
      (\<lambda>i. map_of M (n, i))(am_index_mac m \<mapsto> am_value_mac m)" by (simp add: fun_eq_iff)
  with Cons show ?case by (simp add: store_after_def)
qed (simp add: store_after_def)

lemma map_of_delete_macs:
  "map_of (fold (\<lambda>im. AList.delete (n, im)) ims M) (n', i) =
   (if n' = n then store_after (\<lambda>i. map_of M (n, i)) ims [] i else map_of M (n', i))"
  by (induction ims arbitrary: M) (auto simp: store_after_def fold_delete)

lemma map_of_clear_macs:
  "map_of (hm_retain (\<lambda>(n, _) _. n \<noteq> name) M) (n', i) = (if n' = name then None else map_of M (n', i))"
  by (induction M) (auto simp: hm_retain_def)

interpretation mem: reliable_app_sync_store mem_ops mem_ver mem_macs
  by unfold_locales
    (auto simp: mem_ops_def mem_ver_def mem_macs_def get_sync_key_def get_version_def get_mutation_mac_def readM_def
      set_version_def put_mutation_macs_def delete_mutation_macs_def clear_mutation_macs_def fun_eq_iff
      map_of_put_macs map_of_delete_macs map_of_clear_macs)

section \<open>What the store promises\<close>

text \<open>C21: in every reachable state a lookup by phone number gives a mapping of that phone
  number, which the lookup by its LID gives as well; a device list is found under its own user; and at most 4096 sent
  messages are held.\<close>

theorem phone_lookup_consistent:
  assumes "mem_reachable s"
  shows "(fst (get_pn_mapping phone s) = Inr (Some e) \<longrightarrow>
      lp_phone_number e = phone \<and> fst (get_lid_mapping (lp_lid e) s) = Inr (Some e)) \<and>
    (fst (get_devices user s) = Inr (Some rec) \<longrightarrow> dl_user rec = user) \<and>
    length (im_sent_messages s) \<le> 4096"
proof -
  have inv: "mem_inv s" using assms by (rule mem_reachable_inv)
  have "lp_phone_number e = phone \<and> map_of (im_lid_mappings s) (lp_lid e) = Some e"
    if "Option.bind (map_of (im_pn_to_lid s) phone) (map_of (im_lid_mappings s)) = Some e"
    using that inv unfolding mem_inv_def reverse_index_def by (auto simp: bind_eq_Some_conv) fastforce+
  with inv show ?thesis
    by (simp add: get_pn_mapping_def get_lid_mapping_def get_devices_def readM_def mem_inv_def MAX_SENT_MESSAGES_def)
qed

definition sample_mapping :: "str \<Rightarrow> str \<Rightarrow> lid_pn_mapping_entry" where
  "sample_mapping lid phone =
     \<lparr>lp_lid = lid, lp_phone_number = phone, lp_created_at = 0, lp_updated_at = 0, lp_learning_source = []\<rparr>"

definition sample_mem :: in_memory_state where
  "sample_mem = fold mem_run [PutLidMapping (sample_mapping [1] [7]), PutLidMapping (sample_mapping [2] [7])] in_memory_new"

lemma sample_mem_reachable: "mem_reachable sample_mem"
  unfolding mem_reachable_def sample_mem_def by blast

lemmas sample_mem_simps = sample_mem_def in_memory_new_def put_lid_mapping_def sample_mapping_def

theorem phone_lookup_consistent_witness:
  "fst (get_pn_mapping [7] sample_mem) = Inr (Some (sample_mapping [2] [7])) \<and>
    fst (get_lid_mapping [2] sample_mem) = Inr (Some (sample_mapping [2] [7]))"
proof -
  have "fst (get_pn_mapping [7] sample_mem) = Inr (Some (sample_mapping [2] [7]))"
    by (simp add: sample_mem_simps get_pn_mapping_def readM_def)
  with phone_lookup_consistent [OF sample_mem_reachable, of "[7]" "sample_mapping [2] [7]"] show ?thesis
    by (simp add: sample_mapping_def)
qed

text \<open>C38: two LIDs were stored with one phone number, the second one last.  Storing the first
  with another number removes the number from the reverse index, so the lookup by the number finds nothing although the
  second LID is still stored with it.\<close>

theorem mapping_forgotten:
  assumes "map_of (im_lid_mappings s) l1 = Some e1" "map_of (im_lid_mappings s) l2 = Some e2" "l1 \<noteq> l2"
    and "lp_phone_number e1 = p" "lp_phone_number e2 = p" "map_of (im_pn_to_lid s) p = Some l2"
    and "lp_lid e = l1" "lp_phone_number e \<noteq> p"
  shows "fst (get_pn_mapping p (snd (put_lid_mapping e s))) = Inr None \<and>
    fst (get_lid_mapping l2 (snd (put_lid_mapping e s))) = Inr (Some e2) \<and> lp_phone_number e2 = p"
  using assms by (auto simp: get_pn_mapping_def get_lid_mapping_def readM_def put_lid_mapping_def Let_def)

theorem mapping_forgotten_witness:
  "mem_reachable sample_mem \<and> fst (get_pn_mapping [7] sample_mem) = Inr (Some (sample_mapping [2] [7])) \<and>
    fst (get_pn_mapping [7] (snd (put_lid_mapping (sample_mapping [1] [8]) sample_mem))) = Inr None \<and>
    fst (get_lid_mapping [2] (snd (put_lid_mapping (sample_mapping [1] [8]) sample_mem))) = Inr (Some (sample_mapping [2] [7]))"
proof -
  have m: "map_of (im_lid_mappings sample_mem) [1] = Some (sample_mapping [1] [7])"
    "map_of (im_lid_mappings sample_mem) [2] = Some (sample_mapping [2] [7])" "map_of (im_pn_to_lid sample_mem) [7] = Some [2]"
    by (simp_all add: sample_mem_simps)
  then have "fst (get_pn_mapping [7] sample_mem) = Inr (Some (sample_mapping [2] [7]))"
    by (simp add: get_pn_mapping_def readM_def)
  with mapping_forgotten [OF m(1,2) _ _ _ m(3), of "sample_mapping [1] [8]"] sample_mem_reachable show ?thesis
    by (simp add: sample_mapping_def)
qed

lemma map_of_filter_key: "map_of (filter (\<lambda>(k, v). P k) m) k = (if P k then map_of m k else None)"
  by (induction m) auto

text \<open>C27: a sent message is kept for the next take, which gives it once.  A message that
  is lost by storing another was dropped from a full store, and every earlier message that is kept is at least as new.\<close>

theorem eviction_keeps_newest:
  assumes "mem_reachable s"
  shows "let s' = snd (store_sent_message now chat ident payload s) in
    fst (take_sent_message chat ident s') = Inr (Some payload) \<and>
    fst (take_sent_message chat ident (snd (take_sent_message chat ident s'))) = Inr None \<and>
    (\<forall>k e. map_of (im_sent_messages s) k = Some e \<and> map_of (im_sent_messages s') k = None \<longrightarrow>
       length (im_sent_messages s) = 4096 \<and>
       (\<forall>k' e'. k' \<noteq> (chat, ident) \<and> map_of (im_sent_messages s') k' = Some e' \<longrightarrow> sm_timestamp e \<le> sm_timestamp e'))"
proof -
  let ?m = "im_sent_messages s"
  let ?s' = "snd (store_sent_message now chat ident payload s)"
  have inv: "distinct (map fst ?m)" "length ?m \<le> MAX_SENT_MESSAGES"
    using mem_reachable_inv [OF assms] by (simp_all add: mem_inv_def)
  have s': "map_of (im_sent_messages ?s') k =
      (if k = (chat, ident) then Some \<lparr>sm_payload = payload, sm_timestamp = now\<rparr> else map_of (evict_sent_messages ?m) k)" for k
    by (simp add: store_sent_message_def)
  have lost: "length ?m = 4096 \<and> (\<forall>k' e'. k' \<noteq> (chat, ident) \<and> map_of (im_sent_messages ?s') k' = Some e' \<longrightarrow> sm_timestamp e \<le> sm_timestamp e')"
    if h: "map_of ?m k = Some e" "map_of (im_sent_messages ?s') k = None" for k e
  proof (cases "length ?m = MAX_SENT_MESSAGES")
    case True
    obtain gone where g: "evict_sent_messages ?m = filter (\<lambda>(k, v). k \<notin> gone) ?m"
      and old: "\<And>k e k' e'. (k, e) \<in> set ?m \<Longrightarrow> k \<in> gone \<Longrightarrow> (k', e') \<in> set ?m \<Longrightarrow> k' \<notin> gone \<Longrightarrow> sm_timestamp e \<le> sm_timestamp e'"
      by (rule evict_parts [OF inv(1) True]) blast
    have "k \<in> gone" using h by (auto simp: s' g map_of_filter_key split: if_splits)
    with old [of k e] h(1) True show ?thesis
      by (auto simp: s' g map_of_filter_key MAX_SENT_MESSAGES_def split: if_splits dest!: map_of_SomeD)
  next
    case False
    then have "evict_sent_messages ?m = ?m" using inv(2) by (simp add: evict_sent_messages_def)
    with h show ?thesis by (simp add: s' split: if_splits)
  qed
  have "fst (take_sent_message chat ident ?s') = Inr (Some payload)"
    "fst (take_sent_message chat ident (snd (take_sent_message chat ident ?s'))) = Inr None"
    by (simp_all add: take_sent_message_def s')
  with lost show ?thesis unfolding Let_def by blast
qed

theorem eviction_keeps_newest_witness:
  "let s' = snd (store_sent_message 5 [1] [2] [3] sample_mem) in
    fst (take_sent_message [1] [2] s') = Inr (Some [3]) \<and>
    fst (take_sent_message [1] [2] (snd (take_sent_message [1] [2] s'))) = Inr None"
  using eviction_keeps_newest [OF sample_mem_reachable, of 5 "[1]" "[2]" "[3]"] unfolding Let_def by simp

text \<open>A deadline of 0 is never reached.\<close>

definition no_later :: "int \<Rightarrow> int \<Rightarrow> bool" where
  "no_later a b \<longleftrightarrow> b = 0 \<or> (a \<noteq> 0 \<and> a \<le> b)"

lemma merge_no_later: "no_later a (merge_msg_secret_expiry a b)" "no_later b (merge_msg_secret_expiry a b)"
  by (auto simp: no_later_def merge_msg_secret_expiry_def)

lemma put_secret_window:
  "map_of m key = Some (secret, expires, ts) \<Longrightarrow>
   \<exists>secret' expires' ts'. map_of (put_secret entry m) key = Some (secret', expires', ts') \<and> no_later expires expires' \<and> ts \<le> ts'"
  using merge_no_later(1) [of expires "ms_expires_at entry"]
  by (auto simp: put_secret_def Let_def split_def merge_msg_secret_message_ts_def no_later_def)

lemma put_secrets_window:
  "map_of m key = Some (secret, expires, ts) \<Longrightarrow>
   \<exists>secret' expires' ts'. map_of (fold put_secret entries m) key = Some (secret', expires', ts') \<and> no_later expires expires' \<and> ts \<le> ts'"
proof (induction entries arbitrary: m secret expires ts)
  case (Cons x xs)
  obtain s' e' t' where 1: "map_of (put_secret x m) key = Some (s', e', t')" "no_later expires e'" "ts \<le> t'"
    using put_secret_window [OF Cons.prems] by blast
  obtain s'' e'' t'' where "map_of (fold put_secret xs (put_secret x m)) key = Some (s'', e'', t'')" "no_later e' e''" "t' \<le> t''"
    using Cons.IH [OF 1(1)] by blast
  with 1 show ?case by (auto simp: no_later_def)
qed (simp add: no_later_def)

text \<open>C28: whatever secrets are stored afterwards, a stored secret stays stored, with a
  deadline that is no earlier and a message time that is no smaller; a sweep at a time before the deadline keeps it.\<close>

theorem secret_window_never_shrinks:
  assumes "mem_reachable s" "map_of (im_msg_secrets s) key = Some (secret, expires, ts)" "expires = 0 \<or> expires > cutoff"
  shows "\<exists>secret' expires' ts'. map_of (im_msg_secrets (snd (delete_expired_msg_secrets cutoff (snd (put_msg_secrets entries s))))) key =
      Some (secret', expires', ts') \<and> no_later expires expires' \<and> ts \<le> ts'"
proof -
  let ?m = "fold put_secret entries (im_msg_secrets s)"
  obtain s' e' t' where w: "map_of ?m key = Some (s', e', t')" "no_later expires e'" "ts \<le> t'"
    using put_secrets_window [OF assms(2)] by blast
  have "distinct (map fst ?m)" using mem_reachable_inv [OF assms(1)] by (simp add: mem_inv_def distinct_put_secrets)
  with w assms(3) show ?thesis
    by (auto simp: put_msg_secrets_def delete_expired_msg_secrets_def Let_def map_of_retain no_later_def)
qed

definition sample_secret :: "int \<Rightarrow> msg_secret_entry" where
  "sample_secret expires = \<lparr>ms_chat = [1], ms_sender = [2], ms_msg_id = [3], ms_secret = [4], ms_expires_at = expires, ms_message_ts = 6\<rparr>"

theorem secret_window_never_shrinks_witness:
  "\<exists>secret' expires' ts'. map_of (im_msg_secrets (snd (delete_expired_msg_secrets 50 (snd (put_msg_secrets [sample_secret 10]
      (mem_run (PutMsgSecrets [sample_secret 100]) sample_mem)))))) ([1], [2], [3]) = Some (secret', expires', ts') \<and>
      no_later 100 expires' \<and> 6 \<le> ts'"
  by (rule secret_window_never_shrinks [OF mem_reachable_run [OF sample_mem_reachable], of _ _ "[4]"])
    (simp_all add: put_msg_secrets_def put_secret_def sample_secret_def sample_mem_simps)

end
