(* ===== verification/Attrs.thy ===== *)
theory Attrs
  imports Node Pack
begin

text \<open>Reading attributes (wacore/binary/src/attrs.rs).  A parser keeps the attribute list and the errors seen so
  far; a read of a malformed attribute gives a default and records an error, and \<open>finish\<close> reports them.
  The parser exists for owned nodes (\<open>AttrParser\<close>) and for borrowed ones (\<open>AttrParserRef\<close>, suffix \<open>_ref\<close>).\<close>

section \<open>Parsers\<close>

definition coerce_protocol_bool :: "str \<Rightarrow> bool option" where
  "coerce_protocol_bool s =
     (if s \<in> set (map lit [''1'', ''true'', ''True'', ''t'', ''T'', ''TRUE'']) then Some True
      else if s \<in> set (map lit [''0'', ''false'', ''False'', ''f'', ''F'', ''FALSE'']) then Some False
      else None)"

record attr_parser =
  atp_attrs :: "str attrs"
  atp_errors :: "binary_error list"

record attr_parser_ref =
  atr_attrs :: "(str \<times> str node_value) list"
  atr_errors :: "binary_error list"

type_synonym 'a attr_read = "attr_parser \<Rightarrow> 'a \<times> attr_parser"

type_synonym 'a attr_read_ref = "attr_parser_ref \<Rightarrow> 'a \<times> attr_parser_ref"

definition quoted :: "str \<Rightarrow> str" where
  "quoted s = [39] @ s @ [39]"

text \<open>\<open>i64::from_str\<close> and the messages of its error.\<close>

definition parse_i64 :: "str \<Rightarrow> int_error_kind + int" where
  "parse_i64 s =
     (if s = [] then Inl IntEmpty
      else if s = [43] \<or> s = [45] then Inl InvalidDigit
      else if hd s = 45
      then (case parse_digits (2 ^ 63) 0 (tl s) of
              Inr n \<Rightarrow> Inr (- int n)
            | Inl e \<Rightarrow> Inl (if e = PosOverflow then NegOverflow else e))
      else case parse_digits (2 ^ 63 - 1) 0 (if hd s = 43 then tl s else s) of Inr n \<Rightarrow> Inr (int n) | Inl e \<Rightarrow> Inl e)"

abbreviation parse_u64 :: "str \<Rightarrow> int_error_kind + nat" where
  "parse_u64 \<equiv> parse_uint (2 ^ 64 - 1)"

definition int_error_fmt :: "int_error_kind \<Rightarrow> str" where
  "int_error_fmt e = lit (case e of
       IntEmpty \<Rightarrow> ''cannot parse integer from empty string''
     | InvalidDigit \<Rightarrow> ''invalid digit found in string''
     | PosOverflow \<Rightarrow> ''number too large to fit in target type''
     | NegOverflow \<Rightarrow> ''number too small to fit in target type'')"

text \<open>Cloning an error turns an address error into its message.\<close>

definition jid_error_fmt :: "jid_error \<Rightarrow> str" where
  "jid_error_fmt e = (case e of
       InvalidFormat s \<Rightarrow> lit ''Invalid JID format: '' @ s
     | ParseError e \<Rightarrow> lit ''Failed to parse component: '' @ int_error_fmt e)"

fun binary_error_clone :: "binary_error \<Rightarrow> binary_error" where
  "binary_error_clone (JidErr e) = JidErr (InvalidFormat (jid_error_fmt e))"
| "binary_error_clone (AttrList es) = AttrList (map binary_error_clone es)"
| "binary_error_clone e = e"

section \<open>Owned nodes\<close>

definition attr_parser_new :: "str node \<Rightarrow> attr_parser" where
  "attr_parser_new n = \<lparr>atp_attrs = node_attrs n, atp_errors = []\<rparr>"

definition attrs_ok :: "attr_parser \<Rightarrow> bool" where
  "attrs_ok p \<longleftrightarrow> atp_errors p = []"

definition attrs_finish :: "attr_parser \<Rightarrow> unit bres" where
  "attrs_finish p = (if attrs_ok p then Inr () else Inl (Err (AttrList (map binary_error_clone (atp_errors p)))))"

definition push_error :: "binary_error \<Rightarrow> attr_parser \<Rightarrow> attr_parser" where
  "push_error e p = p\<lparr>atp_errors := atp_errors p @ [e]\<rparr>"

definition missing_attr :: "str \<Rightarrow> binary_error" where
  "missing_attr key = AttrParse (lit ''Required attribute '' @ quoted key @ lit '' not found'')"

definition unparsed :: "string \<Rightarrow> str \<Rightarrow> str \<Rightarrow> str \<Rightarrow> binary_error" where
  "unparsed what s key tail = AttrParse (lit ''Failed to parse '' @ lit what @ lit '' from '' @ quoted s @ lit '' for key '' @ quoted key @ tail)"

definition get_raw :: "str \<Rightarrow> bool \<Rightarrow> str node_value option attr_read" where
  "get_raw key require p =
     (let val = attrs_get (atp_attrs p) key
      in (val, if require \<and> val = None then push_error (missing_attr key) p else p))"

definition get_string_value :: "itoa \<Rightarrow> str \<Rightarrow> bool \<Rightarrow> str option attr_read" where
  "get_string_value it key require p =
     (let (val, p) = get_raw key require p
      in (map_option (\<lambda>v. case v of VString s \<Rightarrow> s | VJid j \<Rightarrow> to_string it j) val, p))"

definition optional_string :: "itoa \<Rightarrow> str \<Rightarrow> str option attr_read" where
  "optional_string it key p = (let (val, p) = get_raw key False p in (map_option (node_value_as_str it) val, p))"

definition required_string :: "itoa \<Rightarrow> str \<Rightarrow> str bres attr_read" where
  "required_string it key p = (let (val, p) = optional_string it key p in (ok_or val (MissingAttr key), p))"

definition optional_jid :: "str \<Rightarrow> str jid option attr_read" where
  "optional_jid key p =
     (let (val, p) = get_raw key False p
      in case val of
           None \<Rightarrow> (None, p)
         | Some (VJid j) \<Rightarrow> (Some j, p)
         | Some (VString s) \<Rightarrow>
             (case from_str s of
                Inr jid \<Rightarrow> (Some jid, p)
              | Inl e \<Rightarrow> (None, push_error (JidErr e) p)))"

definition attr_jid :: "str \<Rightarrow> str jid attr_read" where
  "attr_jid key p =
     (let (_, p) = get_raw key True p;
          (val, p) = optional_jid key p
      in (case val of Some j \<Rightarrow> j | None \<Rightarrow> jid_default, p))"

definition attr_non_ad_jid :: "str \<Rightarrow> str jid attr_read" where
  "attr_non_ad_jid key p = (let (j, p) = attr_jid key p in (to_non_ad j, p))"

definition get_bool :: "itoa \<Rightarrow> str \<Rightarrow> bool \<Rightarrow> bool option attr_read" where
  "get_bool it key require p =
     (let (val, p) = get_string_value it key require p
      in case val of
           None \<Rightarrow> (None, p)
         | Some s \<Rightarrow>
             (case coerce_protocol_bool s of
                Some val \<Rightarrow> (Some val, p)
              | None \<Rightarrow> (None, push_error (unparsed ''bool'' s key []) p)))"

definition optional_bool :: "itoa \<Rightarrow> str \<Rightarrow> bool attr_read" where
  "optional_bool it key p = (let (val, p) = get_bool it key False p in (case val of Some b \<Rightarrow> b | None \<Rightarrow> False, p))"

definition attr_bool :: "itoa \<Rightarrow> str \<Rightarrow> bool attr_read" where
  "attr_bool it key p = (let (val, p) = get_bool it key True p in (case val of Some b \<Rightarrow> b | None \<Rightarrow> False, p))"

definition optional_u64 :: "itoa \<Rightarrow> str \<Rightarrow> u64 option attr_read" where
  "optional_u64 it key p =
     (let (val, p) = get_string_value it key False p
      in case val of
           None \<Rightarrow> (None, p)
         | Some s \<Rightarrow>
             (case parse_u64 s of
                Inr val \<Rightarrow> (Some (of_nat val), p)
              | Inl e \<Rightarrow> (None, push_error (unparsed ''u64'' s key (lit '': '' @ int_error_fmt e)) p)))"

definition get_i64 :: "itoa \<Rightarrow> str \<Rightarrow> bool \<Rightarrow> int option attr_read" where
  "get_i64 it key require p =
     (let (val, p) = get_string_value it key require p
      in case val of
           None \<Rightarrow> (None, p)
         | Some s \<Rightarrow>
             (case parse_i64 s of
                Inr val \<Rightarrow> (Some val, p)
              | Inl e \<Rightarrow> (None, push_error (unparsed ''i64'' s key (lit '': '' @ int_error_fmt e)) p)))"

definition optional_unix_time :: "itoa \<Rightarrow> str \<Rightarrow> int option attr_read" where
  "optional_unix_time it key = get_i64 it key False"

definition unix_time :: "itoa \<Rightarrow> str \<Rightarrow> int attr_read" where
  "unix_time it key p =
     (let (_, p) = get_raw key True p;
          (val, p) = optional_unix_time it key p
      in (case val of Some t \<Rightarrow> t | None \<Rightarrow> 0, p))"

definition optional_unix_milli :: "itoa \<Rightarrow> str \<Rightarrow> int option attr_read" where
  "optional_unix_milli it key = get_i64 it key False"

definition unix_milli :: "itoa \<Rightarrow> str \<Rightarrow> int attr_read" where
  "unix_milli it key p =
     (let (_, p) = get_raw key True p;
          (val, p) = optional_unix_milli it key p
      in (case val of Some t \<Rightarrow> t | None \<Rightarrow> 0, p))"

section \<open>Borrowed nodes\<close>

definition attr_parser_ref_new :: "str node \<Rightarrow> attr_parser_ref" where
  "attr_parser_ref_new n = \<lparr>atr_attrs = node_attrs n, atr_errors = []\<rparr>"

definition attrs_ok_ref :: "attr_parser_ref \<Rightarrow> bool" where
  "attrs_ok_ref p \<longleftrightarrow> atr_errors p = []"

definition attrs_finish_ref :: "attr_parser_ref \<Rightarrow> unit bres" where
  "attrs_finish_ref p = (if attrs_ok_ref p then Inr () else Inl (Err (AttrList (map binary_error_clone (atr_errors p)))))"

definition push_error_ref :: "binary_error \<Rightarrow> attr_parser_ref \<Rightarrow> attr_parser_ref" where
  "push_error_ref e p = p\<lparr>atr_errors := atr_errors p @ [e]\<rparr>"

definition get_raw_ref :: "str \<Rightarrow> bool \<Rightarrow> str node_value option attr_read_ref" where
  "get_raw_ref key require p =
     (let val = map_option snd (find (\<lambda>(k, _). k = key) (atr_attrs p))
      in (val, if require \<and> val = None then push_error_ref (missing_attr key) p else p))"

definition get_string_value_ref :: "itoa \<Rightarrow> str \<Rightarrow> bool \<Rightarrow> str option attr_read_ref" where
  "get_string_value_ref it key require p =
     (let (val, p) = get_raw_ref key require p
      in (map_option (node_value_as_str it) val, p))"

definition optional_string_ref :: "itoa \<Rightarrow> str \<Rightarrow> str option attr_read_ref" where
  "optional_string_ref it key p = (let (val, p) = get_raw_ref key False p in (map_option (node_value_as_str it) val, p))"

definition required_string_ref :: "itoa \<Rightarrow> str \<Rightarrow> str bres attr_read_ref" where
  "required_string_ref it key p = (let (val, p) = optional_string_ref it key p in (ok_or val (MissingAttr key), p))"

definition optional_jid_ref :: "str \<Rightarrow> str jid option attr_read_ref" where
  "optional_jid_ref key p =
     (let (val, p) = get_raw_ref key False p
      in case val of
           None \<Rightarrow> (None, p)
         | Some v \<Rightarrow>
             (case node_value_to_jid v of
                Some jid \<Rightarrow> (Some jid, p)
              | None \<Rightarrow>
                  (None, case v of
                     VString s \<Rightarrow> push_error_ref (AttrParse (lit ''Invalid JID: '' @ s)) p
                   | VJid _ \<Rightarrow> p)))"

definition attr_jid_ref :: "str \<Rightarrow> str jid attr_read_ref" where
  "attr_jid_ref key p =
     (let (_, p) = get_raw_ref key True p;
          (val, p) = optional_jid_ref key p
      in (case val of Some j \<Rightarrow> j | None \<Rightarrow> jid_default, p))"

definition attr_non_ad_jid_ref :: "str \<Rightarrow> str jid attr_read_ref" where
  "attr_non_ad_jid_ref key p = (let (j, p) = attr_jid_ref key p in (to_non_ad j, p))"

definition get_bool_ref :: "itoa \<Rightarrow> str \<Rightarrow> bool \<Rightarrow> bool option attr_read_ref" where
  "get_bool_ref it key require p =
     (let (val, p) = get_string_value_ref it key require p
      in case val of
           None \<Rightarrow> (None, p)
         | Some s \<Rightarrow>
             (case coerce_protocol_bool s of
                Some val \<Rightarrow> (Some val, p)
              | None \<Rightarrow> (None, push_error_ref (unparsed ''bool'' s key []) p)))"

definition optional_bool_ref :: "itoa \<Rightarrow> str \<Rightarrow> bool attr_read_ref" where
  "optional_bool_ref it key p = (let (val, p) = get_bool_ref it key False p in (case val of Some b \<Rightarrow> b | None \<Rightarrow> False, p))"

definition attr_bool_ref :: "itoa \<Rightarrow> str \<Rightarrow> bool attr_read_ref" where
  "attr_bool_ref it key p = (let (val, p) = get_bool_ref it key True p in (case val of Some b \<Rightarrow> b | None \<Rightarrow> False, p))"

definition optional_u64_ref :: "itoa \<Rightarrow> str \<Rightarrow> u64 option attr_read_ref" where
  "optional_u64_ref it key p =
     (let (val, p) = get_string_value_ref it key False p
      in case val of
           None \<Rightarrow> (None, p)
         | Some s \<Rightarrow>
             (case parse_u64 s of
                Inr val \<Rightarrow> (Some (of_nat val), p)
              | Inl e \<Rightarrow> (None, push_error_ref (unparsed ''u64'' s key (lit '': '' @ int_error_fmt e)) p)))"

definition get_i64_ref :: "itoa \<Rightarrow> str \<Rightarrow> bool \<Rightarrow> int option attr_read_ref" where
  "get_i64_ref it key require p =
     (let (val, p) = get_string_value_ref it key require p
      in case val of
           None \<Rightarrow> (None, p)
         | Some s \<Rightarrow>
             (case parse_i64 s of
                Inr val \<Rightarrow> (Some val, p)
              | Inl e \<Rightarrow> (None, push_error_ref (unparsed ''i64'' s key (lit '': '' @ int_error_fmt e)) p)))"

definition optional_unix_time_ref :: "itoa \<Rightarrow> str \<Rightarrow> int option attr_read_ref" where
  "optional_unix_time_ref it key = get_i64_ref it key False"

definition unix_time_ref :: "itoa \<Rightarrow> str \<Rightarrow> int attr_read_ref" where
  "unix_time_ref it key p =
     (let (_, p) = get_raw_ref key True p;
          (val, p) = optional_unix_time_ref it key p
      in (case val of Some t \<Rightarrow> t | None \<Rightarrow> 0, p))"

definition optional_unix_milli_ref :: "itoa \<Rightarrow> str \<Rightarrow> int option attr_read_ref" where
  "optional_unix_milli_ref it key = get_i64_ref it key False"

definition unix_milli_ref :: "itoa \<Rightarrow> str \<Rightarrow> int attr_read_ref" where
  "unix_milli_ref it key p =
     (let (_, p) = get_raw_ref key True p;
          (val, p) = optional_unix_milli_ref it key p
      in (case val of Some t \<Rightarrow> t | None \<Rightarrow> 0, p))"

section \<open>Sequences of reads\<close>

datatype attr_op =
  OptString str | ReqString str | OptJid str | ReqJid str | NonAdJid str | OptBool str | ReqBool str | OptU64 str
  | UnixTime str | OptUnixTime str | UnixMilli str | OptUnixMilli str

datatype attr_val =
  AString "str option" | AResult "str bres" | AJid "str jid option" | ABool bool | AU64 "u64 option" | ATime "int option"

fun run_op :: "itoa \<Rightarrow> attr_op \<Rightarrow> attr_val attr_read" where
  "run_op it (OptString k) p = map_prod AString (\<lambda>p. p) (optional_string it k p)"
| "run_op it (ReqString k) p = map_prod AResult (\<lambda>p. p) (required_string it k p)"
| "run_op it (OptJid k) p = map_prod AJid (\<lambda>p. p) (optional_jid k p)"
| "run_op it (ReqJid k) p = map_prod (\<lambda>j. AJid (Some j)) (\<lambda>p. p) (attr_jid k p)"
| "run_op it (NonAdJid k) p = map_prod (\<lambda>j. AJid (Some j)) (\<lambda>p. p) (attr_non_ad_jid k p)"
| "run_op it (OptBool k) p = map_prod ABool (\<lambda>p. p) (optional_bool it k p)"
| "run_op it (ReqBool k) p = map_prod ABool (\<lambda>p. p) (attr_bool it k p)"
| "run_op it (OptU64 k) p = map_prod AU64 (\<lambda>p. p) (optional_u64 it k p)"
| "run_op it (UnixTime k) p = map_prod (\<lambda>t. ATime (Some t)) (\<lambda>p. p) (unix_time it k p)"
| "run_op it (OptUnixTime k) p = map_prod ATime (\<lambda>p. p) (optional_unix_time it k p)"
| "run_op it (UnixMilli k) p = map_prod (\<lambda>t. ATime (Some t)) (\<lambda>p. p) (unix_milli it k p)"
| "run_op it (OptUnixMilli k) p = map_prod ATime (\<lambda>p. p) (optional_unix_milli it k p)"

fun run_op_ref :: "itoa \<Rightarrow> attr_op \<Rightarrow> attr_val attr_read_ref" where
  "run_op_ref it (OptString k) p = map_prod AString (\<lambda>p. p) (optional_string_ref it k p)"
| "run_op_ref it (ReqString k) p = map_prod AResult (\<lambda>p. p) (required_string_ref it k p)"
| "run_op_ref it (OptJid k) p = map_prod AJid (\<lambda>p. p) (optional_jid_ref k p)"
| "run_op_ref it (ReqJid k) p = map_prod (\<lambda>j. AJid (Some j)) (\<lambda>p. p) (attr_jid_ref k p)"
| "run_op_ref it (NonAdJid k) p = map_prod (\<lambda>j. AJid (Some j)) (\<lambda>p. p) (attr_non_ad_jid_ref k p)"
| "run_op_ref it (OptBool k) p = map_prod ABool (\<lambda>p. p) (optional_bool_ref it k p)"
| "run_op_ref it (ReqBool k) p = map_prod ABool (\<lambda>p. p) (attr_bool_ref it k p)"
| "run_op_ref it (OptU64 k) p = map_prod AU64 (\<lambda>p. p) (optional_u64_ref it k p)"
| "run_op_ref it (UnixTime k) p = map_prod (\<lambda>t. ATime (Some t)) (\<lambda>p. p) (unix_time_ref it k p)"
| "run_op_ref it (OptUnixTime k) p = map_prod ATime (\<lambda>p. p) (optional_unix_time_ref it k p)"
| "run_op_ref it (UnixMilli k) p = map_prod (\<lambda>t. ATime (Some t)) (\<lambda>p. p) (unix_milli_ref it k p)"
| "run_op_ref it (OptUnixMilli k) p = map_prod ATime (\<lambda>p. p) (optional_unix_milli_ref it k p)"

fun run_ops :: "('p \<Rightarrow> attr_op \<Rightarrow> attr_val \<times> 'p) \<Rightarrow> attr_op list \<Rightarrow> 'p \<Rightarrow> attr_val list \<times> 'p" where
  "run_ops f [] p = ([], p)"
| "run_ops f (x # xs) p = (let (v, p) = f p x; (vs, p) = run_ops f xs p in (v # vs, p))"

text \<open>What a read asks of the attributes.\<close>

definition attr_text :: "itoa \<Rightarrow> str attrs \<Rightarrow> str \<Rightarrow> str option" where
  "attr_text it as k = map_option (node_value_as_str it) (attrs_get as k)"

definition jid_readable :: "str attrs \<Rightarrow> str \<Rightarrow> bool" where
  "jid_readable as k \<longleftrightarrow> (case attrs_get as k of Some v \<Rightarrow> node_value_to_jid v \<noteq> None | None \<Rightarrow> True)"

definition text_readable :: "itoa \<Rightarrow> str attrs \<Rightarrow> str \<Rightarrow> (str \<Rightarrow> bool) \<Rightarrow> bool" where
  "text_readable it as k good \<longleftrightarrow> (case attr_text it as k of Some s \<Rightarrow> good s | None \<Rightarrow> True)"

fun readable :: "itoa \<Rightarrow> str attrs \<Rightarrow> attr_op \<Rightarrow> bool" where
  "readable it as (OptString k) = True"
| "readable it as (ReqString k) = True"
| "readable it as (OptJid k) = jid_readable as k"
| "readable it as (ReqJid k) = (jid_readable as k \<and> contains_key as k)"
| "readable it as (NonAdJid k) = (jid_readable as k \<and> contains_key as k)"
| "readable it as (OptBool k) = text_readable it as k (\<lambda>s. coerce_protocol_bool s \<noteq> None)"
| "readable it as (ReqBool k) = (text_readable it as k (\<lambda>s. coerce_protocol_bool s \<noteq> None) \<and> contains_key as k)"
| "readable it as (OptU64 k) = text_readable it as k (\<lambda>s. ok (parse_u64 s) \<noteq> None)"
| "readable it as (OptUnixTime k) = text_readable it as k (\<lambda>s. ok (parse_i64 s) \<noteq> None)"
| "readable it as (OptUnixMilli k) = text_readable it as k (\<lambda>s. ok (parse_i64 s) \<noteq> None)"
| "readable it as (UnixTime k) = (text_readable it as k (\<lambda>s. ok (parse_i64 s) \<noteq> None) \<and> contains_key as k)"
| "readable it as (UnixMilli k) = (text_readable it as k (\<lambda>s. ok (parse_i64 s) \<noteq> None) \<and> contains_key as k)"

text \<open>A required string is reported to the caller and not recorded: the read gives a result.\<close>

fun answered :: "attr_val \<Rightarrow> bool" where
  "answered (AResult (Inl _)) = False"
| "answered _ = True"

fun string_there :: "str attrs \<Rightarrow> attr_op \<Rightarrow> bool" where
  "string_there as (ReqString k) = contains_key as k"
| "string_there as _ = True"

named_theorems attr_defs

lemmas [attr_defs] = optional_string_def required_string_def optional_jid_def attr_jid_def attr_non_ad_jid_def
  get_bool_def optional_bool_def attr_bool_def optional_u64_def get_i64_def optional_unix_time_def unix_time_def
  optional_unix_milli_def unix_milli_def get_string_value_def get_raw_def push_error_def

lemmas [attr_defs] = optional_string_ref_def required_string_ref_def optional_jid_ref_def attr_jid_ref_def
  attr_non_ad_jid_ref_def get_bool_ref_def optional_bool_ref_def attr_bool_ref_def optional_u64_ref_def get_i64_ref_def
  optional_unix_time_ref_def unix_time_ref_def optional_unix_milli_ref_def unix_milli_ref_def get_string_value_ref_def
  get_raw_ref_def push_error_ref_def

lemma attrs_get_find: "map_option snd (find (\<lambda>(k, _). k = key) as) = attrs_get as key"
  by (simp add: attrs_get_def)

lemma contains_key_get: "contains_key as k \<longleftrightarrow> attrs_get as k \<noteq> None"
  by (force simp: contains_key_def attrs_get_def find_None_iff list_ex_iff)

lemma value_text: "(case v of VString s \<Rightarrow> s | VJid j \<Rightarrow> to_string it j) = node_value_as_str it v"
  by (cases v) simp_all

lemma run_op_correct:
  "atp_attrs (snd (run_op it x p)) = atp_attrs p \<and>
   (attrs_ok (snd (run_op it x p)) \<longleftrightarrow> attrs_ok p \<and> readable it (atp_attrs p) x)"
  by (cases x)
    (auto simp: attr_defs attrs_ok_def Let_def contains_key_get jid_readable_def text_readable_def attr_text_def value_text
      split: option.splits node_value.splits sum.splits)

lemma run_op_agrees:
  assumes "atp_attrs p = atr_attrs q" "length (atp_errors p) = length (atr_errors q)"
  shows "fst (run_op it x p) = fst (run_op_ref it x q) \<and> atp_attrs (snd (run_op it x p)) = atr_attrs (snd (run_op_ref it x q)) \<and>
    length (atp_errors (snd (run_op it x p))) = length (atr_errors (snd (run_op_ref it x q)))"
  using assms
  by (cases x)
    (auto simp: attr_defs Let_def value_text attrs_get_find split: option.splits node_value.splits sum.splits)

lemma run_ops_agree:
  assumes "atp_attrs p = atr_attrs q" "length (atp_errors p) = length (atr_errors q)"
  shows "fst (run_ops (\<lambda>p x. run_op it x p) xs p) = fst (run_ops (\<lambda>p x. run_op_ref it x p) xs q) \<and>
    length (atp_errors (snd (run_ops (\<lambda>p x. run_op it x p) xs p))) = length (atr_errors (snd (run_ops (\<lambda>p x. run_op_ref it x p) xs q)))"
  using assms
proof (induction xs arbitrary: p q)
  case (Cons x xs)
  from run_op_agrees [OF Cons.prems] Cons.IH show ?case by (simp add: split_def Let_def)
qed simp

lemma run_ops_ok:
  "attrs_ok (snd (run_ops (\<lambda>p x. run_op it x p) xs p)) \<longleftrightarrow> attrs_ok p \<and> list_all (readable it (atp_attrs p)) xs"
proof (induction xs arbitrary: p)
  case (Cons x xs)
  then show ?case using run_op_correct [of it x p] by (auto simp: split_def Let_def)
qed simp

lemma run_op_answered: "answered (fst (run_op it x p)) \<longleftrightarrow> string_there (atp_attrs p) x"
proof (cases x)
  case (ReqString k)
  then show ?thesis by (cases "attrs_get (atp_attrs p) k") (simp_all add: attr_defs Let_def contains_key_get)
qed (simp_all add: attr_defs Let_def split_def split: option.split)

lemma run_ops_answered: "list_all answered (fst (run_ops (\<lambda>p x. run_op it x p) xs p)) \<longleftrightarrow> list_all (string_there (atp_attrs p)) xs"
proof (induction xs arbitrary: p)
  case (Cons x xs)
  then show ?case using run_op_correct [of it x p] run_op_answered [of it x p] by (simp add: split_def Let_def)
qed simp

text \<open>C32: whatever attributes are read, in whatever order, from an owned node and from the
  same borrowed node: both parsers give the same values.  A read of a required string answers with an error exactly
  when the attribute is not there, and this is not recorded in the parser.  Finishing either parser succeeds exactly when
  every other read was of an attribute that is there if required (JIDs, booleans and times), and well formed if
  there.\<close>

theorem attr_reads_reported:
  "let (vs, p) = run_ops (\<lambda>p x. run_op it x p) xs (attr_parser_new n);
       (vs', q) = run_ops (\<lambda>p x. run_op_ref it x p) xs (attr_parser_ref_new n)
   in vs = vs' \<and> (list_all answered vs \<longleftrightarrow> list_all (string_there (node_attrs n)) xs) \<and>
      (attrs_finish p = Inr () \<longleftrightarrow> list_all (readable it (node_attrs n)) xs) \<and>
      (attrs_finish_ref q = Inr () \<longleftrightarrow> list_all (readable it (node_attrs n)) xs)"
proof -
  let ?p = "attr_parser_new n" and ?q = "attr_parser_ref_new n"
  have e: "atp_attrs ?p = atr_attrs ?q" "length (atp_errors ?p) = length (atr_errors ?q)" "attrs_ok ?p"
    by (simp_all add: attr_parser_new_def attr_parser_ref_new_def attrs_ok_def)
  show ?thesis using run_ops_agree [OF e(1,2), of it xs] run_ops_ok [of it xs ?p] run_ops_answered [of it xs ?p] e(3)
    by (auto simp: split_def attrs_finish_def attrs_finish_ref_def attrs_ok_def attrs_ok_ref_def attr_parser_new_def)
qed

end
