(* ===== verification/PatchList.thy ===== *)
theory PatchList
  imports Attrs AppHash
begin

text \<open>Patch lists, the answer of the server to an app state sync, and their parsing from stanzas
  (wacore/appstate/src/patch_decode.rs).\<close>

section \<open>Types\<close>

datatype wa_patch_name = CriticalBlock | CriticalUnblockLow | RegularLow | RegularHigh | Regular | UnknownPatch

definition patch_name_as_str :: "wa_patch_name \<Rightarrow> str" where
  "patch_name_as_str n = lit (case n of
       CriticalBlock \<Rightarrow> ''critical_block'' | CriticalUnblockLow \<Rightarrow> ''critical_unblock_low''
     | RegularLow \<Rightarrow> ''regular_low'' | RegularHigh \<Rightarrow> ''regular_high'' | Regular \<Rightarrow> ''regular''
     | UnknownPatch \<Rightarrow> ''unknown'')"

definition patch_name_from_str :: "str \<Rightarrow> wa_patch_name" where
  "patch_name_from_str s =
     (if s = lit ''critical_block'' then CriticalBlock
      else if s = lit ''critical_unblock_low'' then CriticalUnblockLow
      else if s = lit ''regular_low'' then RegularLow
      else if s = lit ''regular_high'' then RegularHigh
      else if s = lit ''regular'' then Regular
      else UnknownPatch)"

datatype collection_sync_error = Conflict (has_more: bool) | FatalError u16 str | RetryError u16 str

text \<open>An external reference is its encoding: it is only handed to the download.\<close>

record patch_list =
  pl_name :: wa_patch_name
  pl_has_more_patches :: bool
  pl_patches :: "syncd_patch list"
  pl_snapshot :: "syncd_snapshot option"
  pl_snapshot_ref :: "u8 list option"
  pl_error :: "collection_sync_error option"

datatype parse_error =
  MissingCollection | MissingSync | MissingName | BadAttrs binary_error | BadPatch

text \<open>Parameters: protobuf decoding of an external reference and of a patch.\<close>

record patch_codec =
  pc_ref :: "u8 list \<Rightarrow> u8 list option"
  pc_patch :: "u8 list \<Rightarrow> syncd_patch option"

section \<open>Parsing\<close>

definition parse_collection_error :: "itoa \<Rightarrow> str node \<Rightarrow> str option \<Rightarrow> collection_sync_error option" where
  "parse_collection_error it collection col_type =
     (if col_type \<noteq> Some (lit ''error'') then None
      else
        let (code, text) =
          (case get_optional_child collection (lit ''error'') of
             Some error_node \<Rightarrow>
               let p = attr_parser_new error_node;
                   (code_str, p) = optional_string it (lit ''code'') p;
                   (text, p) = optional_string it (lit ''text'') p
               in (case parse_u16 (case code_str of Some c \<Rightarrow> c | None \<Rightarrow> lit ''0'') of Inr c \<Rightarrow> (of_nat c :: u16) | Inl _ \<Rightarrow> 0,
                   case text of Some t \<Rightarrow> t | None \<Rightarrow> [])
           | None \<Rightarrow> (0, lit ''missing <error> child''))
        in Some (if code = 409
                 then Conflict (fst (optional_bool it (lit ''has_more_patches'') (attr_parser_new collection)))
                 else if code = 400 \<or> code = 404 then FatalError code text
                 else RetryError code text))"

fun parse_patches :: "patch_codec \<Rightarrow> str node list \<Rightarrow> (parse_error, syncd_patch list) res" where
  "parse_patches K [] = Inr []"
| "parse_patches K (child # children) =
     (case (node_tag child = lit ''patch'', content_bytes child) of
        (True, Some raw) \<Rightarrow>
          bindR (ok_or (pc_patch K raw) BadPatch) (\<lambda>p.
          bindR (parse_patches K children) (\<lambda>ps. Inr (p # ps)))
      | _ \<Rightarrow> parse_patches K children)"

definition parse_single_collection :: "itoa \<Rightarrow> patch_codec \<Rightarrow> str node \<Rightarrow> (parse_error, patch_list) res" where
  "parse_single_collection it K collection =
     (let ag = attr_parser_new collection;
          (name, ag) = optional_string it (lit ''name'') ag in
      bindR (ok_or name MissingName) (\<lambda>name_str.
      let (has_more, ag) = optional_bool it (lit ''has_more_patches'') ag;
          (col_type, ag) = optional_string it (lit ''type'') ag;
          error = parse_collection_error it collection col_type in
      bindR (mapE BadAttrs (attrs_finish ag)) (\<lambda>_.
      let snapshot_ref = Option.bind (get_optional_child collection (lit ''snapshot'')) (\<lambda>snapshot_node.
            Option.bind (content_bytes snapshot_node) (pc_ref K));
          children = Option.bind (get_optional_child collection (lit ''patches'')) node_children in
      bindR (case children of Some children \<Rightarrow> parse_patches K children | None \<Rightarrow> Inr []) (\<lambda>patches.
      Inr \<lparr>pl_name = patch_name_from_str name_str, pl_has_more_patches = has_more, pl_patches = patches,
           pl_snapshot = None, pl_snapshot_ref = snapshot_ref, pl_error = error\<rparr>))))"

definition parse_patch_list :: "itoa \<Rightarrow> patch_codec \<Rightarrow> str node \<Rightarrow> (parse_error, patch_list) res" where
  "parse_patch_list it K node =
     bindR (ok_or (get_optional_child_by_tag node [lit ''sync'', lit ''collection'']) MissingCollection)
       (parse_single_collection it K)"

definition parse_patch_list_ref :: "tables \<Rightarrow> itoa \<Rightarrow> patch_codec \<Rightarrow> str node \<Rightarrow> (parse_error, patch_list) res" where
  "parse_patch_list_ref T it K node = parse_patch_list it K (node_to_owned T node)"

definition parse_patch_lists :: "itoa \<Rightarrow> patch_codec \<Rightarrow> str node \<Rightarrow> (parse_error, patch_list list) res" where
  "parse_patch_lists it K node =
     bindR (if node_tag node = lit ''sync'' then Inr node
            else ok_or (get_optional_child node (lit ''sync'')) MissingSync) (\<lambda>sync_node.
     case node_children sync_node of
       None \<Rightarrow> Inr []
     | Some children \<Rightarrow>
         concatR (\<lambda>c. mapR (\<lambda>pl. [pl]) (parse_single_collection it K c)) (filter (\<lambda>c. node_tag c = lit ''collection'') children))"

definition parse_patch_lists_ref :: "tables \<Rightarrow> itoa \<Rightarrow> patch_codec \<Rightarrow> str node \<Rightarrow> (parse_error, patch_list list) res" where
  "parse_patch_lists_ref T it K node = parse_patch_lists it K (node_to_owned T node)"

section \<open>Names\<close>

lemma patch_name_roundtrip [simp]: "patch_name_from_str (patch_name_as_str n) = n"
  by (cases n) (simp_all add: patch_name_from_str_def patch_name_as_str_def lit_def)

lemma patch_name_inj: "patch_name_as_str a = patch_name_as_str b \<longleftrightarrow> a = b"
  by (metis patch_name_roundtrip)

end
