(* ===== verification/IndexMacs.thy ===== *)
theory IndexMacs
  imports AppHash "HOL-Library.List_Lexorder" "HOL-Library.Product_Lexorder"
begin

text \<open>The index codes of a patch without repetition, in the order of their first occurrence
  (\<open>collect_unique_index_macs\<close> of wacore/src/appstate_sync.rs): a scan for short patches, two sorts of position
  indices for long ones.\<close>

definition MAC_DEDUP_SCAN_LIMIT :: nat where
  "MAC_DEDUP_SCAN_LIMIT = 64"

definition mutation_index_mac :: "syncd_mutation \<Rightarrow> u8 list option" where
  "mutation_index_mac m = Option.bind (sm_record m) sr_index"

fun scan_macs :: "u8 list list \<Rightarrow> syncd_mutation list \<Rightarrow> u8 list list" where
  "scan_macs out [] = out"
| "scan_macs out (m # ms) =
     scan_macs (case mutation_index_mac m of Some mac \<Rightarrow> if mac \<notin> set out then out @ [mac] else out | None \<Rightarrow> out) ms"

text \<open>\<open>Vec::dedup_by\<close> with equality of keys: the first element of every run stays.\<close>

fun dedup_by :: "('a \<Rightarrow> 'k) \<Rightarrow> 'a list \<Rightarrow> 'a list" where
  "dedup_by f (b # a # xs) = (if f a = f b then dedup_by f (b # xs) else b # dedup_by f (a # xs))"
| "dedup_by f xs = xs"

definition mac_at :: "syncd_mutation list \<Rightarrow> u32 \<Rightarrow> u8 list" where
  "mac_at mutations i = (case mutation_index_mac (mutations ! unat i) of Some mac \<Rightarrow> mac | None \<Rightarrow> [])"

definition sort_macs :: "syncd_mutation list \<Rightarrow> u8 list list" where
  "sort_macs mutations =
     (let order = List.map_filter (\<lambda>(i, m). map_option (\<lambda>_. of_nat i :: u32) (mutation_index_mac m)) (enumerate 0 mutations);
          order = sort_key (\<lambda>i. (mac_at mutations i, i)) order;
          order = dedup_by (mac_at mutations) order;
          order = sort order
      in map (mac_at mutations) order)"

definition collect_unique_index_macs :: "syncd_mutation list \<Rightarrow> u8 list list" where
  "collect_unique_index_macs mutations =
     (if length mutations \<le> MAC_DEDUP_SCAN_LIMIT then scan_macs [] mutations else sort_macs mutations)"

section \<open>Both are the list of first occurrences\<close>

definition first_seen :: "'a list \<Rightarrow> 'a list" where
  "first_seen xs = rev (remdups (rev xs))"

lemma first_seen_snoc: "first_seen (xs @ [x]) = (if x \<in> set xs then first_seen xs else first_seen xs @ [x])"
  by (simp add: first_seen_def)

lemma set_first_seen [simp]: "set (first_seen xs) = set xs"
  by (simp add: first_seen_def)

lemma scan_macs_first_seen:
  "scan_macs (first_seen done) ms = first_seen (done @ List.map_filter mutation_index_mac ms)"
proof (induction ms arbitrary: "done")
  case (Cons m ms)
  show ?case
  proof (cases "mutation_index_mac m")
    case (Some mac)
    with Cons.IH [of "done @ [mac]"] show ?thesis by (simp add: List.map_filter_simps first_seen_snoc split: if_splits)
  next
    case None
    with Cons.IH [of "done"] show ?thesis by (simp add: List.map_filter_simps)
  qed
qed (simp add: List.map_filter_simps)

lemma map_first_occurrences:
  "map f (filter (\<lambda>x. \<forall>y \<in> set xs. f y = f x \<longrightarrow> x \<le> y) xs) = first_seen (map f xs)"
  if "sorted xs" "distinct xs" for xs :: "'a::linorder list"
  using that
proof (induction xs rule: rev_induct)
  case (snoc x xs)
  then have lt: "\<forall>y \<in> set xs. y < x" by (auto simp: sorted_append less_le)
  have "filter (\<lambda>z. \<forall>y \<in> set (xs @ [x]). f y = f z \<longrightarrow> z \<le> y) xs = filter (\<lambda>z. \<forall>y \<in> set xs. f y = f z \<longrightarrow> z \<le> y) xs"
    using lt by (intro filter_cong) auto
  moreover have "(\<forall>y \<in> set (xs @ [x]). f y = f x \<longrightarrow> x \<le> y) \<longleftrightarrow> f x \<notin> f ` set xs"
  proof -
    have "\<not> x \<le> y" if "y \<in> set xs" for y using lt that by (simp add: not_le)
    then show ?thesis by (auto simp: image_iff) 
  qed
  ultimately show ?case using snoc by (auto simp: first_seen_snoc sorted_append)
qed (simp add: first_seen_def)

lemma dedup_by_leaders:
  fixes f :: "'a::linorder \<Rightarrow> 'k::linorder"
  assumes "sorted_wrt (\<lambda>a b. f a < f b \<or> f a = f b \<and> a < b) xs"
  shows "distinct (dedup_by f xs) \<and> set (dedup_by f xs) = {x \<in> set xs. \<forall>y \<in> set xs. f y = f x \<longrightarrow> x \<le> y}"
  using assms
proof (induction f xs rule: dedup_by.induct)
  case (1 f b a xs)
  show ?case
  proof (cases "f a = f b")
    case True
    then have "sorted_wrt (\<lambda>a b. f a < f b \<or> f a = f b \<and> a < b) (b # xs)" using 1(3) by auto
    with 1(1) [OF True] True 1(3) show ?thesis by (auto simp: not_le[symmetric] dest: less_imp_le)
  next
    case False
    then have "\<forall>y \<in> set (a # xs). f b < f y" using 1(3) by fastforce
    then have "{x \<in> set (b # a # xs). \<forall>y \<in> set (b # a # xs). f y = f x \<longrightarrow> x \<le> y} =
        insert b {x \<in> set (a # xs). \<forall>y \<in> set (a # xs). f y = f x \<longrightarrow> x \<le> y}" by fastforce
    moreover have "b \<notin> set (dedup_by f (a # xs))"
      using 1(2) [OF False] 1(3) \<open>\<forall>y \<in> set (a # xs). f b < f y\<close> by auto
    ultimately show ?thesis using 1(2) [OF False] 1(3) False by simp
  qed
qed auto

lemma positions:
  assumes "length ms \<le> 2 ^ 32"
  defines "P \<equiv> List.map_filter (\<lambda>(i, m). map_option (\<lambda>_. of_nat i :: u32) (mutation_index_mac m)) (enumerate 0 ms)"
  shows "sorted P \<and> distinct P \<and> map (mac_at ms) P = List.map_filter mutation_index_mac ms"
proof -
  have "sorted P' \<and> distinct P' \<and> (\<forall>i \<in> set P'. of_nat k \<le> i) \<and> map (mac_at (pre @ xs)) P' = List.map_filter mutation_index_mac xs"
    if "P' = List.map_filter (\<lambda>(i, m). map_option (\<lambda>_. of_nat i :: u32) (mutation_index_mac m)) (enumerate k xs)"
      "length pre = k" "k + length xs \<le> 2 ^ 32" for P' k xs pre
    using that
  proof (induction xs arbitrary: P' k pre)
    case (Cons m xs)
    let ?P = "List.map_filter (\<lambda>(i, m). map_option (\<lambda>_. of_nat i :: u32) (mutation_index_mac m)) (enumerate (Suc k) xs)"
    have IH: "sorted ?P" "distinct ?P" "\<forall>i \<in> set ?P. of_nat (Suc k) \<le> i"
      "map (mac_at ((pre @ [m]) @ xs)) ?P = List.map_filter mutation_index_mac xs"
      using Cons.IH [OF refl, of "pre @ [m]" "Suc k"] Cons.prems by simp_all
    have k: "unat (of_nat k :: u32) = k" using Cons.prems(3) by (simp add: unat_of_nat take_bit_eq_mod)
    have lt: "(of_nat k :: u32) < i" if "i \<in> set ?P" for i
    proof -
      have "Suc k < 2 ^ 32" using that Cons.prems(3) by (cases xs) (auto simp: List.map_filter_simps)
      then have "unat (of_nat (Suc k) :: u32) = Suc k" by (simp add: unat_of_nat take_bit_eq_mod del: of_nat_Suc)
      with k have "(of_nat k :: u32) < of_nat (Suc k)" by (simp add: word_less_nat_alt del: of_nat_Suc)
      also have "\<dots> \<le> i" using IH(3) that by simp
      finally show ?thesis .
    qed
    show ?case
    proof (cases "mutation_index_mac m")
      case None
      then show ?thesis using IH lt Cons.prems(1) by (auto simp: List.map_filter_simps intro: less_imp_le)
    next
      case (Some mac)
      then have "mac_at (pre @ m # xs) (of_nat k) = mac" using k Cons.prems(2) [symmetric] by (simp add: mac_at_def)
      with Some show ?thesis using IH lt Cons.prems(1) by (auto simp: List.map_filter_simps intro: less_imp_le)
    qed
  qed (simp add: List.map_filter_simps)
  from this [of P 0 ms "[]"] assms show ?thesis by simp
qed

lemma sort_macs_first_seen:
  assumes "length ms \<le> 2 ^ 32"
  shows "sort_macs ms = first_seen (List.map_filter mutation_index_mac ms)"
proof -
  let ?f = "mac_at ms"
  define P where "P = List.map_filter (\<lambda>(i, m). map_option (\<lambda>_. of_nat i :: u32) (mutation_index_mac m)) (enumerate 0 ms)"
  have P: "sorted P" "distinct P" "map ?f P = List.map_filter mutation_index_mac ms"
    using positions [OF assms] unfolding P_def by blast+
  define S where "S = sort_key (\<lambda>i. (?f i, i)) P"
  have "sorted (map (\<lambda>i. (?f i, i)) S)" "distinct S" "set S = set P" using P(2) by (simp_all add: S_def)
  then have "sorted_wrt (\<lambda>a b. (?f a, a) \<le> (?f b, b)) S" by (simp add: sorted_map)
  with \<open>distinct S\<close> have "sorted_wrt (\<lambda>a b. ?f a < ?f b \<or> ?f a = ?f b \<and> a < b) S"
    by (induction S) (auto simp: less_eq_prod_def less_le)
  note d = dedup_by_leaders [OF this]
  have "sort (dedup_by ?f S) = filter (\<lambda>x. \<forall>y \<in> set P. ?f y = ?f x \<longrightarrow> x \<le> y) P"
    using d P \<open>set S = set P\<close> by (intro sorted_distinct_set_unique) (auto intro: sorted_wrt_filter)
  then show ?thesis using map_first_occurrences [OF P(1,2), of ?f] P(3)
    unfolding sort_macs_def Let_def P_def [symmetric] S_def [symmetric] by simp
qed

lemma unique_index_macs:
  "length ms \<le> 2 ^ 32 \<Longrightarrow> collect_unique_index_macs ms = first_seen (List.map_filter mutation_index_mac ms)"
  using scan_macs_first_seen [of "[]" ms] by (simp add: collect_unique_index_macs_def sort_macs_first_seen first_seen_def)

text \<open>C26: both ways of collecting the index codes give the codes in the order of their
  first occurrence, each once.\<close>

theorem unique_index_macs_agree:
  assumes "length ms \<le> 2 ^ 32"
  shows "collect_unique_index_macs ms = first_seen (List.map_filter mutation_index_mac ms) \<and>
    scan_macs [] ms = sort_macs ms \<and> distinct (collect_unique_index_macs ms)"
  using unique_index_macs [OF assms] sort_macs_first_seen [OF assms] scan_macs_first_seen [of "[]" ms]
  by (simp add: first_seen_def)

definition sample_mut :: "u8 list \<Rightarrow> syncd_mutation" where
  "sample_mut i = \<lparr>sm_operation = None, sm_record = Some \<lparr>sr_index = Some i, sr_value = None, sr_key_id = None\<rparr>\<rparr>"

theorem unique_index_macs_agree_witness:
  "length (replicate 70 (sample_mut [1]) @ [sample_mut [2]]) = 71 \<and>
    sort_macs (replicate 70 (sample_mut [1]) @ [sample_mut [2]]) = [[1], [2]]"
proof -
  have "scan_macs [] (replicate 70 (sample_mut [1]) @ [sample_mut [2]]) = [[1], [2]]" by code_simp
  with unique_index_macs_agree [of "replicate 70 (sample_mut [1]) @ [sample_mut [2]]"] show ?thesis by simp
qed

end
