(* ===== verification/AppSync.thy ===== *)
theory AppSync
  imports MemStore PatchList IndexMacs
begin

text \<open>App state synchronisation (wacore/src/appstate_sync.rs): keys, external blobs, applying patch lists to the
  store, building a patch and the fetch loop.  The store is the interface of \<open>Store\<close>; a blocking task
  runs its closure.\<close>

section \<open>Parameters and state\<close>

datatype sync_error =
  SyncStore store_error | SyncApp app_state_error | SyncKeyNotFound str | NoSyncKey | External str
  | SyncParse parse_error | DriverFailed

text \<open>Base64 without padding, rendering of numbers, and protobuf coding.\<close>

record sync_env =
  se_app :: app_env
  se_b64 :: "u8 list \<Rightarrow> str"
  se_itoa :: itoa
  se_codec :: patch_codec
  se_snapshot :: "u8 list \<Rightarrow> syncd_snapshot option"
  se_mutations :: "u8 list \<Rightarrow> syncd_mutation list option"
  se_patch_bytes :: "syncd_patch \<Rightarrow> u8 list"

type_synonym keys_map = "str \<rightharpoonup> expanded_app_state_keys"

record 's app_state_processor =
  asp_store :: 's
  asp_key_cache :: keys_map

type_synonym ('s, 'a) sync_op = "('s app_state_processor, sync_error, 'a) meth"

type_synonym download = "u8 list \<Rightarrow> u8 list option"

definition processor_new :: "'s \<Rightarrow> 's app_state_processor" where
  "processor_new backend = \<lparr>asp_store = backend, asp_key_cache = Map.empty\<rparr>"

definition with_backend :: "('s, 'a) store_op \<Rightarrow> ('s, 'a) sync_op" where
  "with_backend m p = (let (r, s) = m (asp_store p) in (mapE SyncStore r, p\<lparr>asp_store := s\<rparr>))"

section \<open>Keys\<close>

definition lookup_app_state_key :: "sync_env \<Rightarrow> keys_map \<Rightarrow> get_keys" where
  "lookup_app_state_key E keys key_id = ok_or (keys (se_b64 E key_id)) KeyNotFound"

definition get_app_state_key :: "sync_env \<Rightarrow> 's app_sync_ops \<Rightarrow> u8 list \<Rightarrow> ('s, expanded_app_state_keys) sync_op" where
  "get_app_state_key E B key_id =
     (let id_b64 = se_b64 E key_id in
      bindS getS (\<lambda>p.
      case asp_key_cache p id_b64 of
        Some cached \<Rightarrow> returnS cached
      | None \<Rightarrow>
          bindS (with_backend (op_get_sync_key B key_id)) (\<lambda>key_opt.
          bindS (liftS (ok_or key_opt (SyncKeyNotFound id_b64))) (\<lambda>key.
          bindS (liftS (expand_app_state_keys (ae_macs (se_app E)) (ak_key_data key))) (\<lambda>expanded.
          bindS (modifyS (\<lambda>p. p\<lparr>asp_key_cache := (asp_key_cache p)(id_b64 \<mapsto> expanded)\<rparr>)) (\<lambda>_.
          returnS expanded))))))"

definition clear_key_cache :: "('s, unit) sync_op" where
  "clear_key_cache = modifyS (\<lambda>p. p\<lparr>asp_key_cache := Map.empty\<rparr>)"

definition ignore_err :: "('s, 'e, 'a) meth \<Rightarrow> ('s, 'e, unit) meth" where
  "ignore_err m s =
     (case m s of
        (Inl (Err _), s') \<Rightarrow> (Inr (), s')
      | (Inl Panic, s') \<Rightarrow> (Inl Panic, s')
      | (Inl OutOfFuel, s') \<Rightarrow> (Inl OutOfFuel, s')
      | (Inr _, s') \<Rightarrow> (Inr (), s'))"

fun fetch_keys :: "sync_env \<Rightarrow> 's app_sync_ops \<Rightarrow> u8 list list \<Rightarrow> ('s, unit) sync_op" where
  "fetch_keys E B [] = returnS ()"
| "fetch_keys E B (key_id # key_ids) = bindS (ignore_err (get_app_state_key E B key_id)) (\<lambda>_. fetch_keys E B key_ids)"

definition prefetch_keys :: "sync_env \<Rightarrow> 's app_sync_ops \<Rightarrow> patch_list \<Rightarrow> ('s, unit) sync_op" where
  "prefetch_keys E B pl = fetch_keys E B (collect_key_ids_from_patch_list (pl_snapshot pl) (pl_patches pl))"

fun missing_of :: "'s app_sync_ops \<Rightarrow> u8 list list \<Rightarrow> ('s, u8 list list) sync_op" where
  "missing_of B [] = returnS []"
| "missing_of B (key_id # key_ids) =
     bindS (with_backend (op_get_sync_key B key_id)) (\<lambda>k.
     bindS (missing_of B key_ids) (\<lambda>missing.
     returnS (if k = None then key_id # missing else missing)))"

definition get_missing_key_ids :: "'s app_sync_ops \<Rightarrow> patch_list \<Rightarrow> ('s, u8 list list) sync_op" where
  "get_missing_key_ids B pl = missing_of B (collect_key_ids_from_patch_list (pl_snapshot pl) (pl_patches pl))"

section \<open>External blobs\<close>

definition patch_name_debug :: "wa_patch_name \<Rightarrow> str" where
  "patch_name_debug n = lit (case n of
       CriticalBlock \<Rightarrow> ''CriticalBlock'' | CriticalUnblockLow \<Rightarrow> ''CriticalUnblockLow''
     | RegularLow \<Rightarrow> ''RegularLow'' | RegularHigh \<Rightarrow> ''RegularHigh'' | Regular \<Rightarrow> ''Regular'' | UnknownPatch \<Rightarrow> ''Unknown'')"

definition download_mutations :: "sync_env \<Rightarrow> download \<Rightarrow> str \<Rightarrow> syncd_patch \<Rightarrow> (sync_error, syncd_patch) res" where
  "download_mutations E dl name patch =
     (case sp_external_mutations patch of
        None \<Rightarrow> Inr patch
      | Some ext \<Rightarrow>
          let what = lit '' external mutations for '' @ name @ lit '' v'' @ decimal (unat (or_zero (sp_version patch))) in
          bindR (ok_or (dl ext) (External (lit ''download'' @ what))) (\<lambda>data.
          bindR (ok_or (se_mutations E data) (External (lit ''decode'' @ what))) (\<lambda>mutations.
          Inr (patch\<lparr>sp_mutations := mutations\<rparr>))))"

text \<open>The list is changed in place, up to the first failure.\<close>

fun download_patches :: "sync_env \<Rightarrow> download \<Rightarrow> str \<Rightarrow> (syncd_patch list, sync_error, unit) meth" where
  "download_patches E dl name [] = (Inr (), [])"
| "download_patches E dl name (p # ps) =
     (case download_mutations E dl name p of
        Inl e \<Rightarrow> (Inl e, p # ps)
      | Inr p \<Rightarrow> let (r, ps) = download_patches E dl name ps in (r, p # ps))"

definition download_snapshot :: "sync_env \<Rightarrow> download \<Rightarrow> str \<Rightarrow> patch_list \<Rightarrow> (sync_error, patch_list) res" where
  "download_snapshot E dl name pl =
     (case (pl_snapshot pl, pl_snapshot_ref pl) of
        (None, Some ext) \<Rightarrow>
          let what = lit '' external snapshot for '' @ name in
          bindR (ok_or (dl ext) (External (lit ''download'' @ what))) (\<lambda>data.
          bindR (ok_or (se_snapshot E data) (External (lit ''decode'' @ what))) (\<lambda>snapshot.
          Inr (pl\<lparr>pl_snapshot := Some snapshot\<rparr>)))
      | _ \<Rightarrow> Inr pl)"

definition download_external_blobs :: "sync_env \<Rightarrow> download \<Rightarrow> (patch_list, sync_error, unit) meth" where
  "download_external_blobs E dl pl =
     (let name = patch_name_debug (pl_name pl) in
      case download_snapshot E dl name pl of
        Inl e \<Rightarrow> (Inl e, pl)
      | Inr pl \<Rightarrow>
          let (r, patches) = download_patches E dl name (pl_patches pl) in (r, pl\<lparr>pl_patches := patches\<rparr>))"

section \<open>Applying a patch list\<close>

definition snapshot_is_stale :: "u64 \<Rightarrow> u64 \<Rightarrow> bool" where
  "snapshot_is_stale persisted_version snapshot_version \<longleftrightarrow> persisted_version > 0 \<and> snapshot_version \<le> persisted_version"

definition apply_snapshot ::
    "sync_env \<Rightarrow> 's app_sync_ops \<Rightarrow> bool \<Rightarrow> str \<Rightarrow> syncd_snapshot \<Rightarrow> ('s, hash_state \<times> app_mutation list) sync_op" where
  "apply_snapshot E B validate_macs name snapshot =
     bindS getS (\<lambda>p.
     let (r, st) = process_snapshot (se_app E) snapshot (lookup_app_state_key E (asp_key_cache p)) validate_macs name hash_state_default in
     bindS (liftS (mapE SyncApp r)) (\<lambda>result.
     bindS (with_backend (op_clear_mutation_macs B name)) (\<lambda>_.
     bindS (if ps_mutation_macs result \<noteq> []
            then with_backend (op_put_mutation_macs B name (hv_version st) (ps_mutation_macs result)) else returnS ()) (\<lambda>_.
     bindS (with_backend (op_set_version B name st)) (\<lambda>_.
     returnS (st, ps_mutations result))))))"

definition apply_patch ::
    "sync_env \<Rightarrow> 's app_sync_ops \<Rightarrow> bool \<Rightarrow> str \<Rightarrow> keys_map \<Rightarrow> hash_state \<Rightarrow> syncd_patch
      \<Rightarrow> ('s, hash_state \<times> app_mutation list) sync_op" where
  "apply_patch E B validate_macs name keys st patch =
     bindS (with_backend (get_mutation_macs B name (collect_unique_index_macs (sp_mutations patch)))) (\<lambda>db_prev.
     bindS (liftS (mapE SyncApp (fst (process_patch (se_app E) patch (lookup_app_state_key E keys) (\<lambda>i. Inr (db_prev i)) validate_macs name st)))) (\<lambda>result.
     bindS (with_backend (op_set_version B name (pr_state result))) (\<lambda>_.
     bindS (if pr_removed_index_macs result \<noteq> []
            then with_backend (op_delete_mutation_macs B name (pr_removed_index_macs result)) else returnS ()) (\<lambda>_.
     bindS (if pr_added_macs result \<noteq> []
            then with_backend (op_put_mutation_macs B name (hv_version (pr_state result)) (pr_added_macs result)) else returnS ()) (\<lambda>_.
     returnS (pr_state result, pr_mutations result))))))"

fun apply_patches ::
    "sync_env \<Rightarrow> 's app_sync_ops \<Rightarrow> bool \<Rightarrow> str \<Rightarrow> keys_map \<Rightarrow> hash_state \<Rightarrow> app_mutation list \<Rightarrow> syncd_patch list
      \<Rightarrow> ('s, hash_state \<times> app_mutation list) sync_op" where
  "apply_patches E B validate_macs name keys st new_mutations [] = returnS (st, new_mutations)"
| "apply_patches E B validate_macs name keys st new_mutations (patch # patches) =
     bindS (apply_patch E B validate_macs name keys st patch) (\<lambda>(st, mutations).
     apply_patches E B validate_macs name keys st (new_mutations @ mutations) patches)"

definition process_patch_list ::
    "sync_env \<Rightarrow> 's app_sync_ops \<Rightarrow> patch_list \<Rightarrow> bool \<Rightarrow> ('s, app_mutation list \<times> hash_state \<times> patch_list) sync_op" where
  "process_patch_list E B pl validate_macs =
     (let name = patch_name_as_str (pl_name pl) in
      bindS (prefetch_keys E B pl) (\<lambda>_.
      bindS (with_backend (op_get_version B name)) (\<lambda>st.
      bindS (case pl_snapshot pl of
               Some snapshot \<Rightarrow>
                 if snapshot_is_stale (hv_version st) (or_zero (ss_version snapshot)) then returnS (st, [])
                 else apply_snapshot E B validate_macs name snapshot
             | None \<Rightarrow> returnS (st, [])) (\<lambda>(st, new_mutations).
      let first_version = (case pl_patches pl of p # _ \<Rightarrow> or_zero (sp_version p) | [] \<Rightarrow> 0) in
      if hv_version st = 0 \<and> hv_hash st = replicate 128 0 \<and> pl_patches pl \<noteq> [] \<and> first_version \<noteq> 1
      then returnS (new_mutations, st, pl\<lparr>pl_error := Some (RetryError 0 (lit ''empty lthash''))\<rparr>)
      else
        bindS getS (\<lambda>p.
        bindS (apply_patches E B validate_macs name (asp_key_cache p) st new_mutations (pl_patches pl)) (\<lambda>(st, new_mutations).
        bindS (if pl_patches pl = [] \<and> pl_snapshot pl \<noteq> None
               then with_backend (op_set_version B name st) else returnS ()) (\<lambda>_.
        returnS (new_mutations, st, pl))))))))"

definition process_parsed_patch_list ::
    "sync_env \<Rightarrow> 's app_sync_ops \<Rightarrow> patch_list \<Rightarrow> download \<Rightarrow> bool
      \<Rightarrow> ('s, app_mutation list \<times> hash_state \<times> patch_list) sync_op" where
  "process_parsed_patch_list E B pl dl validate_macs =
     (let (r, pl) = download_external_blobs E dl pl in
      bindS (liftS r) (\<lambda>_. process_patch_list E B pl validate_macs))"

definition decode_patch_list ::
    "sync_env \<Rightarrow> 's app_sync_ops \<Rightarrow> str node \<Rightarrow> download \<Rightarrow> bool
      \<Rightarrow> ('s, app_mutation list \<times> hash_state \<times> patch_list) sync_op" where
  "decode_patch_list E B stanza_root dl validate_macs =
     bindS (liftS (mapE SyncParse (parse_patch_list (se_itoa E) (se_codec E) stanza_root))) (\<lambda>pl.
     process_parsed_patch_list E B pl dl validate_macs)"

definition decode_patch_list_ref ::
    "tables \<Rightarrow> sync_env \<Rightarrow> 's app_sync_ops \<Rightarrow> str node \<Rightarrow> download \<Rightarrow> bool
      \<Rightarrow> ('s, app_mutation list \<times> hash_state \<times> patch_list) sync_op" where
  "decode_patch_list_ref T E B stanza_root dl validate_macs =
     bindS (liftS (mapE SyncParse (parse_patch_list_ref T (se_itoa E) (se_codec E) stanza_root))) (\<lambda>pl.
     process_parsed_patch_list E B pl dl validate_macs)"

definition external_text :: "sync_error \<Rightarrow> str" where
  "external_text e = (case e of External text \<Rightarrow> text | _ \<Rightarrow> [])"

fun process_patch_lists ::
    "sync_env \<Rightarrow> 's app_sync_ops \<Rightarrow> download \<Rightarrow> bool \<Rightarrow> patch_list list
      \<Rightarrow> ('s, (app_mutation list \<times> hash_state \<times> patch_list) list) sync_op" where
  "process_patch_lists E B dl validate_macs [] = returnS []"
| "process_patch_lists E B dl validate_macs (pl # pls) =
     bindS (if pl_error pl \<noteq> None
            then bindS (with_backend (op_get_version B (patch_name_as_str (pl_name pl)))) (\<lambda>st. returnS ([], st, pl))
            else case download_external_blobs E dl pl of
                   (Inl (Err e), pl) \<Rightarrow>
                     bindS (with_backend (op_get_version B (patch_name_as_str (pl_name pl)))) (\<lambda>st.
                     returnS ([], st, pl\<lparr>pl_error := Some (RetryError 0 (external_text e))\<rparr>))
                 | (Inl f, pl) \<Rightarrow> liftS (Inl f)
                 | (Inr _, pl) \<Rightarrow> process_patch_list E B pl validate_macs) (\<lambda>r.
     bindS (process_patch_lists E B dl validate_macs pls) (\<lambda>results.
     returnS (r # results)))"

definition decode_multi_patch_list ::
    "sync_env \<Rightarrow> 's app_sync_ops \<Rightarrow> str node \<Rightarrow> download \<Rightarrow> bool
      \<Rightarrow> ('s, (app_mutation list \<times> hash_state \<times> patch_list) list) sync_op" where
  "decode_multi_patch_list E B stanza_root dl validate_macs =
     bindS (liftS (mapE SyncParse (parse_patch_lists (se_itoa E) (se_codec E) stanza_root))) (\<lambda>pls.
     process_patch_lists E B dl validate_macs pls)"

definition decode_multi_patch_list_ref ::
    "tables \<Rightarrow> sync_env \<Rightarrow> 's app_sync_ops \<Rightarrow> str node \<Rightarrow> download \<Rightarrow> bool
      \<Rightarrow> ('s, (app_mutation list \<times> hash_state \<times> patch_list) list) sync_op" where
  "decode_multi_patch_list_ref T E B stanza_root dl validate_macs =
     bindS (liftS (mapE SyncParse (parse_patch_lists_ref T (se_itoa E) (se_codec E) stanza_root))) (\<lambda>pls.
     process_patch_lists E B dl validate_macs pls)"

section \<open>Building a patch\<close>

definition build_patch ::
    "sync_env \<Rightarrow> 's app_sync_ops \<Rightarrow> str \<Rightarrow> syncd_mutation list \<Rightarrow> ('s, u8 list \<times> u64) sync_op" where
  "build_patch E B name mutations =
     bindS (with_backend (op_get_latest_sync_key_id B)) (\<lambda>key_id.
     bindS (liftS (ok_or key_id NoSyncKey)) (\<lambda>key_id.
     bindS (get_app_state_key E B key_id) (\<lambda>keys.
     bindS (with_backend (op_get_version B name)) (\<lambda>st.
     bindS (with_backend (get_mutation_macs B name (collect_unique_index_macs mutations))) (\<lambda>db_prev.
     let M = ae_macs (se_app E);
         ((_, hash_result), st') = update_hash M (ae_simd (se_app E)) mutations (\<lambda>c index_mac _. (Inr (db_prev index_mac), c)) () st
     in
     bindS (liftS (mapE SyncApp hash_result)) (\<lambda>_.
     bindS (liftS (if hv_version st' = - 1 then Inl Panic else Inr (hv_version st' + 1))) (\<lambda>version.
     let st' = st'\<lparr>hv_version := version\<rparr> in
     bindS (liftS (generate_snapshot_mac M st' name (ek_snapshot_mac keys))) (\<lambda>snapshot_mac.
     let patch = \<lparr>sp_version = None, sp_mutations = mutations, sp_external_mutations = None,
                  sp_snapshot_mac = Some snapshot_mac, sp_patch_mac = None, sp_key_id = Some key_id\<rparr> in
     bindS (liftS (generate_patch_mac M patch name (ek_patch_mac keys) (hv_version st'))) (\<lambda>patch_mac.
     returnS (se_patch_bytes E (patch\<lparr>sp_patch_mac := Some patch_mac\<rparr>), hv_version st))))))))))"

section \<open>The fetch loop\<close>

definition MAX_RETRIES :: nat where
  "MAX_RETRIES = 5"

text \<open>The driver answers the \<open>n\<close>-th request.  The loop is bounded by fuel.\<close>

type_synonym driver = "nat \<Rightarrow> wa_patch_name \<Rightarrow> u64 \<Rightarrow> str node option"

fun sync_loop ::
    "sync_env \<Rightarrow> 's app_sync_ops \<Rightarrow> driver \<Rightarrow> wa_patch_name \<Rightarrow> bool \<Rightarrow> download \<Rightarrow> nat \<Rightarrow> nat \<Rightarrow> nat \<Rightarrow> app_mutation list
      \<Rightarrow> ('s, app_mutation list) sync_op" where
  "sync_loop E B driver name validate_macs dl 0 n retries all = liftS (Inl OutOfFuel)"
| "sync_loop E B driver name validate_macs dl (Suc fuel) n retries all =
     bindS (with_backend (op_get_version B (patch_name_as_str name))) (\<lambda>st.
     bindS (liftS (ok_or (driver n name (hv_version st)) DriverFailed)) (\<lambda>node.
     bindS (decode_patch_list E B node dl validate_macs) (\<lambda>(muts, _, list).
     let all = all @ muts;
         retryable = (case pl_error list of
                        Some (RetryError _ _) \<Rightarrow> True | Some (Conflict again) \<Rightarrow> again | _ \<Rightarrow> False)
     in
     if retryable
     then (let retries = retries + 1 in
           if retries \<ge> MAX_RETRIES then returnS all
           else sync_loop E B driver name validate_macs dl fuel (n + 1) retries all)
     else if \<not> pl_has_more_patches list then returnS all
     else sync_loop E B driver name validate_macs dl fuel (n + 1) retries all)))"

definition sync_collection ::
    "sync_env \<Rightarrow> 's app_sync_ops \<Rightarrow> driver \<Rightarrow> wa_patch_name \<Rightarrow> bool \<Rightarrow> download \<Rightarrow> nat \<Rightarrow> ('s, app_mutation list) sync_op" where
  "sync_collection E B driver name validate_macs dl fuel = sync_loop E B driver name validate_macs dl fuel 0 0 []"

end
