(* ===== verification/SyncSafety.thy ===== *)
theory SyncSafety
  imports AppSync
begin

text \<open>Applying patch lists keeps the hash of a collection the sum over its stored codes, for every store that
  keeps the contract, and what goes wrong when a store operation fails in between.\<close>

section \<open>Steps that keep a collection consistent\<close>

definition keeps ::
    "mac_prims \<Rightarrow> ('s \<Rightarrow> str \<Rightarrow> hash_state) \<Rightarrow> ('s \<Rightarrow> str \<Rightarrow> mac_map) \<Rightarrow> str \<Rightarrow> 's \<Rightarrow> 's \<Rightarrow> bool" where
  "keeps M ver macs n s s' \<longleftrightarrow>
     (synced M (ver s n) (macs s n) \<longrightarrow> synced M (ver s' n) (macs s' n)) \<and>
     hv_version (ver s n) \<le> hv_version (ver s' n) \<and>
     (\<forall>m. m \<noteq> n \<longrightarrow> ver s' m = ver s m \<and> macs s' m = macs s m)"

lemma keeps_same: "ver s' = ver s \<Longrightarrow> macs s' = macs s \<Longrightarrow> keeps M ver macs n s s'"
  by (simp add: keeps_def)

lemma keeps_trans: "keeps M ver macs n s s' \<Longrightarrow> keeps M ver macs n s' s'' \<Longrightarrow> keeps M ver macs n s s''"
  unfolding keeps_def by (auto intro: order_trans)

lemma with_backend_eq:
  "with_backend m p = (mapE SyncStore (fst (m (asp_store p))), p\<lparr>asp_store := snd (m (asp_store p))\<rparr>)"
  by (simp add: with_backend_def split_def Let_def)

text \<open>What a patch list has to satisfy: known operations, at most \<open>2\<^sup>3\<^sup>2\<close> mutations in a patch, and a snapshot without
  repeated indices.\<close>

definition list_ok :: "patch_list \<Rightarrow> bool" where
  "list_ok pl \<longleftrightarrow>
     (\<forall>patch \<in> set (pl_patches pl). length (sp_mutations patch) \<le> 2 ^ 32 \<and> (\<forall>x \<in> set (sp_mutations patch). known_op x)) \<and>
     (\<forall>snapshot. pl_snapshot pl = Some snapshot \<longrightarrow> distinct (map sr_index (ss_records snapshot)))"

lemma saturating_succ_le: "v \<le> saturating_succ v"
proof -
  have "v \<le> v + 1" if "unat v \<noteq> 2 ^ 64 - 1"
  proof -
    have "unat v < 2 ^ 64" using unsigned_less [of v] by simp
    then have "unat v + 1 < 2 ^ 64" using that by linarith
    then have "unat (v + 1) = unat v + 1" by (simp add: unat_word_ariths)
    then show ?thesis by (simp add: word_le_nat_alt)
  qed
  then show ?thesis by (simp add: saturating_succ_def)
qed

lemma index_macs_cover:
  assumes "length ms \<le> 2 ^ 32" "x \<in> set ms" "index_mac_of x = Some i"
  shows "i \<in> set (collect_unique_index_macs ms)"
proof -
  have "mutation_index_mac x = Some i" using assms(3) by (simp add: mutation_index_mac_def index_mac_of_def)
  then have "i \<in> set (List.map_filter mutation_index_mac ms)" using assms(2) by (force simp: List.map_filter_def image_iff)
  then show ?thesis using unique_index_macs [OF assms(1)] by simp
qed

context app_sync_store
begin

lemma get_app_state_key_frame:
  assumes "get_app_state_key E B k p = (r, p')"
  shows "ver (asp_store p') = ver (asp_store p) \<and> macs (asp_store p') = macs (asp_store p)"
proof (cases "asp_key_cache p (se_b64 E k)")
  case None
  obtain r1 s1 where g: "op_get_sync_key B k (asp_store p) = (r1, s1)" by fastforce
  have "asp_store p' = s1"
    using assms None g
    by (auto simp: get_app_state_key_def Let_def bindS_def with_backend_eq liftS_def modifyS_def returnS_def getS_def
        split: sum.splits prod.splits)
  then show ?thesis using get_sync_key [OF g] by simp
next
  case (Some c)
  then show ?thesis using assms by (auto simp: get_app_state_key_def Let_def)
qed

lemma ignore_err_state: "snd (ignore_err m s) = snd (m s)"
  by (auto simp: ignore_err_def split: prod.splits sum.splits fault.splits)

lemma fetch_keys_frame:
  "fetch_keys E B ks p = (r, p') \<Longrightarrow> ver (asp_store p') = ver (asp_store p) \<and> macs (asp_store p') = macs (asp_store p)"
proof (induction ks arbitrary: p)
  case (Cons k ks)
  obtain r1 p1 where g: "get_app_state_key E B k p = (r1, p1)" by fastforce
  note f = get_app_state_key_frame [OF g]
  obtain r2 where i: "ignore_err (get_app_state_key E B k) p = (r2, p1)"
    using ignore_err_state [of "get_app_state_key E B k" p] g by (metis prod.exhaust_sel snd_conv)
  show ?case
  proof (cases r2)
    case (Inl e)
    with i f Cons.prems show ?thesis by (auto simp: bindS_def)
  next
    case (Inr x)
    with i have "fetch_keys E B ks p1 = (r, p')" using Cons.prems by (simp add: bindS_def)
    from Cons.IH [OF this] f show ?thesis by simp
  qed
qed (simp add: returnS_def)

end

context reliable_app_sync_store
begin

lemma apply_snapshot_keeps:
  assumes "mac_prims_ok (ae_macs (se_app E))" "distinct (map sr_index (ss_records snapshot))"
    and "\<not> snapshot_is_stale (hv_version (ver (asp_store p) n)) (or_zero (ss_version snapshot))"
    and "apply_snapshot E B validate n snapshot p = (r, p')"
  shows "keeps (ae_macs (se_app E)) ver macs n (asp_store p) (asp_store p') \<and>
    (\<forall>st mus. r = Inr (st, mus) \<longrightarrow> st = ver (asp_store p') n)"
proof -
  let ?s = "asp_store p"
  obtain r1 st where ps: "process_snapshot (se_app E) snapshot (lookup_app_state_key E (asp_key_cache p)) validate n hash_state_default = (r1, st)"
    by fastforce
  show ?thesis
  proof (cases r1)
    case (Inl e)
    then have "p' = p \<and> (\<exists>f. r = Inl f)" using assms(4) ps by (cases e) (auto simp: apply_snapshot_def liftS_def)
    then show ?thesis by (auto intro: keeps_same)
  next
    case (Inr res)
    note a = accepted_snapshot_synced [OF assms(1,2) ps [unfolded Inr]]
    obtain s1 where 1: "op_clear_mutation_macs B n ?s = (Inr (), s1)" using clear_macs_done by blast
    obtain s2 where 2: "(if ps_mutation_macs res \<noteq> [] then op_put_mutation_macs B n (hv_version st) (ps_mutation_macs res) s1 else (Inr (), s1)) = (Inr (), s2)"
      using put_macs_done by (metis (full_types))
    obtain s3 where 3: "op_set_version B n st s2 = (Inr (), s3)" using set_version_done by blast
    have run: "r = Inr (st, ps_mutations res)" "asp_store p' = s3"
      using assms(4) ps Inr 1 2 3
      by (auto simp: apply_snapshot_def bindS_def liftS_def with_backend_eq returnS_def getS_def split: if_splits)
    have m2: "ver s2 = ver ?s \<and> macs s2 = (macs ?s)(n := store_after Map.empty [] (ps_mutation_macs res))"
      using clear_macs [OF 1] 2 put_macs [of n "hv_version st" "ps_mutation_macs res" s1 s2]
      by (auto simp: store_after_def split: if_splits)
    have m3: "ver s3 = (ver ?s)(n := st)" "macs s3 = (macs ?s)(n := store_after Map.empty [] (ps_mutation_macs res))"
      using set_version [OF 3] m2 by simp_all
    have "hv_version (ver ?s n) \<le> hv_version st"
      using assms(3) a by (auto simp: snapshot_is_stale_def word_gt_0 not_le)
    then show ?thesis using run m3 a by (simp add: keeps_def)
  qed
qed

lemma apply_patch_keeps:
  assumes M: "mac_prims_ok (ae_macs (se_app E))"
    and ok: "length (sp_mutations patch) \<le> 2 ^ 32" "\<forall>x \<in> set (sp_mutations patch). known_op x"
    and st: "st = ver (asp_store p) n" and run: "apply_patch E B True n keys st patch p = (r, p')"
  shows "keeps (ae_macs (se_app E)) ver macs n (asp_store p) (asp_store p') \<and>
    (\<forall>st' mus. r = Inr (st', mus) \<longrightarrow> st' = ver (asp_store p') n)"
proof -
  let ?s = "asp_store p" and ?need = "collect_unique_index_macs (sp_mutations patch)"
  obtain r0 s0 where 0: "get_mutation_macs B n ?need ?s = (r0, s0)" by fastforce
  note g = get_macs [OF 0]
  show ?thesis
  proof (cases r0)
    case (Inl e)
    then have "asp_store p' = s0 \<and> (\<exists>f. r = Inl f)"
      using run 0 by (cases e) (auto simp: apply_patch_def bindS_def with_backend_eq)
    then show ?thesis using g by (auto intro: keeps_same)
  next
    case (Inr prev)
    obtain r1 st1 where pp: "process_patch (se_app E) patch (lookup_app_state_key E keys) (\<lambda>i. Inr (prev i)) True n st = (r1, st1)"
      by fastforce
    show ?thesis
    proof (cases r1)
      case (Inl e)
      then have "asp_store p' = s0 \<and> (\<exists>f. r = Inl f)"
        using run 0 Inr pp by (cases e) (auto simp: apply_patch_def bindS_def with_backend_eq liftS_def)
      then show ?thesis using g by (auto intro: keeps_same)
    next
      case (Inr res)
      note v = accepted_patch_version [OF pp [unfolded Inr]]
      obtain s1 where 1: "op_set_version B n (pr_state res) s0 = (Inr (), s1)" using set_version_done by blast
      obtain s2 where 2: "(if pr_removed_index_macs res \<noteq> [] then op_delete_mutation_macs B n (pr_removed_index_macs res) s1 else (Inr (), s1)) = (Inr (), s2)"
        using delete_macs_done by (metis (full_types))
      obtain s3 where 3: "(if pr_added_macs res \<noteq> [] then op_put_mutation_macs B n (hv_version (pr_state res)) (pr_added_macs res) s2 else (Inr (), s2)) = (Inr (), s3)"
        using put_macs_done by (metis (full_types))
      have rr: "r = Inr (pr_state res, pr_mutations res)" "asp_store p' = s3"
        using run 0 \<open>r0 = Inr prev\<close> pp Inr 1 2 3
        by (auto simp: apply_patch_def bindS_def liftS_def with_backend_eq returnS_def split: if_splits)
      have m: "ver s3 = (ver ?s)(n := pr_state res)"
        "macs s3 = (macs ?s)(n := store_after (macs ?s n) (pr_removed_index_macs res) (pr_added_macs res))"
        using g set_version [OF 1] 2 3 delete_macs [of n "pr_removed_index_macs res" s1 s2]
          put_macs [of n "hv_version (pr_state res)" "pr_added_macs res" s2 s3]
        by (auto simp: store_after_def split: if_splits)
      have "synced (ae_macs (se_app E)) (pr_state res) (store_after (macs ?s n) (pr_removed_index_macs res) (pr_added_macs res))"
        if "synced (ae_macs (se_app E)) st (macs ?s n)"
        using index_macs_cover [OF ok(1)] g \<open>r0 = Inr prev\<close>
        by (intro accepted_patch_synced [OF M that ok(2) pp [unfolded Inr]]) (auto simp: restrict_map_def)
      moreover have "hv_version st \<le> hv_version (pr_state res)"
        using v saturating_succ_le [of "hv_version st"] by (auto simp: had_no_prior_def)
      ultimately show ?thesis using rr m st by (simp add: keeps_def)
    qed
  qed
qed

lemma apply_patches_keeps:
  assumes M: "mac_prims_ok (ae_macs (se_app E))"
  shows "\<forall>patch \<in> set ps. length (sp_mutations patch) \<le> 2 ^ 32 \<and> (\<forall>x \<in> set (sp_mutations patch). known_op x) \<Longrightarrow>
    st = ver (asp_store p) n \<Longrightarrow> apply_patches E B True n keys st mus ps p = (r, p') \<Longrightarrow>
    keeps (ae_macs (se_app E)) ver macs n (asp_store p) (asp_store p') \<and>
    (\<forall>st' mus'. r = Inr (st', mus') \<longrightarrow> st' = ver (asp_store p') n)"
proof (induction ps arbitrary: st mus p)
  case Nil
  then show ?case by (auto simp: returnS_def intro: keeps_same)
next
  case (Cons patch ps)
  obtain r1 p1 where 1: "apply_patch E B True n keys st patch p = (r1, p1)" by fastforce
  have k: "keeps (ae_macs (se_app E)) ver macs n (asp_store p) (asp_store p1)"
    "\<And>st' mus'. r1 = Inr (st', mus') \<Longrightarrow> st' = ver (asp_store p1) n"
    using apply_patch_keeps [OF M _ _ Cons.prems(2) 1] Cons.prems(1) by simp_all
  show ?case
  proof (cases r1)
    case (Inl e)
    then have "r = Inl e" "p' = p1" using Cons.prems(3) 1 by (simp_all add: bindS_def)
    with k(1) show ?thesis by simp
  next
    case (Inr x)
    obtain st1 mus1 where x: "x = (st1, mus1)" by fastforce
    then have "apply_patches E B True n keys st1 (mus @ mus1) ps p1 = (r, p')"
      using Cons.prems(3) 1 Inr by (simp add: bindS_def)
    from Cons.IH [OF _ _ this] Cons.prems(1) k(2) Inr x
    have "keeps (ae_macs (se_app E)) ver macs n (asp_store p1) (asp_store p') \<and>
      (\<forall>st' mus'. r = Inr (st', mus') \<longrightarrow> st' = ver (asp_store p') n)" by simp
    with k(1) show ?thesis by (blast intro: keeps_trans)
  qed
qed

lemma set_same_version:
  assumes "with_backend (op_set_version B n (ver (asp_store p) n)) p = (r, p')"
  shows "ver (asp_store p') = ver (asp_store p) \<and> macs (asp_store p') = macs (asp_store p)"
proof -
  obtain s1 where "op_set_version B n (ver (asp_store p) n) (asp_store p) = (Inr (), s1)" using set_version_done by blast
  with set_version [OF this] assms show ?thesis by (auto simp: with_backend_eq)
qed

lemma snapshot_step_keeps:
  assumes M: "mac_prims_ok (ae_macs (se_app E))" and ok: "list_ok pl" and st: "st = ver (asp_store p) n"
    and run: "(case pl_snapshot pl of
        Some snapshot \<Rightarrow> if snapshot_is_stale (hv_version st) (or_zero (ss_version snapshot)) then returnS (st, [])
          else apply_snapshot E B True n snapshot
      | None \<Rightarrow> returnS (st, [])) p = (r, p')"
  shows "keeps (ae_macs (se_app E)) ver macs n (asp_store p) (asp_store p') \<and>
    (\<forall>st' mus. r = Inr (st', mus) \<longrightarrow> st' = ver (asp_store p') n)"
proof (cases "\<exists>snapshot. pl_snapshot pl = Some snapshot \<and> \<not> snapshot_is_stale (hv_version st) (or_zero (ss_version snapshot))")
  case True
  then obtain snapshot where s: "pl_snapshot pl = Some snapshot" "\<not> snapshot_is_stale (hv_version st) (or_zero (ss_version snapshot))" by blast
  with run have "apply_snapshot E B True n snapshot p = (r, p')" by simp
  with apply_snapshot_keeps [OF M _ s(2) [unfolded st] this] ok s(1) show ?thesis by (simp add: list_ok_def)
next
  case False
  then have "r = Inr (st, []) \<and> p' = p" using run by (auto simp: returnS_def split: option.splits)
  then show ?thesis using st by (auto intro: keeps_same)
qed

lemma patches_step_keeps:
  assumes M: "mac_prims_ok (ae_macs (se_app E))" and ok: "list_ok pl" and st: "st = ver (asp_store p) n"
    and run: "bindS (apply_patches E B True n keys st mus (pl_patches pl)) (\<lambda>(st, new_mutations).
        bindS (if c then with_backend (op_set_version B n st) else returnS ()) (\<lambda>_. returnS (new_mutations, st, pl))) p = (r, p')"
  shows "keeps (ae_macs (se_app E)) ver macs n (asp_store p) (asp_store p')"
proof -
  obtain r4 p4 where 4: "apply_patches E B True n keys st mus (pl_patches pl) p = (r4, p4)" by fastforce
  have k4: "keeps (ae_macs (se_app E)) ver macs n (asp_store p) (asp_store p4)"
    "\<And>st' mus. r4 = Inr (st', mus) \<Longrightarrow> st' = ver (asp_store p4) n"
    using apply_patches_keeps [OF M _ st 4] ok by (auto simp: list_ok_def)
  have "ver (asp_store p') = ver (asp_store p4) \<and> macs (asp_store p') = macs (asp_store p4)"
  proof (cases r4)
    case (Inl e)
    then show ?thesis using run 4 by (simp add: bindS_Inl)
  next
    case (Inr y)
    obtain st' mus' where y: "y = (st', mus')" by fastforce
    obtain r5 p5 where 5: "(if c then with_backend (op_set_version B n st') else returnS ()) p4 = (r5, p5)" by fastforce
    have "ver (asp_store p5) = ver (asp_store p4) \<and> macs (asp_store p5) = macs (asp_store p4)"
      using 5 set_same_version k4(2) Inr y by (auto simp: returnS_def split: if_splits)
    moreover have "p' = p5"
      using run 4 5 Inr y by (cases r5) (simp_all add: bindS_Inr bindS_Inl returnS_def)
    ultimately show ?thesis by simp
  qed
  then have "keeps (ae_macs (se_app E)) ver macs n (asp_store p4) (asp_store p')" by (intro keeps_same) simp_all
  with k4(1) show ?thesis by (rule keeps_trans)
qed

lemma process_patch_list_keeps:
  assumes M: "mac_prims_ok (ae_macs (se_app E))" and ok: "list_ok pl" and run: "process_patch_list E B pl True p = (r, p')"
  shows "keeps (ae_macs (se_app E)) ver macs (patch_name_as_str (pl_name pl)) (asp_store p) (asp_store p')"
proof -
  let ?n = "patch_name_as_str (pl_name pl)" and ?K = "keeps (ae_macs (se_app E)) ver macs (patch_name_as_str (pl_name pl))"
  obtain r1 p1 where 1: "prefetch_keys E B pl p = (r1, p1)" by fastforce
  have f1: "ver (asp_store p1) = ver (asp_store p)" "macs (asp_store p1) = macs (asp_store p)"
    using fetch_keys_frame 1 unfolding prefetch_keys_def by blast+
  obtain r2 p2 where 2: "with_backend (op_get_version B ?n) p1 = (r2, p2)" by fastforce
  then have v: "ver (asp_store p2) = ver (asp_store p1)" "macs (asp_store p2) = macs (asp_store p1)" "\<And>st. r2 = Inr st \<Longrightarrow> st = ver (asp_store p2) ?n"
    using get_version [OF prod.collapse [symmetric], of ?n "asp_store p1"] by (auto simp: with_backend_eq)
  have K2: "?K (asp_store p) (asp_store p2)" using f1 v by (intro keeps_same) simp_all
  show ?thesis
  proof (cases r1)
    case (Inl e)
    then have "p' = p1" using run 1 by (simp add: process_patch_list_def Let_def bindS_Inl)
    then show ?thesis using f1 by (intro keeps_same) simp_all
  next
    case r1: (Inr u)
    show ?thesis
    proof (cases r2)
      case (Inl e)
      then have "p' = p2" using run 1 2 r1 by (simp add: process_patch_list_def Let_def bindS_Inl bindS_Inr)
      then show ?thesis using K2 by simp
    next
      case r2: (Inr st)
      let ?snap = "case pl_snapshot pl of
          Some snapshot \<Rightarrow> if snapshot_is_stale (hv_version st) (or_zero (ss_version snapshot)) then returnS (st, [])
            else apply_snapshot E B True ?n snapshot
        | None \<Rightarrow> returnS (st, [])"
      obtain r3 p3 where 3: "?snap p2 = (r3, p3)" by fastforce
      have k3: "?K (asp_store p2) (asp_store p3)" "\<And>st' mus. r3 = Inr (st', mus) \<Longrightarrow> st' = ver (asp_store p3) ?n"
        using snapshot_step_keeps [OF M ok v(3) [OF r2] 3] by blast+
      have K3: "?K (asp_store p) (asp_store p3)" using K2 k3(1) by (rule keeps_trans)
      show ?thesis
      proof (cases r3)
        case (Inl e)
        then have "p' = p3" using run 1 2 3 r1 r2 by (simp add: process_patch_list_def Let_def bindS_Inl bindS_Inr)
        then show ?thesis using K3 by simp
      next
        case r3: (Inr x)
        obtain st3 mus3 where x: "x = (st3, mus3)" by fastforce
        let ?rest = "bindS (apply_patches E B True ?n (asp_key_cache p3) st3 mus3 (pl_patches pl)) (\<lambda>(st, new_mutations).
          bindS (if pl_patches pl = [] \<and> pl_snapshot pl \<noteq> None then with_backend (op_set_version B ?n st) else returnS ()) (\<lambda>_.
          returnS (new_mutations, st, pl)))"
        have "p' = p3 \<or> ?rest p3 = (r, p')"
          using run 1 2 3 r1 r2 r3 x
          by (simp add: process_patch_list_def Let_def bindS_Inr returnS_def split: if_splits)
        moreover have "?K (asp_store p) (asp_store p')" if "?rest p3 = (r, p')"
          by (rule keeps_trans [OF K3 patches_step_keeps [OF M ok k3(2) [OF r3 [unfolded x]] that]])
        ultimately show ?thesis using K3 by auto
      qed
    qed
  qed
qed

end

end
