(* ===== verification/SyncSend.thy ===== *)
theory SyncSend
  imports SyncSafety
begin

text \<open>A patch built by one device is accepted by another device that holds the same collection.\<close>

section \<open>The hash update of the sender and of the receiver\<close>

text \<open>The receiver looks up previous values first in the patch itself; with different indices that never
  happens.\<close>

abbreviation plain_prev :: "mac_map \<Rightarrow> unit \<Rightarrow> u8 list \<Rightarrow> nat \<Rightarrow> ('e, u8 list option) res \<times> unit" where
  "plain_prev m \<equiv> (\<lambda>c i _. (Inr (m i), c))"

definition same_run :: "(('r \<times> 'c) \<times> 'x) \<Rightarrow> (('r \<times> 'd) \<times> 'x) \<Rightarrow> bool" where
  "same_run a b \<longleftrightarrow> fst (fst a) = fst (fst b) \<and> snd a = snd b"

lemma update_hash_loop_plain:
  assumes "distinct (map index_mac_of all)" "\<forall>x \<in> set all. index_mac_of x \<noteq> None" "all = pre @ ms"
    and "dom in_patch \<subseteq> the ` index_mac_of ` set pre"
  shows "same_run (update_hash_loop (patch_prev all (\<lambda>i. Inr (m i))) gone (length pre) ms in_patch added removed miss)
    (update_hash_loop (plain_prev m) gone (length pre) ms () added removed miss)"
  using assms(3,4)
proof (induction ms arbitrary: pre in_patch added removed miss)
  case (Cons x ms)
  obtain i where i: "index_mac_of x = Some i" using assms(2) Cons.prems(1) by auto
  have nth: "all ! length pre = x" using Cons.prems(1) by simp
  have "i \<notin> the ` index_mac_of ` set pre"
  proof
    assume "i \<in> the ` index_mac_of ` set pre"
    then obtain y where y: "y \<in> set pre" "the (index_mac_of y) = i" by auto
    then have "index_mac_of y = Some i" using assms(2) Cons.prems(1) by force
    then show False using assms(1) Cons.prems(1) y(1) i by (auto simp: image_iff)
  qed
  then have free: "in_patch i = None" using Cons.prems(2) by auto
  define ip where "ip = (case value_of x of Some v \<Rightarrow> if 32 \<le> length v then in_patch(i \<mapsto> last32 v) else in_patch | None \<Rightarrow> in_patch)"
  have prev: "patch_prev all (\<lambda>i. Inr (m i)) in_patch i (length pre) = (Inr (m i), ip)"
    using free i by (auto simp: patch_prev_def nth Let_def ip_def split: option.split)
  have ip: "dom ip \<subseteq> insert i (dom in_patch)" by (auto simp: ip_def split: option.splits)
  have IH: "same_run (update_hash_loop (patch_prev all (\<lambda>i. Inr (m i))) gone (Suc (length pre)) ms jp a r b)
    (update_hash_loop (plain_prev m) gone (Suc (length pre)) ms () a r b)"
    if "dom jp \<subseteq> insert i (dom in_patch)" for jp a r b
  proof -
    have "insert i (dom in_patch) \<subseteq> the ` index_mac_of ` set (pre @ [x])" using Cons.prems(2) i by force
    with that have "dom jp \<subseteq> the ` index_mac_of ` set (pre @ [x])" by (rule subset_trans)
    from Cons.IH [OF _ this] Cons.prems(1) show ?thesis by simp
  qed
  have id: "dom in_patch \<subseteq> insert i (dom in_patch)" by blast
  show ?case
    using IH [OF id] IH [OF ip] prev i by (cases "m i") (simp_all add: Let_def)
qed (simp add: same_run_def)

lemma update_hash_plain:
  assumes "distinct (map index_mac_of ms)" "\<forall>x \<in> set ms. index_mac_of x \<noteq> None"
  shows "update_hash M simd ms (patch_prev ms (\<lambda>i. Inr (m i))) Map.empty st =
    (update_hash M simd ms (plain_prev m) () st :: (bool \<times> unit ares) \<times> hash_state)"
proof -
  let ?a = "update_hash_loop (patch_prev ms (\<lambda>i. Inr (m i))) (removed_in_patch ms) 0 ms Map.empty [] [] False"
  let ?b = "update_hash_loop (plain_prev m) (removed_in_patch ms) 0 ms () [] [] False :: (unit ares \<times> unit) \<times> _"
  have "same_run ?a ?b" using update_hash_loop_plain [OF assms, of "[]" ms Map.empty] by simp
  then obtain r c d x y z where "?a = ((r, c), x, y, z)" "?b = ((r, d), x, y, z)"
    by (cases ?a; cases ?b) (auto simp: same_run_def)
  then show ?thesis by (simp add: update_hash_def)
qed

lemma update_hash_version_free:
  "update_hash M simd ms gp c (st\<lparr>hv_version := v\<rparr>) = (let (x, st') = update_hash M simd ms gp c st in (x, st'\<lparr>hv_version := v\<rparr>))"
  by (auto simp: update_hash_def Let_def split_def split: sum.splits)

section \<open>Records a sender makes\<close>

text \<open>The record was encoded from the operation, the index and the action of the mutation.\<close>

definition encodes :: "app_env \<Rightarrow> expanded_app_state_keys \<Rightarrow> u8 list \<Rightarrow> syncd_mutation \<Rightarrow> app_mutation \<Rightarrow> bool" where
  "encodes A keys key_id m mu \<longleftrightarrow>
     (\<exists>op index value iv version vm. length iv = 16 \<and>
        encode_record A op index value keys key_id iv version = (Inr (m, vm) :: (syncd_mutation \<times> u8 list) ares) \<and>
        mu = \<lparr>mu_action_value = Some value, mu_index = (case ae_json A index of Some parsed \<Rightarrow> parsed | None \<Rightarrow> []), mu_operation = op\<rparr>)"

lemma op_try_from_value [simp]: "op_try_from (op_value op) = Some op"
  by (cases op) (simp_all add: op_try_from_def op_value_def)

lemma encodes_facts:
  assumes "app_env_ok A" "keys_ok keys" "encodes A keys key_id m mu"
  obtains op rec x where "sm_record m = Some rec" "operation_of m = op_value op" "sr_key_id rec = Some key_id"
    "decode_record A op rec keys key_id True = Inr (mu, x)" "known_op m" "complete_mut m"
proof -
  obtain op index "value" iv version vm where iv: "length iv = 16"
    and e: "encode_record A op index value keys key_id iv version = (Inr (m, vm) :: (syncd_mutation \<times> u8 list) ares)"
      "mu = \<lparr>mu_action_value = Some value, mu_index = (case ae_json A index of Some parsed \<Rightarrow> parsed | None \<Rightarrow> []), mu_operation = op\<rparr>"
    using assms(3) by (auto simp: encodes_def)
  obtain rec x where d: "sm_record m = Some rec" "sm_operation m = Some (op_value op)"
    "decode_record A op rec keys key_id True = Inr (mu, x)"
    using encode_record_decodes [OF assms(1,2) iv, of op index "value" key_id version True] e by auto
  have k: "sr_key_id rec = Some key_id"
    using e d(1) by (auto simp: encode_record_def Let_def split: sum.splits)
  obtain i v where "sr_index rec = Some i" "sr_value rec = Some v" "48 \<le> length v"
    using decode_record_macs [OF d(3)] by auto
  then have "known_op m" "complete_mut m"
    using d by (simp_all add: known_op_def complete_mut_def operation_of_def index_mac_of_def value_of_def)
  then show ?thesis using that d k by (simp add: operation_of_def)
qed

lemma encodes_complete:
  assumes "app_env_ok A" "keys_ok keys" "list_all2 (encodes A keys key_id) ms mus"
  shows "\<forall>x \<in> set ms. known_op x \<and> complete_mut x"
  using assms(3) by (induction rule: list_all2_induct) (auto elim: encodes_facts [OF assms(1,2)])

lemma decode_made:
  assumes "app_env_ok A" "keys_ok keys" "gk key_id = Inr keys" "list_all2 (encodes A keys key_id) ms mus"
  shows "\<exists>added removed. decode_patch_mutations A gk True ms = Inr (mus, added, removed)"
  using assms(4)
proof (induction rule: list_all2_induct)
  case (Cons m ms mu mus)
  obtain op rec x where "sm_record m = Some rec" "operation_of m = op_value op" "sr_key_id rec = Some key_id"
    "decode_record A op rec keys key_id True = Inr (mu, x)"
    using encodes_facts [OF assms(1,2) Cons.hyps(1)] by blast
  with Cons assms(3) show ?case by (cases op) auto
qed simp

lemma detect_made:
  "distinct (map index_mac_of ms) \<Longrightarrow> \<forall>m \<in> set ms. index_mac_of m \<notin> Some ` (set ss \<union> set sr) \<Longrightarrow>
   detect_duplicate_index_in_patch ss sr ms = Inr ()"
proof (induction ms arbitrary: ss sr)
  case (Cons m ms)
  show ?case
  proof (cases "index_mac_of m")
    case None
    with Cons show ?thesis by simp
  next
    case (Some i)
    then have i: "i \<notin> set ss" "i \<notin> set sr" using Cons.prems(2) by auto
    have ms: "\<forall>x \<in> set ms. index_mac_of x \<notin> Some ` (set (ss @ [i]) \<union> set sr) \<and> index_mac_of x \<notin> Some ` (set ss \<union> set (sr @ [i]))"
      using Cons.prems Some by (auto simp: image_iff)
    have "distinct (map index_mac_of ms)" using Cons.prems(1) by simp
    with Cons.IH [of "ss @ [i]" sr] Cons.IH [of ss "sr @ [i]"] ms i Some show ?thesis
      by (auto simp: Let_def split: syncd_operation.split)
  qed
qed simp

lemma update_hash_done:
  assumes "mac_prims_ok M" "length (hv_hash st) = 128" "\<forall>x \<in> set ms. known_op x \<and> complete_mut x" "distinct (map index_mac_of ms)"
  shows "\<exists>miss st'. update_hash M simd ms (patch_prev ms (\<lambda>i. Inr (m i))) Map.empty st = ((miss, Inr () :: unit ares), st')"
proof -
  have "distinct (map ent_index (set_entries ms))"
  proof -
    have "distinct (map (\<lambda>x. ent_index (mut_entry x)) ms)"
      using assms(3,4) by (induction ms) (auto simp: complete_mut_def mut_entry_def image_iff)
    then show ?thesis by (induction ms) (auto simp: comp_def)
  qed
  then obtain c miss where l: "update_hash_loop (patch_prev ms (\<lambda>i. Inr (m i))) (removed_in_patch ms) 0 ms Map.empty [] [] False =
      ((Inr (), c), map ent_value (set_entries ms), List.map_filter (subtracted m (set (removed_in_patch ms))) (map mut_entry ms), miss)"
    using update_hash_loop_entries [of ms "[]" ms "removed_in_patch ms" Map.empty m "[]" "[]" False] assms(3)
      removed_in_patch_entries [OF assms(3)] by auto
  let ?sub = "List.map_filter (subtracted m (set (removed_in_patch ms))) (map mut_entry ms)"
  obtain h where h: "subtract_then_add_in_place M simd WAPATCH_INTEGRITY (hv_hash st) ?sub [] = (Inr h :: u8 list ares)" "length h = 128"
    using subtract_then_add_vec [OF assms(1,2), of simd ?sub "[]"] by auto
  obtain h' where "subtract_then_add_in_place M simd WAPATCH_INTEGRITY h [] (map ent_value (set_entries ms)) = (Inr h' :: u8 list ares)"
    using subtract_then_add_vec [OF assms(1) h(2), of simd "[]" "map ent_value (set_entries ms)"] by auto
  with l h show ?thesis by (simp add: update_hash_def)
qed

section \<open>A built patch is accepted\<close>

lemma process_built_patch:
  assumes A: "app_env_ok A" and k: "keys_ok keys" "gk key_id = Inr keys"
    and ms: "list_all2 (encodes A keys key_id) ms mus" "distinct (map index_mac_of ms)"
    and st: "length (hv_hash st) = 128" "unat (hv_version st) < 2 ^ 64 - 1"
    and u: "update_hash (ae_macs A) (ae_simd A) ms (plain_prev prev) () st = ((miss, Inr () :: unit ares), st1)"
    and st': "st' = st1\<lparr>hv_version := hv_version st + 1\<rparr>"
    and sm: "generate_snapshot_mac (ae_macs A) st' name (ek_snapshot_mac keys) = (Inr snapshot_mac :: u8 list ares)"
    and p: "patch = \<lparr>sp_version = None, sp_mutations = ms, sp_external_mutations = None, sp_snapshot_mac = Some snapshot_mac,
       sp_patch_mac = None, sp_key_id = Some key_id\<rparr>"
    and pm: "generate_patch_mac (ae_macs A) patch name (ek_patch_mac keys) (hv_version st') = (Inr patch_mac :: u8 list ares)"
  shows "\<exists>r. process_patch A (patch\<lparr>sp_patch_mac := Some patch_mac, sp_version := Some (hv_version st + 1)\<rparr>) gk
      (\<lambda>i. Inr (prev i)) True name st = (Inr r, st') \<and> pr_state r = st' \<and> pr_mutations r = mus"
proof -
  have ok: "\<forall>x \<in> set ms. index_mac_of x \<noteq> None"
    using encodes_complete [OF A k(1) ms(1)] by (simp add: complete_mut_def)
  obtain added removed where d: "decode_patch_mutations A gk True ms = Inr (mus, added, removed)"
    using decode_made [where gk = gk and key_id = key_id, OF A k ms(1)] by blast
  have succ: "saturating_succ (hv_version st) = hv_version st + 1" using st(2) by (simp add: saturating_succ_def)
  have h: "update_hash (ae_macs A) (ae_simd A) ms (patch_prev ms (\<lambda>i. Inr (prev i))) Map.empty (st\<lparr>hv_version := hv_version st + 1\<rparr>) =
      ((miss, Inr ()), st')"
    using u st' by (simp add: update_hash_plain [OF ms(2) ok] update_hash_version_free)
  have pm': "generate_patch_mac (ae_macs A) (patch\<lparr>sp_patch_mac := Some patch_mac, sp_version := Some (hv_version st + 1)\<rparr>) name
      (ek_patch_mac keys) (hv_version st + 1) = (Inr patch_mac :: u8 list ares)"
    using pm st' by (simp add: generate_patch_mac_def)
  have "validate_patch_macs A (patch\<lparr>sp_patch_mac := Some patch_mac, sp_version := Some (hv_version st + 1)\<rparr>) st' keys name no_prior = Inr ()" for no_prior
    using sm pm' p by (simp add: validate_patch_macs_def or_zero_def Let_def)
  then show ?thesis
    using h d succ p detect_made [OF ms(2), of "[]" "[]"] k(2)
    by (simp add: process_patch_def or_zero_def Let_def)
qed

lemma mem_get_macs: "get_mutation_macs mem_ops n is s = (Inr (mem_macs s n |` set is), s)"
proof -
  have "\<exists>p. get_macs_loop mem_ops n out is s = (Inr p, s)" for out
    by (induction "is" arbitrary: out) (simp_all add: returnS_def bindS_def mem_ops_def get_mutation_mac_def readM_def)
  then obtain p where "get_mutation_macs mem_ops n is s = (Inr p, s)" unfolding get_mutation_macs_def by blast
  with mem.get_macs [OF this] show ?thesis by simp
qed

lemma mem_reads:
  "op_get_latest_sync_key_id mem_ops s = (Inr (im_latest_sync_key_id s), s)" "op_get_version mem_ops n s = (Inr (mem_ver s n), s)"
  by (simp_all add: mem_ops_def get_latest_sync_key_id_def get_version_def mem_ver_def readM_def)

lemma generated_snapshot_mac:
  "generate_snapshot_mac M st name key = Inr (hmac_sha256 M key (hv_hash st @ u64_to_be (hv_version st) @ name))"
  by (simp add: generate_snapshot_mac_def mac_of_sha256)

lemma generated_patch_mac:
  "generate_patch_mac M patch name key version = Inr (hmac_sha256 M key
     (concat ((case sp_snapshot_mac patch of Some sm \<Rightarrow> [sm] | None \<Rightarrow> []) @ blob_macs (sp_mutations patch)) @ u64_to_be version @ name))"
  by (simp add: generate_patch_mac_def mac_of_sha256)

lemma mem_writes_done:
  "\<exists>s'. op_set_version mem_ops n st s = (Inr (), s')" "\<exists>s'. op_put_mutation_macs mem_ops n v added s = (Inr (), s')"
  "\<exists>s'. op_delete_mutation_macs mem_ops n removed s = (Inr (), s')"
  using mem.set_version_done mem.put_macs_done mem.delete_macs_done by blast+

lemma apply_accepted_patch:
  assumes "process_patch (se_app E) patch (lookup_app_state_key E keys) (\<lambda>i. Inr ((mem_macs (asp_store q) n |` set (collect_unique_index_macs (sp_mutations patch))) i))
    v n st = (Inr r, st')"
  shows "\<exists>q'. apply_patch E mem_ops v n keys st patch q = (Inr (pr_state r, pr_mutations r), q')"
proof -
  obtain s1 where 1: "op_set_version mem_ops n (pr_state r) (asp_store q) = (Inr (), s1)" using mem_writes_done by blast
  obtain s2 where 2: "op_delete_mutation_macs mem_ops n (pr_removed_index_macs r) s1 = (Inr (), s2)" using mem_writes_done by blast
  obtain s3 where 3: "op_put_mutation_macs mem_ops n (hv_version (pr_state r)) (pr_added_macs r) s2 = (Inr (), s3)"
    using mem_writes_done(2) by blast
  obtain s4 where 4: "op_put_mutation_macs mem_ops n (hv_version (pr_state r)) (pr_added_macs r) s1 = (Inr (), s4)"
    using mem_writes_done(2) by blast
  show ?thesis
    using assms 1 2 3 4 by (simp add: apply_patch_def bindS_def with_backend_eq mem_get_macs liftS_def returnS_def)
qed

text \<open>C8: a device builds a patch from records that it has encoded under its current key, with
  pairwise different indices, at a version below the largest one.  Another device whose collection has the same hash
  state and the same stored codes, and which knows the key, accepts the patch, numbered as the next version, and decodes
  exactly the operations, indices and actions that were encoded, in their order.\<close>

theorem built_patch_accepted:
  assumes A: "app_env_ok (se_app E)"
    and key: "im_latest_sync_key_id (asp_store p) = Some key_id" "get_app_state_key E mem_ops key_id p = (Inr keys, p1)" "keys_ok keys"
    and ms: "list_all2 (encodes (se_app E) keys key_id) ms mus" "distinct (map index_mac_of ms)"
    and st: "length (hv_hash (mem_ver (asp_store p) n)) = 128" "unat (hv_version (mem_ver (asp_store p) n)) < 2 ^ 64 - 1"
    and q: "mem_ver (asp_store q) n = mem_ver (asp_store p) n" "mem_macs (asp_store q) n = mem_macs (asp_store p) n"
      "known (se_b64 E key_id) = Some keys"
  shows "\<exists>patch p' st' q'.
    build_patch E mem_ops n ms p = (Inr (se_patch_bytes E patch, hv_version (mem_ver (asp_store p) n)), p') \<and>
    apply_patch E mem_ops True n known (mem_ver (asp_store q) n)
      (patch\<lparr>sp_version := Some (hv_version (mem_ver (asp_store p) n) + 1)\<rparr>) q = (Inr (st', mus), q') \<and>
    hv_version st' = hv_version (mem_ver (asp_store p) n) + 1"
proof -
  let ?A = "se_app E" and ?st = "mem_ver (asp_store p) n"
  let ?prev = "mem_macs (asp_store p) n |` set (collect_unique_index_macs ms)"
  have M: "mac_prims_ok (ae_macs ?A)" using A by (simp add: app_env_ok_def)
  have f: "mem_ver (asp_store p1) = mem_ver (asp_store p)" "mem_macs (asp_store p1) = mem_macs (asp_store p)"
    using mem.get_app_state_key_frame [OF key(2)] by simp_all
  have c: "\<forall>x \<in> set ms. known_op x \<and> complete_mut x" by (rule encodes_complete [OF A key(3) ms(1)])
  then have ix: "\<forall>x \<in> set ms. index_mac_of x \<noteq> None" by (simp add: complete_mut_def)
  obtain miss st1 where u: "update_hash (ae_macs ?A) (ae_simd ?A) ms (plain_prev ?prev) () ?st = ((miss, Inr () :: unit ares), st1)"
    using update_hash_done [OF M st(1) c ms(2), of "ae_simd ?A" ?prev] unfolding update_hash_plain [OF ms(2) ix] by blast
  define st' where "st' = st1\<lparr>hv_version := hv_version ?st + 1\<rparr>"
  define sm where "sm = hmac_sha256 (ae_macs ?A) (ek_snapshot_mac keys) (hv_hash st' @ u64_to_be (hv_version st') @ n)"
  define patch where "patch = \<lparr>sp_version = None, sp_mutations = ms, sp_external_mutations = None, sp_snapshot_mac = Some sm,
     sp_patch_mac = None, sp_key_id = Some key_id\<rparr>"
  define pm where "pm = hmac_sha256 (ae_macs ?A) (ek_patch_mac keys)
    (concat ((case sp_snapshot_mac patch of Some sm \<Rightarrow> [sm] | None \<Rightarrow> []) @ blob_macs (sp_mutations patch)) @ u64_to_be (hv_version st') @ n)"
  have gk: "lookup_app_state_key E known key_id = Inr keys" using q(3) by (simp add: lookup_app_state_key_def)
  let ?p = "patch\<lparr>sp_patch_mac := Some pm, sp_version := Some (hv_version ?st + 1)\<rparr>"
  obtain r where r: "process_patch ?A ?p (lookup_app_state_key E known) (\<lambda>i. Inr (?prev i)) True n ?st = (Inr r, st')"
    "pr_state r = st'" "pr_mutations r = mus"
    using process_built_patch [where gk = "lookup_app_state_key E known" and key_id = key_id and prev = ?prev,
        OF A key(3) gk ms st u st'_def _ patch_def] by (auto simp: generated_snapshot_mac generated_patch_mac sm_def pm_def)
  obtain q' where "apply_patch E mem_ops True n known ?st ?p q = (Inr (st', pr_mutations r), q')"
    using apply_accepted_patch [where E = E and patch = ?p and q = q and n = n and keys = known and v = True and st = ?st and r = r and st' = st'] r q(2)
    by (auto simp: patch_def)
  moreover have "hv_version ?st \<noteq> - 1" using st(2) by (auto simp: unsigned_minus_1_eq_mask mask_eq_exp_minus_1)
  then have "\<exists>p'. build_patch E mem_ops n ms p = (Inr (se_patch_bytes E (patch\<lparr>sp_patch_mac := Some pm\<rparr>), hv_version ?st), p')"
    using key f u update_hash_version [OF u]
    by (simp add: build_patch_def bindS_def with_backend_eq liftS_def returnS_def mem_get_macs mem_reads Let_def st'_def patch_def
        generated_snapshot_mac generated_patch_mac sm_def pm_def)
  ultimately show ?thesis using r q(1) by (auto simp: st'_def)
qed

section \<open>A sample device\<close>

definition sample_sync :: sync_env where
  "sample_sync =
     \<lparr>se_app = sample_app, se_b64 = (\<lambda>x. x), se_itoa = decimal, se_codec = \<lparr>pc_ref = Some, pc_patch = (\<lambda>_. None)\<rparr>,
      se_snapshot = (\<lambda>_. None), se_mutations = (\<lambda>_. None), se_patch_bytes = (\<lambda>p. put_opt (sp_patch_mac p))\<rparr>"

definition sample_made :: syncd_mutation where
  "sample_made = (case encode_record sample_app SyncdSet [91, 93] [7] sample_keys [1] (replicate 16 9) 3 :: (syncd_mutation \<times> u8 list) ares of
     Inr (m, _) \<Rightarrow> m | Inl _ \<Rightarrow> \<lparr>sm_operation = None, sm_record = None\<rparr>)"

definition sample_processor :: "in_memory_state app_state_processor" where
  "sample_processor = \<lparr>asp_store = mem_run (SetSyncKey [1] \<lparr>ak_key_data = [], ak_fingerprint = [], ak_timestamp = 0\<rparr>) in_memory_new,
     asp_key_cache = [[1] \<mapsto> sample_keys]\<rparr>"

lemma sample_encodes:
  "encodes sample_app sample_keys [1] sample_made
     \<lparr>mu_action_value = Some [7], mu_index = [[91, 93]], mu_operation = SyncdSet\<rparr>"
proof -
  obtain m where "encode_record sample_app SyncdSet [91, 93] [7] sample_keys [1] (replicate 16 9) 3 = (Inr m :: (syncd_mutation \<times> u8 list) ares)"
    using encode_record_decodes [OF sample_app_ok sample_keys_ok, of "replicate 16 9" SyncdSet "[91, 93]" "[7]" "[1]" 3 True] by auto
  then show ?thesis unfolding encodes_def
    by (intro exI [of _ SyncdSet] exI [of _ "[91, 93]"] exI [of _ "[7]"] exI [of _ "replicate 16 9"] exI [of _ 3] exI [of _ "snd m"])
      (simp add: sample_made_def split_def sample_app_def)
qed

lemma sample_store: "mem_ver (asp_store sample_processor) n = hash_state_default" "mem_macs (asp_store sample_processor) n = Map.empty"
  by (simp_all add: sample_processor_def mem_ver_def mem_macs_def set_sync_key_def in_memory_new_def)

lemma sample_key: "get_app_state_key sample_sync mem_ops [1] sample_processor = (Inr sample_keys, sample_processor)"
  by (simp add: get_app_state_key_def sample_sync_def sample_processor_def returnS_def Let_def)

theorem built_patch_accepted_witness:
  "\<exists>patch p' st' q'.
    build_patch sample_sync mem_ops (lit ''regular'') [sample_made] sample_processor = (Inr (se_patch_bytes sample_sync patch, 0), p') \<and>
    apply_patch sample_sync mem_ops True (lit ''regular'') [[1] \<mapsto> sample_keys] hash_state_default
      (patch\<lparr>sp_version := Some 1\<rparr>) sample_processor =
        (Inr (st', [\<lparr>mu_action_value = Some [7], mu_index = [[91, 93]], mu_operation = SyncdSet\<rparr>]), q') \<and> hv_version st' = 1"
proof -
  have "app_env_ok (se_app sample_sync)" "im_latest_sync_key_id (asp_store sample_processor) = Some [1]"
    by (simp_all add: sample_sync_def sample_app_ok sample_processor_def set_sync_key_def)
  from built_patch_accepted [OF this sample_key sample_keys_ok, of "[sample_made]"
      "[\<lparr>mu_action_value = Some [7], mu_index = [[91, 93]], mu_operation = SyncdSet\<rparr>]" "lit ''regular''" sample_processor "[[1] \<mapsto> sample_keys]"]
  show ?thesis
    using sample_encodes by (simp add: sample_store hash_state_default_def sample_sync_def)
qed

section \<open>What an accepted patch carries\<close>

text \<open>A record with the code of its value blob under the key that its key id names.\<close>

definition content_authentic :: "app_env \<Rightarrow> get_keys \<Rightarrow> syncd_mutation \<Rightarrow> bool" where
  "content_authentic A gk m \<longleftrightarrow> (\<forall>rec. sm_record m = Some rec \<longrightarrow>
     (\<exists>key_id keys blob. sr_key_id rec = Some key_id \<and> gk key_id = Inr keys \<and> sr_value rec = Some blob \<and> 48 \<le> length blob \<and>
        generate_content_mac (ae_macs A) (case op_try_from (operation_of m) of Some op \<Rightarrow> op | None \<Rightarrow> SyncdSet)
          (take (length blob - 32) blob) key_id (ek_value_mac keys) = (Inr (last32 blob) :: u8 list ares)))"

lemma decode_record_content:
  assumes "decode_record A op rec keys key_id True = Inr x"
  shows "\<exists>blob. sr_value rec = Some blob \<and> 48 \<le> length blob \<and>
    generate_content_mac (ae_macs A) op (take (length blob - 32) blob) key_id (ek_value_mac keys) = (Inr (last32 blob) :: u8 list ares)"
  using assms by (auto simp: decode_record_def ok_or_Inr Let_def split: if_splits)

lemma decoded_content_authentic:
  assumes "decode_patch_mutations A gk True ms = Inr x" "m \<in> set ms"
  shows "content_authentic A gk m"
  using assms
proof (induction ms arbitrary: x)
  case (Cons m' ms)
  show ?case
  proof (cases "m = m'")
    case True
    with Cons.prems(1) show ?thesis
      by (auto simp: content_authentic_def ok_or_Inr Let_def dest!: decode_record_content split: option.splits)
  next
    case False
    with Cons show ?thesis by (auto simp: Let_def split: option.splits)
  qed
qed simp

text \<open>C11: a validated patch with a key id, accepted onto a collection that has state,
  continues the version by one.  Every record in it carries the code of its value blob under the key that the record
  names.  If the patch carries a snapshot code, it is the keyed hash of the new hash, new version and collection name; if it
  carries a patch code, it is the keyed hash of the snapshot code, the value codes in order, the version and the
  name.  A snapshot or patch code that is absent is not demanded.\<close>

theorem accepted_patch_authentic:
  assumes "\<not> had_no_prior st" "sp_key_id patch = Some key_id" "process_patch A patch gk gp True name st = (Inr r, st')"
  shows "hv_version (pr_state r) = saturating_succ (hv_version st) \<and> (\<forall>m \<in> set (sp_mutations patch). content_authentic A gk m) \<and>
    (\<exists>keys. gk key_id = Inr keys \<and>
      (\<forall>mac. sp_snapshot_mac patch = Some mac \<longrightarrow>
         mac = hmac_sha256 (ae_macs A) (ek_snapshot_mac keys)
           (hv_hash (pr_state r) @ u64_to_be (hv_version (pr_state r)) @ name)) \<and>
      (\<forall>mac. sp_patch_mac patch = Some mac \<longrightarrow>
         mac = hmac_sha256 (ae_macs A) (ek_patch_mac keys)
           (concat ((case sp_snapshot_mac patch of Some sm \<Rightarrow> [sm] | None \<Rightarrow> []) @ blob_macs (sp_mutations patch)) @
            u64_to_be (hv_version (pr_state r)) @ name)))"
proof -
  obtain keys where k: "gk key_id = Inr keys" "validate_patch_macs A patch st' keys name (had_no_prior st) = Inr ()"
    using assms(2) by (rule_tac process_patch_parts [OF assms(3)]) blast
  note v = accepted_patch_version [OF assms(3)]
  have c: "\<forall>m \<in> set (sp_mutations patch). content_authentic A gk m"
    by (rule process_patch_parts [OF assms(3)]) (auto dest: decoded_content_authentic)
  have "\<forall>mac. sp_snapshot_mac patch = Some mac \<longrightarrow>
      mac = hmac_sha256 (ae_macs A) (ek_snapshot_mac keys) (hv_hash st' @ u64_to_be (hv_version st') @ name)"
    using k(2) assms(1) by (auto simp: validate_patch_macs_def generate_snapshot_mac_def mac_of_sha256 split: if_splits)
  moreover have "\<forall>mac. sp_patch_mac patch = Some mac \<longrightarrow>
      mac = hmac_sha256 (ae_macs A) (ek_patch_mac keys)
        (concat ((case sp_snapshot_mac patch of Some sm \<Rightarrow> [sm] | None \<Rightarrow> []) @ blob_macs (sp_mutations patch)) @
         u64_to_be (or_zero (sp_version patch)) @ name)"
    using k(2) assms(1)
    by (auto simp: validate_patch_macs_def generate_patch_mac_def mac_of_sha256 Let_def split: if_splits)
  ultimately show ?thesis using k(1) v c assms(1) by auto
qed

section \<open>The digest is kept\<close>

lemma synced_empty: "synced M hash_state_default Map.empty"
  by (simp add: synced_def hash_state_default_def digest_def fun_eq_iff lane_zero)

text \<open>C2: processing a patch list with validation, against the in-memory store, whether it
  succeeds or fails at any point: if the hash of the collection was the sum over its stored codes before, it
  is afterwards, its version has not decreased, and the other collections are unchanged.  The list is one in which
  every mutation has a record and a known operation, no patch has more than \<open>2\<^sup>3\<^sup>2\<close> mutations, and the indices of a
  snapshot are pairwise different.\<close>

theorem sync_keeps_digest:
  assumes "mac_prims_ok (ae_macs (se_app E))" "list_ok pl" "n = patch_name_as_str (pl_name pl)"
    and "synced (ae_macs (se_app E)) (mem_ver (asp_store p) n) (mem_macs (asp_store p) n)"
    and "process_patch_list E mem_ops pl True p = (r, p')"
  shows "synced (ae_macs (se_app E)) (mem_ver (asp_store p') n) (mem_macs (asp_store p') n) \<and>
    hv_version (mem_ver (asp_store p) n) \<le> hv_version (mem_ver (asp_store p') n) \<and>
    (\<forall>n'. n' \<noteq> n \<longrightarrow> mem_ver (asp_store p') n' = mem_ver (asp_store p) n' \<and> mem_macs (asp_store p') n' = mem_macs (asp_store p) n')"
  using mem.process_patch_list_keeps [OF assms(1,2,5)] assms(3,4) unfolding keeps_def by blast

definition sample_keyless :: syncd_patch where
  "sample_keyless = \<lparr>sp_version = Some 1, sp_mutations = [sample_made], sp_external_mutations = None, sp_snapshot_mac = None,
     sp_patch_mac = None, sp_key_id = None\<rparr>"

definition sample_list :: patch_list where
  "sample_list = \<lparr>pl_name = Regular, pl_has_more_patches = False, pl_patches = [sample_keyless], pl_snapshot = None,
     pl_snapshot_ref = None, pl_error = None\<rparr>"

lemma sample_known: "known_op sample_made" "complete_mut sample_made"
  using encodes_facts [OF sample_app_ok sample_keys_ok sample_encodes] by blast+

definition sample_content :: syncd_patch where
  "sample_content = \<lparr>sp_version = None, sp_mutations = [sample_made], sp_external_mutations = None,
     sp_snapshot_mac = None, sp_patch_mac = None, sp_key_id = Some [1]\<rparr>"

theorem accepted_patch_authentic_witness:
  "\<exists>h sm pm r st'. process_patch sample_app (sample_content\<lparr>sp_version := Some 2, sp_snapshot_mac := Some sm, sp_patch_mac := Some pm\<rparr>)
      (\<lambda>_. Inr sample_keys) (\<lambda>_. Inr None) True (lit ''regular'') (hash_state_default\<lparr>hv_version := 1\<rparr>) = (Inr r, st') \<and>
    content_authentic sample_app (\<lambda>_. Inr sample_keys) sample_made \<and> hv_version (pr_state r) = 2 \<and>
    sm = hmac_sha256 sample_macs (ek_snapshot_mac sample_keys) (h @ u64_to_be 2 @ lit ''regular'') \<and>
    pm = hmac_sha256 sample_macs (ek_patch_mac sample_keys) (sm @ concat (blob_macs [sample_made]) @ u64_to_be 2 @ lit ''regular'')"
proof -
  let ?st = "hash_state_default\<lparr>hv_version := 1\<rparr>" and ?gk = "\<lambda>_. Inr sample_keys"
  have M: "mac_prims_ok (ae_macs sample_app)" using sample_app_ok by (simp add: app_env_ok_def)
  have ms: "list_all2 (encodes sample_app sample_keys [1]) [sample_made]
      [\<lparr>mu_action_value = Some [7], mu_index = [[91, 93]], mu_operation = SyncdSet\<rparr>]" using sample_encodes by simp
  have d: "distinct (map index_mac_of [sample_made])" "\<forall>x \<in> set [sample_made]. index_mac_of x \<noteq> None"
    using sample_known by (simp_all add: complete_mut_def)
  obtain miss st1 where u: "update_hash (ae_macs sample_app) (ae_simd sample_app) [sample_made] (plain_prev (\<lambda>_. None)) () ?st =
      ((miss, Inr () :: unit ares), st1)"
    using update_hash_done [OF M, of ?st "[sample_made]" "ae_simd sample_app" "\<lambda>_. None"] sample_known
    unfolding update_hash_plain [OF d] by (auto simp: hash_state_default_def)
  let ?st' = "st1\<lparr>hv_version := hv_version ?st + 1\<rparr>"
  define sm where "sm = hmac_sha256 (ae_macs sample_app) (ek_snapshot_mac sample_keys) (hv_hash ?st' @ u64_to_be (hv_version ?st') @ lit ''regular'')"
  define pm where "pm = hmac_sha256 (ae_macs sample_app) (ek_patch_mac sample_keys)
     (concat (sm # blob_macs [sample_made]) @ u64_to_be (hv_version ?st') @ lit ''regular'')"
  let ?p = "sample_content\<lparr>sp_version := Some 2, sp_snapshot_mac := Some sm, sp_patch_mac := Some pm\<rparr>"
  obtain r where r: "process_patch sample_app ?p ?gk (\<lambda>_. Inr None) True (lit ''regular'') ?st = (Inr r, ?st')"
    using process_built_patch [where gk = ?gk and patch = "sample_content\<lparr>sp_snapshot_mac := Some sm\<rparr>" and patch_mac = pm and snapshot_mac = sm
        and name = "lit ''regular''", OF sample_app_ok sample_keys_ok refl ms d(1) _ _ u refl]
    by (auto simp: generated_snapshot_mac generated_patch_mac sm_def pm_def sample_content_def hash_state_default_def)
  have "\<not> had_no_prior ?st" "sp_key_id ?p = Some [1]" by (simp_all add: had_no_prior_def sample_content_def)
  note a = accepted_patch_authentic [OF this r]
  have "hv_version (pr_state r) = 2" "sm = hmac_sha256 sample_macs (ek_snapshot_mac sample_keys) (hv_hash (pr_state r) @ u64_to_be 2 @ lit ''regular'')"
    "pm = hmac_sha256 sample_macs (ek_patch_mac sample_keys) (sm @ concat (blob_macs [sample_made]) @ u64_to_be 2 @ lit ''regular'')"
    "content_authentic sample_app ?gk sample_made"
    using a by (simp_all add: saturating_succ_def sample_content_def sample_app_def)
  with r show ?thesis by blast
qed

theorem sync_keeps_digest_witness:
  "let p' = snd (process_patch_list sample_sync mem_ops sample_list True sample_processor) in
    synced sample_macs (mem_ver (asp_store p') (lit ''regular'')) (mem_macs (asp_store p') (lit ''regular''))"
proof -
  have "list_ok sample_list" using sample_known by (simp add: list_ok_def sample_list_def sample_keyless_def)
  from sync_keeps_digest [OF _ this _ _ prod.collapse [symmetric], of sample_sync "lit ''regular''" sample_processor]
  show ?thesis
    by (simp add: sample_store synced_empty sample_sync_def sample_app_def sample_macs_ok sample_list_def patch_name_as_str_def)
qed

section \<open>A store that fails in between\<close>

definition put_fails :: "'s app_sync_ops \<Rightarrow> 's app_sync_ops" where
  "put_fails B = B\<lparr>op_put_mutation_macs := (\<lambda>_ _ _ s. (Inl (Err Database), s))\<rparr>"

lemma put_fails_ops [simp]:
  "op_put_mutation_macs (put_fails B) n v ms s = (Inl (Err Database), s)" "op_get_mutation_mac (put_fails B) = op_get_mutation_mac B"
  "op_set_version (put_fails B) = op_set_version B" "op_delete_mutation_macs (put_fails B) = op_delete_mutation_macs B"
  "op_clear_mutation_macs (put_fails B) = op_clear_mutation_macs B"
  by (simp_all add: put_fails_def)

lemma put_fails_get: "get_mutation_macs (put_fails B) n is s = get_mutation_macs B n is s"
proof -
  have "get_macs_loop (put_fails B) n out is = get_macs_loop B n out is" for out
    by (induction "is" arbitrary: out) simp_all
  then show ?thesis by (simp add: get_mutation_macs_def)
qed

text \<open>C33: the store fails to write the codes that an accepted patch adds.  The new hash and
  version are stored all the same, while the codes are those of the old state without the removed ones, and the list fails.
  A snapshot, which writes its version last, leaves the version of the collection in the same situation.\<close>

theorem failed_put_strands_hash:
  assumes "process_patch (se_app E) patch (lookup_app_state_key E keys)
      (\<lambda>i. Inr ((mem_macs (asp_store p) n |` set (collect_unique_index_macs (sp_mutations patch))) i)) v n st = (Inr res, st')"
    and "pr_added_macs res \<noteq> []"
  shows "let (r, p') = apply_patch E (put_fails mem_ops) v n keys st patch p;
      (r', p'') = apply_snapshot E (put_fails mem_ops) v n snapshot p
    in r = Inl (Err (SyncStore Database)) \<and> mem_ver (asp_store p') n = pr_state res \<and>
      mem_macs (asp_store p') n = store_after (mem_macs (asp_store p) n) (pr_removed_index_macs res) [] \<and>
      (r' = Inl (Err (SyncStore Database)) \<longrightarrow> mem_ver (asp_store p'') = mem_ver (asp_store p))"
proof -
  let ?s = "asp_store p"
  obtain s1 where 1: "op_set_version mem_ops n (pr_state res) ?s = (Inr (), s1)" using mem_writes_done(1) by blast
  obtain s2 where 2: "op_delete_mutation_macs mem_ops n (pr_removed_index_macs res) s1 = (Inr (), s2)" using mem_writes_done(3) by blast
  obtain r p' where a: "apply_patch E (put_fails mem_ops) v n keys st patch p = (r, p')" by fastforce
  have rr: "r = Inl (Err (SyncStore Database))" "asp_store p' = (if pr_removed_index_macs res \<noteq> [] then s2 else s1)"
    using a assms 1 2
    by (auto simp: apply_patch_def bindS_def with_backend_eq put_fails_get mem_get_macs liftS_def returnS_def split: if_splits)
  have "mem_ver (asp_store p') n = pr_state res" "mem_macs (asp_store p') n = store_after (mem_macs ?s n) (pr_removed_index_macs res) []"
    using rr(2) mem.set_version [OF 1] mem.delete_macs [OF 2] by (auto simp: store_after_def)
  moreover obtain r' p'' where b: "apply_snapshot E (put_fails mem_ops) v n snapshot p = (r', p'')" by fastforce
  moreover have "mem_ver (asp_store p'') = mem_ver ?s" if "r' = Inl (Err (SyncStore Database))"
  proof -
    obtain s1 where c: "op_clear_mutation_macs mem_ops n ?s = (Inr (), s1)" using mem.clear_macs_done by blast
    obtain x st1 where ps: "process_snapshot (se_app E) snapshot (lookup_app_state_key E (asp_key_cache p)) v n hash_state_default = (x, st1)"
      by fastforce
    have "asp_store p'' = ?s \<or> asp_store p'' = s1"
    proof (cases x)
      case (Inl e)
      then show ?thesis using b ps by (cases e) (auto simp: apply_snapshot_def liftS_def)
    next
      case (Inr y)
      obtain s2 where "op_set_version mem_ops n st1 s1 = (Inr (), s2)" using mem_writes_done(1) by blast
      with b ps c Inr that show ?thesis
        by (auto simp: apply_snapshot_def bindS_def liftS_def with_backend_eq returnS_def getS_def split: if_splits)
    qed
    then show ?thesis using mem.clear_macs [OF c] by auto
  qed
  ultimately show ?thesis using a rr(1) by simp
qed

lemma sample_keyless_accepted:
  "\<exists>r st'. process_patch sample_app sample_keyless (lookup_app_state_key sample_sync [[1] \<mapsto> sample_keys]) (\<lambda>i. Inr (m i)) True n hash_state_default = (Inr r, st') \<and>
    pr_added_macs r \<noteq> []"
proof -
  let ?gk = "lookup_app_state_key sample_sync [[1] \<mapsto> sample_keys]"
  have gk: "?gk [1] = Inr sample_keys" by (simp add: lookup_app_state_key_def sample_sync_def)
  have M: "mac_prims_ok (ae_macs sample_app)" using sample_app_ok by (simp add: app_env_ok_def)
  obtain miss st' where u: "update_hash (ae_macs sample_app) (ae_simd sample_app) [sample_made] (patch_prev [sample_made] (\<lambda>i. Inr (m i))) Map.empty
      (hash_state_default\<lparr>hv_version := 1\<rparr>) = ((miss, Inr () :: unit ares), st')"
    using update_hash_done [OF M, of "hash_state_default\<lparr>hv_version := 1\<rparr>" "[sample_made]" "ae_simd sample_app" m] sample_known
    by (auto simp: hash_state_default_def)
  obtain mus added removed where d: "decode_patch_mutations sample_app ?gk True [sample_made] = Inr (mus, added, removed)"
    using decode_made [where gk = ?gk and key_id = "[1]" and ms = "[sample_made]", OF sample_app_ok sample_keys_ok gk] sample_encodes by (metis list_all2_Cons list_all2_Nil)
  have "operation_of sample_made = op_value SyncdSet"
    using encode_record_decodes [OF sample_app_ok sample_keys_ok, of "replicate 16 9" SyncdSet "[91, 93]" "[7]" "[1]" 3 True]
    by (auto simp: sample_made_def operation_of_def)
  then have "added \<noteq> []" using decode_patch_entries [OF d] sample_known by (auto simp: mut_entry_def)
  with u d show ?thesis
    using detect_made [of "[sample_made]" "[]" "[]"]
    by (simp add: process_patch_def sample_keyless_def had_no_prior_def hash_state_default_def or_zero_def Let_def)
qed

theorem failed_put_strands_hash_witness:
  "\<exists>res :: patch_processing_result. let (r, p') = apply_patch sample_sync (put_fails mem_ops) True (lit ''regular'') [[1] \<mapsto> sample_keys] hash_state_default sample_keyless sample_processor
    in r = Inl (Err (SyncStore Database)) \<and> mem_ver (asp_store p') (lit ''regular'') = pr_state res \<and> pr_added_macs res \<noteq> [] \<and>
      mem_macs (asp_store p') (lit ''regular'') = store_after Map.empty (pr_removed_index_macs res) []"
proof -
  obtain res st' where r: "process_patch (se_app sample_sync) sample_keyless (lookup_app_state_key sample_sync [[1] \<mapsto> sample_keys])
      (\<lambda>i. Inr ((mem_macs (asp_store sample_processor) (lit ''regular'') |` set (collect_unique_index_macs (sp_mutations sample_keyless))) i))
      True (lit ''regular'') hash_state_default = (Inr res, st')" "pr_added_macs res \<noteq> []"
    using sample_keyless_accepted [of "mem_macs (asp_store sample_processor) (lit ''regular'') |` set (collect_unique_index_macs (sp_mutations sample_keyless))" "lit ''regular''"]
    by (auto simp: sample_sync_def)
  note t = failed_put_strands_hash [OF r, of "\<lparr>ss_version = None, ss_records = [], ss_mac = None, ss_key_id = None\<rparr>"]
  show ?thesis by (rule exI [of _ res]) (use t r(2) in \<open>simp add: sample_store split_def Let_def\<close>)
qed

section \<open>The fetch loop\<close>

text \<open>An answer that reports an unrecoverable error of a collection and more patches.\<close>

definition fatal_answer :: "str node" where
  "fatal_answer =
     Node (lit ''iq'') [] (Some (CNodes [Node (lit ''sync'') [] (Some (CNodes [
       Node (lit ''collection'')
         [(lit ''name'', VString (lit ''regular'')), (lit ''type'', VString (lit ''error'')),
          (lit ''has_more_patches'', VString (lit ''true''))]
         (Some (CNodes [Node (lit ''error'') [(lit ''code'', VString (lit ''400''))] None]))]))]))"

lemma parse_fatal_answer:
  "parse_patch_list it K fatal_answer =
     Inr \<lparr>pl_name = Regular, pl_has_more_patches = True, pl_patches = [], pl_snapshot = None, pl_snapshot_ref = None,
          pl_error = Some (FatalError 400 [])\<rparr>"
  by (simp add: parse_patch_list_def fatal_answer_def node_children_def parse_single_collection_def attr_parser_new_def
      optional_string_def optional_bool_def get_bool_def get_string_value_def get_raw_def attrs_get_def coerce_protocol_bool_def
      parse_collection_error_def get_optional_child_def patch_name_from_str_def attrs_finish_def attrs_ok_def lit_def
      parse_uint_def is_ascii_digit_def Let_def)


end
