(* ===== verification/Samples.thy ===== *)
theory Samples
  imports Prelude
begin

text \<open>Self-delimiting codings, from which sample instances of the generated message codings are put together.\<close>

type_synonym 'a put = "'a \<Rightarrow> u8 list"
type_synonym 'a getter = "u8 list \<Rightarrow> ('a \<times> u8 list) option"

definition codes :: "'a put \<Rightarrow> 'a getter \<Rightarrow> bool" where
  "codes p g \<longleftrightarrow> (\<forall>x r. g (p x @ r) = Some (x, r))"

named_theorems codings

lemma codes_bytes [codings]: "codes put_opt get_opt"
  by (simp add: codes_def)

definition put_word :: "'w::len word option put" where
  "put_word x = put_opt (map_option (\<lambda>w. replicate (unat w) 0) x)"

definition get_word :: "'w::len word option getter" where
  "get_word x = map_option (apfst (map_option (\<lambda>b. of_nat (length b)))) (get_opt x)"

lemma codes_word [codings]: "codes put_word get_word"
  by (simp add: codes_def put_word_def get_word_def option.map_comp comp_def option.map_ident)

definition put_pair :: "'a put \<Rightarrow> 'b put \<Rightarrow> ('a \<times> 'b) put" where
  "put_pair p q x = p (fst x) @ q (snd x)"

definition get_pair :: "'a getter \<Rightarrow> 'b getter \<Rightarrow> ('a \<times> 'b) getter" where
  "get_pair g h x = Option.bind (g x) (\<lambda>(a, x). map_option (apfst (Pair a)) (h x))"

lemma codes_pair [codings]: "codes p g \<Longrightarrow> codes q h \<Longrightarrow> codes (put_pair p q) (get_pair g h)"
  by (simp add: codes_def put_pair_def get_pair_def)

definition put_maybe :: "'a put \<Rightarrow> 'a option put" where
  "put_maybe p x = (case x of None \<Rightarrow> [0] | Some a \<Rightarrow> 1 # p a)"

definition get_maybe :: "'a getter \<Rightarrow> 'a option getter" where
  "get_maybe g x = (case x of [] \<Rightarrow> None | t # r \<Rightarrow> if t = 0 then Some (None, r) else map_option (apfst Some) (g r))"

lemma codes_maybe [codings]: "codes p g \<Longrightarrow> codes (put_maybe p) (get_maybe g)"
  by (simp add: codes_def put_maybe_def get_maybe_def split: option.split)

fun put_list :: "'a put \<Rightarrow> 'a list put" where
  "put_list p [] = [0]"
| "put_list p (x # xs) = 1 # p x @ put_list p xs"

fun get_list_fuel :: "'a getter \<Rightarrow> nat \<Rightarrow> 'a list getter" where
  "get_list_fuel g (Suc n) (t # r) =
     (if t = 0 then Some ([], r)
      else Option.bind (g r) (\<lambda>(x, r). map_option (apfst ((#) x)) (get_list_fuel g n r)))"
| "get_list_fuel g _ _ = None"

definition get_list :: "'a getter \<Rightarrow> 'a list getter" where
  "get_list g x = get_list_fuel g (length x) x"

lemma get_list_fuel_put: "codes p g \<Longrightarrow> length xs < n \<Longrightarrow> get_list_fuel g n (put_list p xs @ r) = Some (xs, r)"
proof (induction xs arbitrary: n)
  case Nil
  then show ?case by (cases n) auto
next
  case (Cons x xs)
  then show ?case by (cases n) (auto simp: codes_def)
qed

lemma length_put_list: "length xs < length (put_list p xs)"
  by (induction xs) auto

lemma codes_list [codings]: "codes p g \<Longrightarrow> codes (put_list p) (get_list g)"
  unfolding codes_def [of "put_list p"] get_list_def
  using length_put_list by (metis get_list_fuel_put length_append trans_less_add1)

definition put_as :: "('b \<Rightarrow> 'a) \<Rightarrow> 'a put \<Rightarrow> 'b put" where
  "put_as f p x = p (f x)"

definition get_as :: "('a \<Rightarrow> 'b) \<Rightarrow> 'a getter \<Rightarrow> 'b getter" where
  "get_as f g x = map_option (apfst f) (g x)"

lemma codes_as: "codes p g \<Longrightarrow> (\<And>x. h (f x) = x) \<Longrightarrow> codes (put_as f p) (get_as h g)"
  by (simp add: codes_def put_as_def get_as_def)

text \<open>A whole message.\<close>

definition get_all :: "'a getter \<Rightarrow> u8 list \<Rightarrow> 'a option" where
  "get_all g x = map_option fst (g x)"

lemma codes_all: "codes p g \<Longrightarrow> get_all g (p x) = Some x"
  unfolding codes_def get_all_def by (metis append_Nil2 fst_conv option.simps(9))

lemma length_put_opt_le: "length b \<le> length (put_opt (Some b))"
  by (simp add: put_opt_def) (induction b, simp_all)

end
