(* ===== verification/Address.thy ===== *)
theory Address
  imports Jid
begin

text \<open>Signal addresses (wacore/libsignal/src/core/address.rs and wacore/src/types/jid.rs): the address of a device, the
  name of the sender key of a member of a group (libsignal/src/store/sender_key_name.rs), and the order in which the locks
  of several addresses are taken.\<close>

section \<open>Addresses\<close>

record protocol_address =
  pa_buf :: str
  pa_name_len :: nat
  pa_device_id :: u32

definition append_device_suffix :: "str \<Rightarrow> u32 \<Rightarrow> str" where
  "append_device_suffix buf device_id =
     (if device_id = 0 then buf @ lit ''.0'' else buf @ lit ''.'' @ decimal (unat device_id))"

definition protocol_address_new :: "str \<Rightarrow> u32 \<Rightarrow> protocol_address" where
  "protocol_address_new name device_id =
     \<lparr>pa_buf = append_device_suffix name device_id, pa_name_len = length name, pa_device_id = device_id\<rparr>"

definition protocol_address_with_capacity :: "u32 \<Rightarrow> protocol_address" where
  "protocol_address_with_capacity device_id = \<lparr>pa_buf = [], pa_name_len = 0, pa_device_id = device_id\<rparr>"

definition reset_with :: "(str \<Rightarrow> str) \<Rightarrow> protocol_address \<Rightarrow> protocol_address" where
  "reset_with write_name a =
     (let buf = write_name [] in
      a\<lparr>pa_buf := append_device_suffix buf (pa_device_id a), pa_name_len := length buf\<rparr>)"

definition pa_name :: "protocol_address \<Rightarrow> str" where
  "pa_name a = take (pa_name_len a) (pa_buf a)"

section \<open>Addresses of JIDs\<close>

definition mapped_server :: "str \<Rightarrow> str" where
  "mapped_server s = (if s = DEFAULT_USER_SERVER then lit ''c.us'' else s)"

text \<open>Every writer clears the buffer it is given.\<close>

definition write_signal_address_to :: "itoa \<Rightarrow> str jid \<Rightarrow> str \<Rightarrow> str" where
  "write_signal_address_to it jid buf =
     (let server = mapped_server (server_as_str (jid_server jid));
          buf = jid_user jid;
          buf = (if jid_device jid \<noteq> 0 then buf @ lit '':'' @ it (unat (jid_device jid)) else buf)
      in buf @ lit ''@'' @ server)"

definition write_protocol_address_to :: "itoa \<Rightarrow> str jid \<Rightarrow> str \<Rightarrow> str" where
  "write_protocol_address_to it jid buf = write_signal_address_to it jid buf @ lit ''.0''"

definition to_signal_address_string :: "itoa \<Rightarrow> str jid \<Rightarrow> str" where
  "to_signal_address_string it j = write_signal_address_to it j []"

definition to_protocol_address :: "itoa \<Rightarrow> str jid \<Rightarrow> protocol_address" where
  "to_protocol_address it j = protocol_address_new (to_signal_address_string it j) 0"

definition to_protocol_address_string :: "itoa \<Rightarrow> str jid \<Rightarrow> str" where
  "to_protocol_address_string it j = write_protocol_address_to it j []"

definition reset_protocol_address :: "itoa \<Rightarrow> str jid \<Rightarrow> protocol_address \<Rightarrow> protocol_address" where
  "reset_protocol_address it j addr = reset_with (write_signal_address_to it j) addr"

section \<open>Names of sender keys\<close>

record sender_key_name =
  skn_buf :: str
  skn_group_len :: nat

definition sender_key_name_new :: "str \<Rightarrow> str \<Rightarrow> sender_key_name" where
  "sender_key_name_new group_id sender_id = \<lparr>skn_buf = group_id @ lit '':'' @ sender_id, skn_group_len = length group_id\<rparr>"

definition skn_group_id :: "sender_key_name \<Rightarrow> str" where
  "skn_group_id n = take (skn_group_len n) (skn_buf n)"

definition skn_sender_id :: "sender_key_name \<Rightarrow> str" where
  "skn_sender_id n = drop (skn_group_len n + 1) (skn_buf n)"

definition make_sender_key_name :: "itoa \<Rightarrow> str jid \<Rightarrow> protocol_address \<Rightarrow> sender_key_name" where
  "make_sender_key_name it group_jid sender =
     (let buf = push_to it group_jid [] in
      \<lparr>skn_buf = buf @ lit '':'' @ pa_buf sender, skn_group_len = length buf\<rparr>)"

section \<open>Lock order\<close>

datatype ordering = Less | Equal | Greater

fun then_with :: "ordering \<Rightarrow> ordering \<Rightarrow> ordering" where
  "then_with Equal o' = o'"
| "then_with o1 _ = o1"

definition cmp_word :: "'w::len word \<Rightarrow> 'w word \<Rightarrow> ordering" where
  "cmp_word a b = (if a < b then Less else if a = b then Equal else Greater)"

fun cmp_str :: "str \<Rightarrow> str \<Rightarrow> ordering" where
  "cmp_str [] [] = Equal"
| "cmp_str [] _ = Less"
| "cmp_str _ [] = Greater"
| "cmp_str (x # xs) (y # ys) = then_with (cmp_word x y) (cmp_str xs ys)"

definition cmp_for_lock_order :: "str jid \<Rightarrow> str jid \<Rightarrow> ordering" where
  "cmp_for_lock_order a b =
     then_with (then_with (cmp_str (mapped_server (server_as_str (jid_server a))) (mapped_server (server_as_str (jid_server b))))
       (cmp_str (jid_user a) (jid_user b))) (cmp_word (jid_device a) (jid_device b))"

section \<open>Laws of comparison\<close>

text \<open>A comparison that decides equality, is reversed by swapping and is transitive.\<close>

definition compares :: "('a \<Rightarrow> 'a \<Rightarrow> ordering) \<Rightarrow> bool" where
  "compares c \<longleftrightarrow> (\<forall>a b. c a b = Equal \<longleftrightarrow> a = b) \<and> (\<forall>a b. c a b = Less \<longleftrightarrow> c b a = Greater) \<and>
     (\<forall>a b d. c a b = Less \<longrightarrow> c b d = Less \<longrightarrow> c a d = Less)"

lemma then_with_simps [simp]:
  "then_with o1 o2 = Equal \<longleftrightarrow> o1 = Equal \<and> o2 = Equal" "then_with o1 o2 = Less \<longleftrightarrow> o1 = Less \<or> o1 = Equal \<and> o2 = Less"
  "then_with o1 o2 = Greater \<longleftrightarrow> o1 = Greater \<or> o1 = Equal \<and> o2 = Greater"
  by (cases o1; simp)+

lemma cmp_word_simps [simp]:
  "cmp_word a b = Equal \<longleftrightarrow> a = b" "cmp_word a b = Less \<longleftrightarrow> a < b" "cmp_word a b = Greater \<longleftrightarrow> b < a"
  by (auto simp: cmp_word_def)

lemma compares_word: "compares cmp_word"
  by (auto simp: compares_def)

lemma cmp_str_Equal: "cmp_str a b = Equal \<longleftrightarrow> a = b"
  by (induction a b rule: cmp_str.induct) auto

lemma cmp_str_swap: "cmp_str a b = Less \<longleftrightarrow> cmp_str b a = Greater"
  by (induction a b rule: cmp_str.induct) auto

lemma cmp_str_trans: "cmp_str a b = Less \<Longrightarrow> cmp_str b d = Less \<Longrightarrow> cmp_str a d = Less"
proof (induction a b arbitrary: d rule: cmp_str.induct)
  case (2 y ys)
  then show ?case by (cases d) auto
next
  case (4 x xs y ys)
  obtain z zs where d: "d = z # zs" using "4.prems"(2) by (cases d) simp_all
  have "x < z \<or> x = z \<and> cmp_str xs zs = Less"
    using "4.prems" "4.IH" [of zs] by (auto simp: d)
  then show ?case by (simp add: d)
qed auto

lemma compares_str: "compares cmp_str"
  unfolding compares_def using cmp_str_Equal cmp_str_swap cmp_str_trans by blast

lemma compares_lex:
  assumes "compares c" "compares d"
  shows "compares (\<lambda>x y. then_with (c (fst x) (fst y)) (d (snd x) (snd y)))"
proof -
  have c: "\<And>a b. c a b = Equal \<longleftrightarrow> a = b" "\<And>a b. c a b = Less \<longleftrightarrow> c b a = Greater"
      "\<And>a b e. c a b = Less \<Longrightarrow> c b e = Less \<Longrightarrow> c a e = Less"
    and d: "\<And>a b. d a b = Equal \<longleftrightarrow> a = b" "\<And>a b. d a b = Less \<longleftrightarrow> d b a = Greater"
      "\<And>a b e. d a b = Less \<Longrightarrow> d b e = Less \<Longrightarrow> d a e = Less"
    using assms unfolding compares_def by blast+
  let ?l = "\<lambda>x y. then_with (c (fst x) (fst y)) (d (snd x) (snd y))"
  have "?l x y = Equal \<longleftrightarrow> x = y" "?l x y = Less \<longleftrightarrow> ?l y x = Greater" for x y
    unfolding then_with_simps c(1,2) d(1,2) by (auto simp: prod_eq_iff)
  moreover have "?l x z = Less" if "?l x y = Less" "?l y z = Less" for x y z
    using that unfolding then_with_simps c(1) d(1)
    using c(3) [of "fst x" "fst y" "fst z"] d(3) [of "snd x" "snd y" "snd z"] by auto
  ultimately show ?thesis unfolding compares_def by blast
qed

definition lock_key :: "str jid \<Rightarrow> (str \<times> str) \<times> u16" where
  "lock_key j = ((mapped_server (server_as_str (jid_server j)), jid_user j), jid_device j)"

lemma compares_lock_key: "\<exists>c. compares c \<and> (\<forall>a b. cmp_for_lock_order a b = c (lock_key a) (lock_key b))"
  by (intro exI conjI, rule compares_lex [OF compares_lex [OF compares_str compares_str] compares_word])
    (simp add: cmp_for_lock_order_def lock_key_def)

section \<open>Addresses determine devices\<close>

lemma decimal_eq_iff: "decimal m = decimal n \<longleftrightarrow> m = n"
proof
  assume "decimal m = decimal n"
  then have "parse_digits (max m n) 0 (decimal m) = parse_digits (max m n) 0 (decimal n)" by simp
  then show "m = n" unfolding parse_digits_decimal by simp
qed simp

lemma append_at_cancel: "x \<notin> set a \<Longrightarrow> x \<notin> set b \<Longrightarrow> a @ x # r = b @ x # s \<longleftrightarrow> a = b \<and> r = s"
proof (induction a arbitrary: b)
  case Nil
  then show ?case by (cases b) auto
next
  case (Cons y a)
  then show ?case by (cases b) auto
qed

text \<open>The user part of an address: neither \<open>'@'\<close> nor \<open>':'\<close>.\<close>

definition plain_user :: "str jid \<Rightarrow> bool" where
  "plain_user j \<longleftrightarrow> 64 \<notin> set (jid_user j) \<and> 58 \<notin> set (jid_user j)"

definition device_suffix :: "u16 \<Rightarrow> str" where
  "device_suffix d = (if d \<noteq> 0 then lit '':'' @ decimal (unat d) else [])"

lemma device_suffix_cancel:
  assumes "58 \<notin> set u" "58 \<notin> set v"
  shows "u @ device_suffix d = v @ device_suffix e \<longleftrightarrow> u = v \<and> d = e"
proof
  assume eq: "u @ device_suffix d = v @ device_suffix e"
  then have "58 \<in> set (u @ device_suffix d) \<longleftrightarrow> 58 \<in> set (v @ device_suffix e)" by simp
  then have "d = 0 \<longleftrightarrow> e = 0" using assms by (auto simp: device_suffix_def lit_def split: if_splits)
  with eq assms show "u = v \<and> d = e"
    by (auto simp: device_suffix_def lit_def append_at_cancel decimal_eq_iff word_unat_eq_iff split: if_splits)
qed simp


lemma signal_address_alt:
  assumes "itoa_ok it"
  shows "pa_buf (to_protocol_address it j) =
    (jid_user j @ device_suffix (jid_device j)) @ 64 # mapped_server (server_as_str (jid_server j)) @ lit ''.0''"
  using assms by (simp add: to_protocol_address_def protocol_address_new_def append_device_suffix_def to_signal_address_string_def
      write_signal_address_to_def device_suffix_def itoa_ok_def Let_def lit_def)

lemma protocol_address_eq_iff:
  assumes "itoa_ok it" "plain_user a" "plain_user b"
  shows "pa_buf (to_protocol_address it a) = pa_buf (to_protocol_address it b) \<longleftrightarrow> lock_key a = lock_key b"
proof -
  have at: "64 \<notin> set (jid_user j @ device_suffix (jid_device j))" if "plain_user j" for j
    using that by (auto simp: plain_user_def device_suffix_def lit_def)
  show ?thesis
    using assms(2,3) unfolding signal_address_alt [OF assms(1)] append_at_cancel [OF at [OF assms(2)] at [OF assms(3)]]
    by (auto simp: device_suffix_cancel plain_user_def lock_key_def)
qed

lemma server_no_at [simp]: "64 \<notin> set (server_as_str s)" "58 \<notin> set (server_as_str s)"
  by (cases s; simp add: lit_def)+

text \<open>The name of a sender key determines the group and the sender.\<close>

lemma sender_key_name_eq_iff:
  assumes it: "itoa_ok it" and g: "64 \<notin> set (jid_user g)" "64 \<notin> set (jid_user h)" "jid_user g \<noteq> []" "jid_user h \<noteq> []"
  shows "skn_buf (make_sender_key_name it g s) = skn_buf (make_sender_key_name it h t) \<longleftrightarrow>
    push_to it g [] = push_to it h [] \<and> pa_buf s = pa_buf t"
proof -
  define front where "front = (\<lambda>j. jid_user j @ (if 0 < jid_agent j \<and> renders_agent (jid_server j) then [46] @ it (unat (jid_agent j)) else []) @
    (if 0 < jid_device j then [58] @ it (unat (jid_device j)) else []))"
  have p: "push_to it j [] = front j @ 64 # server_as_str (jid_server j)" if "jid_user j \<noteq> []" for j
    using that by (simp add: push_to_def push_jid_to_string_def front_def Let_def)
  have f: "64 \<notin> set (front j)" if "64 \<notin> set (jid_user j)" for j
    using that it by (auto simp: front_def itoa_ok_def)
  have "skn_buf (make_sender_key_name it j x) = front j @ 64 # server_as_str (jid_server j) @ 58 # pa_buf x" if "jid_user j \<noteq> []" for j x
    using p [OF that] by (simp add: make_sender_key_name_def Let_def lit_def)
  then show ?thesis
    using g by (auto simp: p append_at_cancel f)
qed

section \<open>Properties\<close>

text \<open>C31: The order in which locks of several devices are taken is a linear order
  of their Signal addresses: two JIDs whose users contain neither \<open>@\<close> nor \<open>:\<close> compare equal exactly when they have the same address, swapping the arguments
  reverses the comparison, and it is transitive, so that two tasks that lock overlapping sets of addresses in this order
  take the common ones in the same order.\<close>

theorem lock_order_orders_addresses:
  assumes "itoa_ok it" "plain_user a" "plain_user b"
  shows "(cmp_for_lock_order a b = Equal \<longleftrightarrow> pa_buf (to_protocol_address it a) = pa_buf (to_protocol_address it b)) \<and>
    (cmp_for_lock_order a b = Less \<longleftrightarrow> cmp_for_lock_order b a = Greater) \<and>
    (\<forall>c. cmp_for_lock_order a b = Less \<longrightarrow> cmp_for_lock_order b c = Less \<longrightarrow> cmp_for_lock_order a c = Less)"
proof -
  obtain c where c: "compares c" "\<And>a b. cmp_for_lock_order a b = c (lock_key a) (lock_key b)" using compares_lock_key by blast
  then show ?thesis unfolding protocol_address_eq_iff [OF assms] compares_def by metis
qed

theorem lock_order_orders_addresses_witness:
  "cmp_for_lock_order (jid_pn_device (lit ''15'') 3) (jid_pn_device (lit ''15'') 4) = Less \<and>
   pa_buf (to_protocol_address decimal (jid_pn_device (lit ''15'') 3)) \<noteq> pa_buf (to_protocol_address decimal (jid_pn_device (lit ''15'') 4))"
proof -
  have "cmp_for_lock_order (jid_pn_device (lit ''15'') 3) (jid_pn_device (lit ''15'') 4) = Less" by code_simp
  then show ?thesis
    using lock_order_orders_addresses [of decimal "jid_pn_device (lit ''15'') 3" "jid_pn_device (lit ''15'') 4"]
    by (simp add: itoa_ok_def plain_user_def jid_pn_device_def lit_def)
qed

text \<open>C25: The sender keys of different members of a group, of one member in different groups, and
  of different users are kept under different names: for senders whose users contain neither \<open>@\<close> nor \<open>:\<close>, and groups with a
  non-empty user that contains no \<open>@\<close>, the names agree exactly when the groups are displayed alike and the senders have the same address, and every way of building the address of a sender (from
  the string, by rewriting an address in place) gives the same one.\<close>

theorem sender_key_names_distinct:
  assumes "itoa_ok it" "64 \<notin> set (jid_user g)" "64 \<notin> set (jid_user h)" "jid_user g \<noteq> []" "jid_user h \<noteq> []"
    and "plain_user s" "plain_user t"
  shows "(skn_buf (make_sender_key_name it g (to_protocol_address it s)) = skn_buf (make_sender_key_name it h (to_protocol_address it t)) \<longleftrightarrow>
      push_to it g [] = push_to it h [] \<and> jid_user s = jid_user t \<and> jid_device s = jid_device t \<and>
      mapped_server (server_as_str (jid_server s)) = mapped_server (server_as_str (jid_server t))) \<and>
    reset_protocol_address it s (protocol_address_with_capacity 0) = to_protocol_address it s \<and>
    to_protocol_address_string it s = pa_buf (to_protocol_address it s) \<and> pa_name (to_protocol_address it s) = to_signal_address_string it s"
  unfolding sender_key_name_eq_iff [OF assms(1-5)] protocol_address_eq_iff [OF assms(1,6,7)]
  by (auto simp: lock_key_def reset_protocol_address_def reset_with_def protocol_address_with_capacity_def to_protocol_address_def
      protocol_address_new_def to_signal_address_string_def write_signal_address_to_def to_protocol_address_string_def
      write_protocol_address_to_def append_device_suffix_def pa_name_def Let_def)

theorem sender_key_names_distinct_witness:
  "skn_buf (make_sender_key_name decimal (jid_group (lit ''12'')) (to_protocol_address decimal (jid_pn (lit ''7'')))) \<noteq>
   skn_buf (make_sender_key_name decimal (jid_group (lit ''12'')) (to_protocol_address decimal (jid_pn (lit ''8''))))"
  using sender_key_names_distinct [of decimal "jid_group (lit ''12'')" "jid_group (lit ''12'')" "jid_pn (lit ''7'')" "jid_pn (lit ''8'')"]
  by (simp add: itoa_ok_def plain_user_def jid_pn_def jid_group_def lit_def)

end
