(* ===== verification/Signal.thy ===== *)
theory Signal
  imports Curve Symmetric Samples Address
begin

text \<open>Messages of the Signal protocol (wacore/libsignal/src/protocol/protocol.rs) with the errors (error.rs) and
  limits (consts.rs) of the protocol modules: the four kinds of message, their construction, parsing and
  authentication.  The coding of their protobuf bodies and the signature algorithm are parameters.\<close>

datatype ciphertext_message_type = Whisper | PreKey | SenderKey | Plaintext

datatype signal_error =
    InvalidArgument str | InvalidState str str | BackendError str | InvalidProtobufEncoding
  | CiphertextMessageTooShort nat | LegacyCiphertextVersion u8 | UnrecognizedCiphertextVersion u8
  | UnrecognizedMessageVersion u32 | FingerprintVersionMismatch u32 u32 | FingerprintParsingError
  | SigNoKeyTypeIdentifier | SigBadKeyType u8 | SigBadKeyLength key_type nat | SignatureValidationFailed
  | UntrustedIdentity protocol_address | InvalidPreKeyId | InvalidSignedPreKeyId | InvalidMacKeyLength nat
  | NoSenderKeyState str | SessionNotFound protocol_address | InvalidSessionStructure str | InvalidSenderKeySession
  | InvalidRegistrationId protocol_address u32 | DuplicatedMessage u32 u32 | InvalidMessage ciphertext_message_type str
  | BadMac ciphertext_message_type | FfiBindingError str | ApplicationCallbackError str | InvalidSealedSenderMessage str
  | UnknownSealedSenderVersion u8 | SealedSenderSelfSend

type_synonym 'a sres = "(signal_error, 'a) res"

definition from_curve_error :: "curve_error \<Rightarrow> signal_error" where
  "from_curve_error e =
     (case e of
        NoKeyTypeIdentifier \<Rightarrow> SigNoKeyTypeIdentifier
      | BadKeyType raw \<Rightarrow> SigBadKeyType raw
      | BadKeyLength key_type len \<Rightarrow> SigBadKeyLength key_type len)"

definition MAX_FORWARD_JUMPS :: nat where "MAX_FORWARD_JUMPS = 25000"
definition MAX_MESSAGE_KEYS :: nat where "MAX_MESSAGE_KEYS = 2000"
definition MAX_RECEIVER_CHAINS :: nat where "MAX_RECEIVER_CHAINS = 5"
definition ARCHIVED_STATES_MAX_LENGTH :: nat where "ARCHIVED_STATES_MAX_LENGTH = 40"
definition MAX_SENDER_KEY_STATES :: nat where "MAX_SENDER_KEY_STATES = 5"
definition MESSAGE_KEY_PRUNE_THRESHOLD :: nat where "MESSAGE_KEY_PRUNE_THRESHOLD = 50"

section \<open>Parameters\<close>

text \<open>The generated protobuf types: every field is optional.\<close>

record signal_pb =
  spb_ratchet_key :: "u8 list option"
  spb_counter :: "u32 option"
  spb_previous_counter :: "u32 option"
  spb_ciphertext :: "u8 list option"

record pre_key_pb =
  ppb_registration_id :: "u32 option"
  ppb_pre_key_id :: "u32 option"
  ppb_signed_pre_key_id :: "u32 option"
  ppb_base_key :: "u8 list option"
  ppb_identity_key :: "u8 list option"
  ppb_message :: "u8 list option"

record sender_key_pb =
  kpb_id :: "u32 option"
  kpb_iteration :: "u32 option"
  kpb_ciphertext :: "u8 list option"

record skdm_pb =
  dpb_id :: "u32 option"
  dpb_iteration :: "u32 option"
  dpb_chain_key :: "u8 list option"
  dpb_signing_key :: "u8 list option"

text \<open>\<open>sg_sign key nonce message\<close> is the signature of the message with the nonce the random generator supplies.\<close>

record sig_env =
  sg_curve :: curve_prims
  sg_macs :: mac_prims
  sg_sign :: "u8 list \<Rightarrow> u8 list \<Rightarrow> u8 list \<Rightarrow> u8 list"
  sg_signal :: "signal_pb \<Rightarrow> u8 list"
  sg_signal_dec :: "u8 list \<Rightarrow> signal_pb option"
  sg_pre_key :: "pre_key_pb \<Rightarrow> u8 list"
  sg_pre_key_dec :: "u8 list \<Rightarrow> pre_key_pb option"
  sg_sender_key :: "sender_key_pb \<Rightarrow> u8 list"
  sg_sender_key_dec :: "u8 list \<Rightarrow> sender_key_pb option"
  sg_skdm :: "skdm_pb \<Rightarrow> u8 list"
  sg_skdm_dec :: "u8 list \<Rightarrow> skdm_pb option"

definition sig_env_ok :: "sig_env \<Rightarrow> bool" where
  "sig_env_ok E \<longleftrightarrow>
     curve_prims_ok (sg_curve E) \<and> mac_prims_ok (sg_macs E) \<and>
     (\<forall>p. sg_signal_dec E (sg_signal E p) = Some p) \<and> (\<forall>p. sg_pre_key_dec E (sg_pre_key E p) = Some p) \<and>
     (\<forall>p. sg_sender_key_dec E (sg_sender_key E p) = Some p) \<and> (\<forall>p. sg_skdm_dec E (sg_skdm E p) = Some p) \<and>
     (\<forall>p. case dpb_chain_key p of Some c \<Rightarrow> (case dpb_signing_key p of Some k \<Rightarrow> length c + length k \<le> length (sg_skdm E p) | None \<Rightarrow> True)
          | None \<Rightarrow> True) \<and>
     (\<forall>k nonce m. length k = 32 \<longrightarrow> clamp (sg_curve E) k = k \<longrightarrow> length (sg_sign E k nonce m) = 64 \<and>
        xeddsa_verify (sg_curve E) (x25519_base (sg_curve E) k) m (sg_sign E k nonce m))"

section \<open>Messages\<close>

definition CIPHERTEXT_MESSAGE_CURRENT_VERSION :: u8 where "CIPHERTEXT_MESSAGE_CURRENT_VERSION = 3"
definition SENDERKEY_MESSAGE_CURRENT_VERSION :: u8 where "SENDERKEY_MESSAGE_CURRENT_VERSION = 3"
definition MIN_SUPPORTED_VERSION :: u8 where "MIN_SUPPORTED_VERSION = 3"
definition MAX_SUPPORTED_VERSION :: u8 where "MAX_SUPPORTED_VERSION = 4"

text \<open>An \<open>IdentityKey\<close> is a public key, an \<open>IdentityKeyPair\<close> a key pair.\<close>

type_synonym identity_key = public_key

definition public_key_of :: "u8 list \<Rightarrow> public_key sres" where
  "public_key_of bytes = mapE from_curve_error (public_key_deserialize bytes)"

record signal_message =
  sgm_message_version :: u8
  sgm_sender_ratchet_key :: public_key
  sgm_counter :: u32
  sgm_previous_counter :: u32
  sgm_serialized :: "u8 list"
  sgm_ciphertext_cache :: "u8 list option"

definition MAC_LENGTH :: nat where "MAC_LENGTH = 8"

definition compute_mac :: "sig_env \<Rightarrow> identity_key \<Rightarrow> identity_key \<Rightarrow> u8 list \<Rightarrow> u8 list \<Rightarrow> u8 list sres" where
  "compute_mac E sender_identity_key receiver_identity_key mac_key message =
     (if length mac_key \<noteq> 32 then Inl (Err (InvalidMacKeyLength (length mac_key)))
      else Inr (take MAC_LENGTH (hmac_sha256 (sg_macs E) mac_key
             (public_key_serialize sender_identity_key @ public_key_serialize receiver_identity_key @ message))))"

definition signal_message_new ::
    "sig_env \<Rightarrow> u8 \<Rightarrow> u8 list \<Rightarrow> public_key \<Rightarrow> u32 \<Rightarrow> u32 \<Rightarrow> u8 list \<Rightarrow> identity_key \<Rightarrow> identity_key \<Rightarrow> signal_message sres" where
  "signal_message_new E message_version mac_key sender_ratchet_key counter previous_counter ciphertext
       sender_identity_key receiver_identity_key =
     (let message = \<lparr>spb_ratchet_key = Some (public_key_serialize sender_ratchet_key), spb_counter = Some counter,
            spb_previous_counter = Some previous_counter, spb_ciphertext = Some ciphertext\<rparr>;
          serialized = (push_bit 4 (message_version AND 0xF) OR CIPHERTEXT_MESSAGE_CURRENT_VERSION) # sg_signal E message
      in bindR (compute_mac E sender_identity_key receiver_identity_key mac_key serialized) (\<lambda>mac.
         Inr \<lparr>sgm_message_version = message_version, sgm_sender_ratchet_key = sender_ratchet_key, sgm_counter = counter,
              sgm_previous_counter = previous_counter, sgm_serialized = serialized @ mac, sgm_ciphertext_cache = None\<rparr>))"

text \<open>A slice that ends before it starts panics.\<close>

definition signal_message_decode_ciphertext :: "sig_env \<Rightarrow> signal_message \<Rightarrow> u8 list sres" where
  "signal_message_decode_ciphertext E m =
     (let s = sgm_serialized m in
      if length s < MAC_LENGTH + 1 then Inl Panic
      else bindR (ok_or (sg_signal_dec E (drop 1 (take (length s - MAC_LENGTH) s))) InvalidProtobufEncoding) (\<lambda>proto.
           ok_or (spb_ciphertext proto) InvalidProtobufEncoding))"

text \<open>\<open>get_or_try_init_bytes\<close> on the cache of the decoded ciphertext; filling the cache is not observable.\<close>

definition signal_message_body :: "sig_env \<Rightarrow> signal_message \<Rightarrow> u8 list sres" where
  "signal_message_body E m =
     (case sgm_ciphertext_cache m of Some c \<Rightarrow> Inr c | None \<Rightarrow> signal_message_decode_ciphertext E m)"

definition verify_mac :: "sig_env \<Rightarrow> signal_message \<Rightarrow> identity_key \<Rightarrow> identity_key \<Rightarrow> u8 list \<Rightarrow> bool sres" where
  "verify_mac E m sender_identity_key receiver_identity_key mac_key =
     (let s = sgm_serialized m in
      if length s < MAC_LENGTH then Inl Panic
      else bindR (compute_mac E sender_identity_key receiver_identity_key mac_key (take (length s - MAC_LENGTH) s)) (\<lambda>our_mac.
           Inr (our_mac = drop (length s - MAC_LENGTH) s)))"

definition signal_message_try_from :: "sig_env \<Rightarrow> u8 list \<Rightarrow> signal_message sres" where
  "signal_message_try_from E value =
     (if length value < MAC_LENGTH + 1 then Inl (Err (CiphertextMessageTooShort (length value)))
      else
        let message_version = drop_bit 4 (hd value) in
        if \<not> (MIN_SUPPORTED_VERSION \<le> message_version \<and> message_version \<le> MAX_SUPPORTED_VERSION)
        then Inl (Err (UnrecognizedCiphertextVersion message_version))
        else
          bindR (ok_or (sg_signal_dec E (drop 1 (take (length value - MAC_LENGTH) value))) InvalidProtobufEncoding) (\<lambda>proto_structure.
          bindR (ok_or (spb_ratchet_key proto_structure) InvalidProtobufEncoding) (\<lambda>sender_ratchet_key.
          bindR (public_key_of sender_ratchet_key) (\<lambda>sender_ratchet_key.
          bindR (ok_or (spb_counter proto_structure) InvalidProtobufEncoding) (\<lambda>counter.
          bindR (ok_or (spb_ciphertext proto_structure) InvalidProtobufEncoding) (\<lambda>ciphertext.
          Inr \<lparr>sgm_message_version = message_version, sgm_sender_ratchet_key = sender_ratchet_key, sgm_counter = counter,
               sgm_previous_counter = (case spb_previous_counter proto_structure of Some c \<Rightarrow> c | None \<Rightarrow> 0),
               sgm_serialized = value, sgm_ciphertext_cache = Some ciphertext\<rparr>))))))"

record pre_key_signal_message =
  pkm_message_version :: u8
  pkm_registration_id :: u32
  pkm_pre_key_id :: "u32 option"
  pkm_signed_pre_key_id :: u32
  pkm_base_key :: public_key
  pkm_identity_key :: identity_key
  pkm_message :: signal_message
  pkm_serialized :: "u8 list"

definition pre_key_signal_message_new ::
    "sig_env \<Rightarrow> u8 \<Rightarrow> u32 \<Rightarrow> u32 option \<Rightarrow> u32 \<Rightarrow> public_key \<Rightarrow> identity_key \<Rightarrow> signal_message \<Rightarrow> pre_key_signal_message" where
  "pre_key_signal_message_new E message_version registration_id pre_key_id signed_pre_key_id base_key identity_key message =
     (let proto_message = \<lparr>ppb_registration_id = Some registration_id, ppb_pre_key_id = pre_key_id,
            ppb_signed_pre_key_id = Some signed_pre_key_id, ppb_base_key = Some (public_key_serialize base_key),
            ppb_identity_key = Some (public_key_serialize identity_key), ppb_message = Some (sgm_serialized message)\<rparr>
      in \<lparr>pkm_message_version = message_version, pkm_registration_id = registration_id, pkm_pre_key_id = pre_key_id,
          pkm_signed_pre_key_id = signed_pre_key_id, pkm_base_key = base_key, pkm_identity_key = identity_key, pkm_message = message,
          pkm_serialized = (push_bit 4 (message_version AND 0xF) OR CIPHERTEXT_MESSAGE_CURRENT_VERSION) # sg_pre_key E proto_message\<rparr>)"

definition pre_key_signal_message_try_from :: "sig_env \<Rightarrow> u8 list \<Rightarrow> pre_key_signal_message sres" where
  "pre_key_signal_message_try_from E value =
     (if value = [] then Inl (Err (CiphertextMessageTooShort (length value)))
      else
        let message_version = drop_bit 4 (hd value) in
        if \<not> (MIN_SUPPORTED_VERSION \<le> message_version \<and> message_version \<le> MAX_SUPPORTED_VERSION)
        then Inl (Err (UnrecognizedCiphertextVersion message_version))
        else
          bindR (ok_or (sg_pre_key_dec E (drop 1 value)) InvalidProtobufEncoding) (\<lambda>proto_structure.
          bindR (ok_or (ppb_base_key proto_structure) InvalidProtobufEncoding) (\<lambda>base_key.
          bindR (ok_or (ppb_identity_key proto_structure) InvalidProtobufEncoding) (\<lambda>identity_key.
          bindR (ok_or (ppb_message proto_structure) InvalidProtobufEncoding) (\<lambda>message.
          bindR (ok_or (ppb_signed_pre_key_id proto_structure) InvalidProtobufEncoding) (\<lambda>signed_pre_key_id.
          bindR (public_key_of base_key) (\<lambda>base_key.
          bindR (public_key_of identity_key) (\<lambda>identity_key.
          bindR (signal_message_try_from E message) (\<lambda>message.
          Inr \<lparr>pkm_message_version = message_version,
               pkm_registration_id = (case ppb_registration_id proto_structure of Some i \<Rightarrow> i | None \<Rightarrow> 0),
               pkm_pre_key_id = ppb_pre_key_id proto_structure, pkm_signed_pre_key_id = signed_pre_key_id,
               pkm_base_key = base_key, pkm_identity_key = identity_key, pkm_message = message, pkm_serialized = value\<rparr>)))))))))"

record sender_key_message =
  skm_message_version :: u8
  skm_chain_id :: u32
  skm_iteration :: u32
  skm_serialized :: "u8 list"
  skm_ciphertext_cache :: "u8 list option"

definition SIGNATURE_LEN :: nat where "SIGNATURE_LEN = 64"

definition sender_key_message_new ::
    "sig_env \<Rightarrow> u8 \<Rightarrow> u32 \<Rightarrow> u32 \<Rightarrow> u8 list \<Rightarrow> u8 list \<Rightarrow> private_key \<Rightarrow> sender_key_message" where
  "sender_key_message_new E message_version chain_id iteration ciphertext nonce signature_key =
     (let proto_message = \<lparr>kpb_id = Some chain_id, kpb_iteration = Some iteration, kpb_ciphertext = Some ciphertext\<rparr>;
          serialized = (push_bit 4 message_version OR 3) # sg_sender_key E proto_message;
          signature = sg_sign E (private_key_serialize signature_key) nonce serialized
      in \<lparr>skm_message_version = message_version, skm_chain_id = chain_id, skm_iteration = iteration,
          skm_serialized = serialized @ signature, skm_ciphertext_cache = None\<rparr>)"

text \<open>\<open>verify_signature\<close> and, with the derivations of the key cached, \<open>verify_signature_prepared\<close>.\<close>

definition verify_signature_prepared :: "sig_env \<Rightarrow> sender_key_message \<Rightarrow> public_key \<Rightarrow> bool sres" where
  "verify_signature_prepared E m signature_key =
     (let s = skm_serialized m in
      if length s < SIGNATURE_LEN then Inl Panic
      else Inr (verify_signature (sg_curve E) signature_key (take (length s - SIGNATURE_LEN) s) (drop (length s - SIGNATURE_LEN) s)))"

definition sender_key_message_ciphertext :: "sig_env \<Rightarrow> sender_key_message \<Rightarrow> u8 list sres" where
  "sender_key_message_ciphertext E m =
     (case skm_ciphertext_cache m of
        Some c \<Rightarrow> Inr c
      | None \<Rightarrow>
          let s = skm_serialized m in
          if length s < SIGNATURE_LEN + 1 then Inl Panic
          else bindR (ok_or (sg_sender_key_dec E (drop 1 (take (length s - SIGNATURE_LEN) s))) InvalidProtobufEncoding) (\<lambda>proto.
               ok_or (kpb_ciphertext proto) InvalidProtobufEncoding))"

definition sender_key_message_try_from :: "sig_env \<Rightarrow> u8 list \<Rightarrow> sender_key_message sres" where
  "sender_key_message_try_from E value =
     (if length value < 1 + SIGNATURE_LEN then Inl (Err (CiphertextMessageTooShort (length value)))
      else
        let message_version = drop_bit 4 (hd value) in
        if message_version < SENDERKEY_MESSAGE_CURRENT_VERSION then Inl (Err (LegacyCiphertextVersion message_version))
        else if message_version > SENDERKEY_MESSAGE_CURRENT_VERSION then Inl (Err (UnrecognizedCiphertextVersion message_version))
        else
          bindR (ok_or (sg_sender_key_dec E (drop 1 (take (length value - SIGNATURE_LEN) value))) InvalidProtobufEncoding) (\<lambda>proto_structure.
          bindR (ok_or (kpb_id proto_structure) InvalidProtobufEncoding) (\<lambda>chain_id.
          bindR (ok_or (kpb_iteration proto_structure) InvalidProtobufEncoding) (\<lambda>iteration.
          bindR (ok_or (kpb_ciphertext proto_structure) InvalidProtobufEncoding) (\<lambda>ciphertext.
          Inr \<lparr>skm_message_version = message_version, skm_chain_id = chain_id, skm_iteration = iteration,
               skm_serialized = value, skm_ciphertext_cache = Some ciphertext\<rparr>)))))"

record sender_key_distribution_message =
  skd_message_version :: u8
  skd_chain_id :: u32
  skd_iteration :: u32
  skd_chain_key :: "u8 list"
  skd_signing_key :: public_key
  skd_serialized :: "u8 list"

definition sender_key_distribution_message_new ::
    "sig_env \<Rightarrow> u8 \<Rightarrow> u32 \<Rightarrow> u32 \<Rightarrow> u8 list \<Rightarrow> public_key \<Rightarrow> sender_key_distribution_message" where
  "sender_key_distribution_message_new E message_version chain_id iteration chain_key signing_key =
     (let proto_message = \<lparr>dpb_id = Some chain_id, dpb_iteration = Some iteration, dpb_chain_key = Some chain_key,
            dpb_signing_key = Some (public_key_serialize signing_key)\<rparr>
      in \<lparr>skd_message_version = message_version, skd_chain_id = chain_id, skd_iteration = iteration, skd_chain_key = chain_key,
          skd_signing_key = signing_key,
          skd_serialized = (push_bit 4 (message_version AND 0xF) OR SENDERKEY_MESSAGE_CURRENT_VERSION) # sg_skdm E proto_message\<rparr>)"

definition sender_key_distribution_message_try_from :: "sig_env \<Rightarrow> u8 list \<Rightarrow> sender_key_distribution_message sres" where
  "sender_key_distribution_message_try_from E value =
     (if length value < 1 + 32 + 32 then Inl (Err (CiphertextMessageTooShort (length value)))
      else
        let message_version = drop_bit 4 (hd value) in
        if message_version < SENDERKEY_MESSAGE_CURRENT_VERSION then Inl (Err (LegacyCiphertextVersion message_version))
        else if message_version > SENDERKEY_MESSAGE_CURRENT_VERSION then Inl (Err (UnrecognizedCiphertextVersion message_version))
        else
          bindR (ok_or (sg_skdm_dec E (drop 1 value)) InvalidProtobufEncoding) (\<lambda>proto_structure.
          bindR (ok_or (dpb_id proto_structure) InvalidProtobufEncoding) (\<lambda>chain_id.
          bindR (ok_or (dpb_iteration proto_structure) InvalidProtobufEncoding) (\<lambda>iteration.
          bindR (ok_or (dpb_chain_key proto_structure) InvalidProtobufEncoding) (\<lambda>chain_key_vec.
          bindR (ok_or (dpb_signing_key proto_structure) InvalidProtobufEncoding) (\<lambda>signing_key.
          if length chain_key_vec \<noteq> 32 \<or> length signing_key \<noteq> 33 then Inl (Err InvalidProtobufEncoding)
          else
            bindR (public_key_of signing_key) (\<lambda>signing_key.
            Inr \<lparr>skd_message_version = message_version, skd_chain_id = chain_id, skd_iteration = iteration,
                 skd_chain_key = chain_key_vec, skd_signing_key = signing_key, skd_serialized = value\<rparr>)))))))"

record plaintext_content =
  ptc_serialized :: "u8 list"

definition plaintext_content_try_from :: "u8 list \<Rightarrow> plaintext_content sres" where
  "plaintext_content_try_from value =
     (case value of
        [] \<Rightarrow> Inl (Err (CiphertextMessageTooShort 0))
      | x # _ \<Rightarrow> if x \<noteq> 0xC0 then Inl (Err (UnrecognizedMessageVersion (ucast x))) else Inr \<lparr>ptc_serialized = value\<rparr>)"

datatype ciphertext_message =
    CipherSignal signal_message
  | CipherPreKey pre_key_signal_message
  | CipherSenderKey sender_key_message
  | CipherPlaintext plaintext_content

definition message_type :: "ciphertext_message \<Rightarrow> ciphertext_message_type" where
  "message_type m =
     (case m of CipherSignal _ \<Rightarrow> Whisper | CipherPreKey _ \<Rightarrow> PreKey | CipherSenderKey _ \<Rightarrow> SenderKey | CipherPlaintext _ \<Rightarrow> Plaintext)"

definition ciphertext_serialize :: "ciphertext_message \<Rightarrow> u8 list" where
  "ciphertext_serialize m =
     (case m of
        CipherSignal x \<Rightarrow> sgm_serialized x
      | CipherPreKey x \<Rightarrow> pkm_serialized x
      | CipherSenderKey x \<Rightarrow> skm_serialized x
      | CipherPlaintext x \<Rightarrow> ptc_serialized x)"

section \<open>A message that is built is parsed back and authentic\<close>

definition public_key_ok :: "public_key \<Rightarrow> bool" where
  "public_key_ok k \<longleftrightarrow> length (public_key_bytes k) = 32"

lemma public_key_of_serialize [simp]: "public_key_ok k \<Longrightarrow> public_key_of (public_key_serialize k) = Inr k"
  by (cases k) (simp add: public_key_of_def public_key_serialize_def public_key_type_def public_key_deserialize_def
      key_type_try_from_def key_type_value_def public_key_ok_def public_key_bytes_def)

lemma length_public_key_serialize [simp]: "public_key_ok k \<Longrightarrow> length (public_key_serialize k) = 33"
  by (cases k) (simp add: public_key_serialize_def public_key_ok_def public_key_bytes_def)

lemma key_pair_public_ok: "curve_prims_ok C \<Longrightarrow> key_pair_ok C kp \<Longrightarrow> public_key_ok (kp_public kp)"
  by (auto simp: key_pair_ok_def public_key_ok_def public_key_bytes_def curve_prims_ok_def)

lemma version_nibble:
  "drop_bit 4 (push_bit 4 ((3 :: u8) AND 15) OR 3) = (3 :: u8)" "drop_bit 4 (push_bit 4 ((4 :: u8) AND 15) OR 3) = (4 :: u8)"
  "drop_bit 4 (push_bit 4 (3 :: u8) OR 3) = (3 :: u8)"
  by (code_simp; simp)+

lemmas version_defs = CIPHERTEXT_MESSAGE_CURRENT_VERSION_def SENDERKEY_MESSAGE_CURRENT_VERSION_def
  MIN_SUPPORTED_VERSION_def MAX_SUPPORTED_VERSION_def MAC_LENGTH_def SIGNATURE_LEN_def

lemma sig_env_okD:
  assumes "sig_env_ok E"
  shows "curve_prims_ok (sg_curve E)" "mac_prims_ok (sg_macs E)" "sg_signal_dec E (sg_signal E p) = Some p"
    "sg_pre_key_dec E (sg_pre_key E q) = Some q" "sg_sender_key_dec E (sg_sender_key E r) = Some r"
    "sg_skdm_dec E (sg_skdm E d) = Some d"
  using assms by (simp_all add: sig_env_ok_def)

lemma compute_mac_ok:
  assumes "sig_env_ok E" "length mac_key = 32"
  shows "\<exists>mac. compute_mac E s r mac_key message = Inr mac \<and> length mac = 8"
  using sig_env_okD(2) [OF assms(1)] assms(2) by (simp add: compute_mac_def version_defs mac_prims_ok_def)

text \<open>The fields of a parsed message, and that its code is the one of the key.\<close>

lemma signal_message_roundtrip:
  assumes E: "sig_env_ok E" and k: "length mac_key = 32" "public_key_ok ratchet"
  shows "\<exists>m. signal_message_new E 3 mac_key ratchet counter previous ciphertext sender receiver = Inr m \<and>
    sgm_message_version m = 3 \<and>
    signal_message_try_from E (sgm_serialized m) = Inr (m\<lparr>sgm_ciphertext_cache := Some ciphertext\<rparr>) \<and>
    sgm_sender_ratchet_key m = ratchet \<and> sgm_counter m = counter \<and>
    signal_message_body E m = Inr ciphertext \<and> verify_mac E m sender receiver mac_key = Inr True"
proof -
  let ?pb = "\<lparr>spb_ratchet_key = Some (public_key_serialize ratchet), spb_counter = Some counter,
    spb_previous_counter = Some previous, spb_ciphertext = Some ciphertext\<rparr>"
  let ?s = "(push_bit 4 ((3 :: u8) AND 15) OR 3) # sg_signal E ?pb"
  obtain mac where mac: "compute_mac E sender receiver mac_key ?s = Inr mac" "length mac = 8"
    using compute_mac_ok [OF E k(1)] by blast
  let ?m = "\<lparr>sgm_message_version = 3, sgm_sender_ratchet_key = ratchet, sgm_counter = counter,
    sgm_previous_counter = previous, sgm_serialized = ?s @ mac, sgm_ciphertext_cache = None\<rparr>"
  have new: "signal_message_new E 3 mac_key ratchet counter previous ciphertext sender receiver = Inr ?m"
    using mac(1) by (simp add: signal_message_new_def version_defs Let_def)
  have "signal_message_try_from E (?s @ mac) = Inr (?m\<lparr>sgm_ciphertext_cache := Some ciphertext\<rparr>)"
    using mac(2) k(2) version_nibble(1)
    by (simp add: signal_message_try_from_def version_defs Let_def sig_env_okD(3) [OF E])
  moreover have "signal_message_body E ?m = Inr ciphertext"
    using mac(2) by (simp add: signal_message_body_def signal_message_decode_ciphertext_def version_defs Let_def sig_env_okD(3) [OF E])
  moreover have "verify_mac E ?m sender receiver mac_key = Inr True"
    using mac by (simp add: verify_mac_def version_defs Let_def)
  ultimately show ?thesis using new by (intro exI [of _ ?m]) simp
qed

lemma pre_key_signal_message_roundtrip:
  assumes E: "sig_env_ok E" and k: "public_key_ok base_key" "public_key_ok identity_key"
    and m: "signal_message_try_from E (sgm_serialized message) = Inr message'"
  shows "pre_key_signal_message_try_from E
      (pkm_serialized (pre_key_signal_message_new E 3 registration_id pre_key_id signed_pre_key_id base_key identity_key message)) =
    Inr ((pre_key_signal_message_new E 3 registration_id pre_key_id signed_pre_key_id base_key identity_key message)
      \<lparr>pkm_message := message'\<rparr>)"
  using k m version_nibble(1)
  by (simp add: pre_key_signal_message_try_from_def pre_key_signal_message_new_def version_defs Let_def sig_env_okD(4) [OF E])

lemma sender_key_message_roundtrip:
  assumes E: "sig_env_ok E" and k: "key_pair_ok (sg_curve E) kp"
    and m: "m = sender_key_message_new E 3 chain_id iteration ciphertext nonce (kp_private kp)"
  shows "sender_key_message_try_from E (skm_serialized m) = Inr (m\<lparr>skm_ciphertext_cache := Some ciphertext\<rparr>)"
    "verify_signature_prepared E (m\<lparr>skm_ciphertext_cache := c\<rparr>) (kp_public kp) = Inr True"
proof -
  obtain key where key: "length key = 32" "clamp (sg_curve E) key = key" "kp_private kp = DjbPrivateKey key"
    "kp_public kp = DjbPublicKey (x25519_base (sg_curve E) key)"
    using k unfolding key_pair_ok_def by blast
  have sign: "length (sg_sign E key nonce x) = 64"
    "xeddsa_verify (sg_curve E) (x25519_base (sg_curve E) key) x (sg_sign E key nonce x)" for x
    using E key(1,2) by (simp_all add: sig_env_ok_def)
  show "sender_key_message_try_from E (skm_serialized m) = Inr (m\<lparr>skm_ciphertext_cache := Some ciphertext\<rparr>)"
    using version_nibble(3) sign(1)
    by (simp add: m key(3) sender_key_message_try_from_def sender_key_message_new_def private_key_serialize_def version_defs Let_def
        sig_env_okD(5) [OF E])
  show "verify_signature_prepared E (m\<lparr>skm_ciphertext_cache := c\<rparr>) (kp_public kp) = Inr True"
    using sign by (simp add: m key(3,4) verify_signature_prepared_def sender_key_message_new_def private_key_serialize_def
        verify_signature_def version_defs Let_def)
qed

lemma skdm_roundtrip:
  assumes E: "sig_env_ok E" and k: "length chain_key = 32" "public_key_ok signing_key"
    and m: "m = sender_key_distribution_message_new E 3 chain_id iteration chain_key signing_key"
  shows "sender_key_distribution_message_try_from E (skd_serialized m) = Inr m"
proof -
  let ?p = "\<lparr>dpb_id = Some chain_id, dpb_iteration = Some iteration, dpb_chain_key = Some chain_key,
    dpb_signing_key = Some (public_key_serialize signing_key)\<rparr>"
  have "case dpb_chain_key ?p of Some c \<Rightarrow> (case dpb_signing_key ?p of Some k \<Rightarrow> length c + length k \<le> length (sg_skdm E ?p) | None \<Rightarrow> True)
          | None \<Rightarrow> True"
    using E unfolding sig_env_ok_def by blast
  then have "65 \<le> length (sg_skdm E ?p)" using k by simp
  then show ?thesis
    using k version_nibble(1)
    by (simp add: m sender_key_distribution_message_try_from_def sender_key_distribution_message_new_def version_defs Let_def
        sig_env_okD(6) [OF E])
qed

section \<open>A sample instance\<close>

definition sample_signal_put :: "signal_pb put" where
  "sample_signal_put = put_as (\<lambda>p. (spb_ratchet_key p, spb_counter p, spb_previous_counter p, spb_ciphertext p))
     (put_pair put_opt (put_pair put_word (put_pair put_word put_opt)))"

definition sample_signal_get :: "signal_pb getter" where
  "sample_signal_get = get_as (\<lambda>(k, c, q, x). \<lparr>spb_ratchet_key = k, spb_counter = c, spb_previous_counter = q, spb_ciphertext = x\<rparr>)
     (get_pair get_opt (get_pair get_word (get_pair get_word get_opt)))"

definition sample_pre_key_put :: "pre_key_pb put" where
  "sample_pre_key_put = put_as (\<lambda>p. (ppb_registration_id p, ppb_pre_key_id p, ppb_signed_pre_key_id p, ppb_base_key p,
       ppb_identity_key p, ppb_message p))
     (put_pair put_word (put_pair put_word (put_pair put_word (put_pair put_opt (put_pair put_opt put_opt)))))"

definition sample_pre_key_get :: "pre_key_pb getter" where
  "sample_pre_key_get = get_as (\<lambda>(r, k, s, b, i, m). \<lparr>ppb_registration_id = r, ppb_pre_key_id = k, ppb_signed_pre_key_id = s,
       ppb_base_key = b, ppb_identity_key = i, ppb_message = m\<rparr>)
     (get_pair get_word (get_pair get_word (get_pair get_word (get_pair get_opt (get_pair get_opt get_opt)))))"

definition sample_sender_key_put :: "sender_key_pb put" where
  "sample_sender_key_put = put_as (\<lambda>p. (kpb_id p, kpb_iteration p, kpb_ciphertext p)) (put_pair put_word (put_pair put_word put_opt))"

definition sample_sender_key_get :: "sender_key_pb getter" where
  "sample_sender_key_get = get_as (\<lambda>(i, n, c). \<lparr>kpb_id = i, kpb_iteration = n, kpb_ciphertext = c\<rparr>)
     (get_pair get_word (get_pair get_word get_opt))"

definition sample_skdm_put :: "skdm_pb put" where
  "sample_skdm_put = put_as (\<lambda>p. (dpb_id p, dpb_iteration p, dpb_chain_key p, dpb_signing_key p))
     (put_pair put_word (put_pair put_word (put_pair put_opt put_opt)))"

definition sample_skdm_get :: "skdm_pb getter" where
  "sample_skdm_get = get_as (\<lambda>(i, n, c, k). \<lparr>dpb_id = i, dpb_iteration = n, dpb_chain_key = c, dpb_signing_key = k\<rparr>)
     (get_pair get_word (get_pair get_word (get_pair get_opt get_opt)))"

lemma sample_message_codings:
  "codes sample_signal_put sample_signal_get" "codes sample_pre_key_put sample_pre_key_get"
  "codes sample_sender_key_put sample_sender_key_get" "codes sample_skdm_put sample_skdm_get"
  unfolding sample_signal_put_def sample_signal_get_def sample_pre_key_put_def sample_pre_key_get_def
    sample_sender_key_put_def sample_sender_key_get_def sample_skdm_put_def sample_skdm_get_def
  by (rule codes_as; simp add: codings)+

definition sample_sig :: sig_env where
  "sample_sig =
     \<lparr>sg_curve = sample_curve, sg_macs = sample_macs, sg_sign = (\<lambda>k nonce m. replicate 64 0),
      sg_signal = sample_signal_put, sg_signal_dec = get_all sample_signal_get,
      sg_pre_key = sample_pre_key_put, sg_pre_key_dec = get_all sample_pre_key_get,
      sg_sender_key = sample_sender_key_put, sg_sender_key_dec = get_all sample_sender_key_get,
      sg_skdm = sample_skdm_put, sg_skdm_dec = get_all sample_skdm_get\<rparr>"

lemma sample_sig_ok: "sig_env_ok sample_sig"
proof -
  have "length c + length k \<le> length (sample_skdm_put p)" if "dpb_chain_key p = Some c" "dpb_signing_key p = Some k" for p c k
    using that length_put_opt_le [of c] length_put_opt_le [of k] by (simp add: sample_skdm_put_def put_as_def put_pair_def)
  then show ?thesis
    by (simp add: sig_env_ok_def sample_sig_def sample_curve_ok sample_macs_ok codes_all sample_message_codings split: option.split)
      (simp add: sample_curve_def)
qed

end
