(* ===== verification/SenderKeys.thy ===== *)
theory SenderKeys
  imports Signal
begin

text \<open>Sender keys of a group (wacore/libsignal/src/protocol/sender_keys.rs): the chain that gives a key per message,
  the state of one chain with the keys of messages that were skipped, and the record of the most recent states of
  a sender.  The memos of parsed signing keys are left out:
  they hold what the serialized keys give.\<close>

section \<open>The chain\<close>

text \<open>The generated protobuf types.\<close>

record sender_message_key_pb =
  mkp_iteration :: "u32 option"
  mkp_seed :: "u8 list option"

record sender_chain_key_pb =
  ckp_iteration :: "u32 option"
  ckp_seed :: "u8 list option"

record sender_signing_key_pb =
  skp_public :: "u8 list option"
  skp_private :: "u8 list option"

record sender_key_state_structure =
  ssp_sender_key_id :: "u32 option"
  ssp_sender_chain_key :: "sender_chain_key_pb option"
  ssp_sender_signing_key :: "sender_signing_key_pb option"
  ssp_sender_message_keys :: "sender_message_key_pb list"

definition or_default :: "'a \<Rightarrow> 'a option \<Rightarrow> 'a" where
  "or_default d x = (case x of Some v \<Rightarrow> v | None \<Rightarrow> d)"

lemma or_default_simps [simp]: "or_default d (Some v) = v" "or_default d None = d"
  by (simp_all add: or_default_def)

record sender_message_key =
  smk_iteration :: u32
  smk_iv :: "u8 list"
  smk_cipher_key :: "u8 list"
  smk_seed :: "u8 list"

definition sender_message_key_new :: "mac_prims \<Rightarrow> u32 \<Rightarrow> u8 list \<Rightarrow> sender_message_key sres" where
  "sender_message_key_new M iteration seed =
     (case hkdf_expand M (hkdf_extract M None seed) (lit ''WhisperGroup'') 48 of
        None \<Rightarrow> Inl Panic
      | Some derived \<Rightarrow>
          Inr \<lparr>smk_iteration = iteration, smk_iv = take 16 derived, smk_cipher_key = take 32 (drop 16 derived), smk_seed = seed\<rparr>)"

definition sender_message_key_from_protobuf :: "mac_prims \<Rightarrow> sender_message_key_pb \<Rightarrow> sender_message_key sres" where
  "sender_message_key_from_protobuf M smk =
     (let seed = or_default [] (mkp_seed smk) in
      if length seed \<noteq> 32 then Inl Panic
      else sender_message_key_new M (or_default 0 (mkp_iteration smk)) seed)"

definition sender_message_key_as_protobuf :: "sender_message_key \<Rightarrow> sender_message_key_pb" where
  "sender_message_key_as_protobuf k = \<lparr>mkp_iteration = Some (smk_iteration k), mkp_seed = Some (smk_seed k)\<rparr>"

record sender_chain_key =
  sck_iteration :: u32
  sck_chain_key :: "u8 list"

definition MESSAGE_KEY_SEED :: u8 where "MESSAGE_KEY_SEED = 0x01"
definition CHAIN_KEY_SEED :: u8 where "CHAIN_KEY_SEED = 0x02"

definition get_derivative :: "mac_prims \<Rightarrow> sender_chain_key \<Rightarrow> u8 \<Rightarrow> u8 list" where
  "get_derivative M c label = hmac_sha256 M (sck_chain_key c) [label]"

definition sender_chain_key_next :: "mac_prims \<Rightarrow> sender_chain_key \<Rightarrow> sender_chain_key sres" where
  "sender_chain_key_next M c =
     (if unat (sck_iteration c) = 2 ^ 32 - 1
      then Inl (Err (InvalidState (lit ''sender_chain_key_next'') (lit ''Sender chain is too long'')))
      else Inr \<lparr>sck_iteration = sck_iteration c + 1, sck_chain_key = get_derivative M c CHAIN_KEY_SEED\<rparr>)"

definition chain_sender_message_key :: "mac_prims \<Rightarrow> sender_chain_key \<Rightarrow> sender_message_key sres" where
  "chain_sender_message_key M c = sender_message_key_new M (sck_iteration c) (get_derivative M c MESSAGE_KEY_SEED)"

definition step_with_message_key :: "mac_prims \<Rightarrow> sender_chain_key \<Rightarrow> (sender_message_key \<times> sender_chain_key) sres" where
  "step_with_message_key M c =
     (if unat (sck_iteration c) = 2 ^ 32 - 1
      then Inl (Err (InvalidState (lit ''sender_chain_key_step'') (lit ''Sender chain is too long'')))
      else
        let message_key_seed = hmac_sha256 M (sck_chain_key c) [MESSAGE_KEY_SEED];
            next_chain_key = hmac_sha256 M (sck_chain_key c) [CHAIN_KEY_SEED] in
        bindR (sender_message_key_new M (sck_iteration c) message_key_seed) (\<lambda>message_key.
        Inr (message_key, \<lparr>sck_iteration = sck_iteration c + 1, sck_chain_key = next_chain_key\<rparr>)))"

definition sender_chain_key_as_protobuf :: "sender_chain_key \<Rightarrow> sender_chain_key_pb" where
  "sender_chain_key_as_protobuf c = \<lparr>ckp_iteration = Some (sck_iteration c), ckp_seed = Some (sck_chain_key c)\<rparr>"

section \<open>The state of one chain\<close>

record sender_key_state =
  sks_state :: sender_key_state_structure
  sks_message_keys :: "sender_message_key_pb list"

definition sender_key_state_new ::
    "u32 \<Rightarrow> u32 \<Rightarrow> u8 list \<Rightarrow> public_key \<Rightarrow> private_key option \<Rightarrow> sender_key_state sres" where
  "sender_key_state_new chain_id iteration chain_key signature_key signature_private_key =
     (if length chain_key \<noteq> 32 then Inl Panic
      else Inr \<lparr>sks_state =
          \<lparr>ssp_sender_key_id = Some chain_id,
           ssp_sender_chain_key = Some (sender_chain_key_as_protobuf \<lparr>sck_iteration = iteration, sck_chain_key = chain_key\<rparr>),
           ssp_sender_signing_key = Some \<lparr>skp_public = Some (public_key_serialize signature_key),
             skp_private = map_option private_key_serialize signature_private_key\<rparr>,
           ssp_sender_message_keys = []\<rparr>,
        sks_message_keys = []\<rparr>)"

definition sender_key_state_from_protobuf :: "sender_key_state_structure \<Rightarrow> sender_key_state" where
  "sender_key_state_from_protobuf s =
     \<lparr>sks_state = s\<lparr>ssp_sender_message_keys := []\<rparr>, sks_message_keys = ssp_sender_message_keys s\<rparr>"

definition sender_key_state_as_protobuf :: "sender_key_state \<Rightarrow> sender_key_state_structure" where
  "sender_key_state_as_protobuf s = (sks_state s)\<lparr>ssp_sender_message_keys := sks_message_keys s\<rparr>"

definition sks_message_version :: u32 where "sks_message_version = 3"

definition sks_chain_id :: "sender_key_state \<Rightarrow> u32" where
  "sks_chain_id s = or_default 0 (ssp_sender_key_id (sks_state s))"

definition sks_sender_chain_key :: "sender_key_state \<Rightarrow> sender_chain_key option" where
  "sks_sender_chain_key s =
     (case ssp_sender_chain_key (sks_state s) of
        None \<Rightarrow> None
      | Some sender_chain \<Rightarrow>
          let seed = or_default [] (ckp_seed sender_chain) in
          if length seed \<noteq> 32 then None
          else Some \<lparr>sck_iteration = or_default 0 (ckp_iteration sender_chain), sck_chain_key = seed\<rparr>)"

definition set_sender_chain_key :: "sender_chain_key \<Rightarrow> sender_key_state \<Rightarrow> sender_key_state" where
  "set_sender_chain_key chain_key s =
     s\<lparr>sks_state := (sks_state s)\<lparr>ssp_sender_chain_key := Some (sender_chain_key_as_protobuf chain_key)\<rparr>\<rparr>"

definition signing_key_public :: "sender_key_state \<Rightarrow> (str, public_key) res" where
  "signing_key_public s =
     (case ssp_sender_signing_key (sks_state s) of
        Some signing_key \<Rightarrow>
          bindR (ok_or (skp_public signing_key) (lit ''missing public key bytes'')) (\<lambda>public.
          mapE (\<lambda>_. lit ''invalid public signing key'') (public_key_deserialize public))
      | None \<Rightarrow> Inl (Err (lit ''missing signing key'')))"

definition signing_key_private :: "sig_env \<Rightarrow> sender_key_state \<Rightarrow> (str, private_key) res" where
  "signing_key_private E s =
     (case ssp_sender_signing_key (sks_state s) of
        Some signing_key \<Rightarrow>
          bindR (ok_or (skp_private signing_key) (lit ''missing private key bytes'')) (\<lambda>private.
          mapE (\<lambda>_. lit ''invalid private signing key'') (private_key_deserialize (sg_curve E) private))
      | None \<Rightarrow> Inl (Err (lit ''missing signing key'')))"

definition prune_message_keys :: "'a list \<Rightarrow> 'a list" where
  "prune_message_keys keys =
     (if length keys > MAX_MESSAGE_KEYS + MESSAGE_KEY_PRUNE_THRESHOLD then drop (length keys - MAX_MESSAGE_KEYS) keys else keys)"

definition add_sender_message_key :: "sender_message_key \<Rightarrow> sender_key_state \<Rightarrow> sender_key_state" where
  "add_sender_message_key k s =
     s\<lparr>sks_message_keys := prune_message_keys (sks_message_keys s @ [sender_message_key_as_protobuf k])\<rparr>"

definition remove_sender_message_key ::
    "mac_prims \<Rightarrow> u32 \<Rightarrow> (sender_key_state, signal_error, sender_message_key option) meth" where
  "remove_sender_message_key M iteration s =
     (let other = (\<lambda>x. or_default 0 (mkp_iteration x) \<noteq> iteration) in
      case dropWhile other (sks_message_keys s) of
        [] \<Rightarrow> (Inr None, s)
      | smk # rest \<Rightarrow>
          (mapR Some (sender_message_key_from_protobuf M smk),
           s\<lparr>sks_message_keys := takeWhile other (sks_message_keys s) @ rest\<rparr>))"

section \<open>The record of a sender\<close>

record sender_key_record =
  skr_states :: "sender_key_state list"

definition sender_key_record_empty :: sender_key_record where
  "sender_key_record_empty = \<lparr>skr_states = []\<rparr>"

definition sender_key_record_as_protobuf :: "sender_key_record \<Rightarrow> sender_key_state_structure list" where
  "sender_key_record_as_protobuf r = map sender_key_state_as_protobuf (skr_states r)"

text \<open>The bytes are decoded by the generated code, \<open>dec\<close>.\<close>

definition sender_key_record_deserialize ::
    "(u8 list \<Rightarrow> sender_key_state_structure list option) \<Rightarrow> u8 list \<Rightarrow> sender_key_record sres" where
  "sender_key_record_deserialize dec buf =
     bindR (ok_or (dec buf) InvalidProtobufEncoding) (\<lambda>skr.
     Inr \<lparr>skr_states = map sender_key_state_from_protobuf skr\<rparr>)"

definition record_sender_key_state :: "sender_key_record \<Rightarrow> (str, sender_key_state) res" where
  "record_sender_key_state r =
     (case skr_states r of st # _ \<Rightarrow> Inr st | [] \<Rightarrow> Inl (Err (lit ''empty sender key state'')))"

definition signed_by :: "u32 \<Rightarrow> public_key \<Rightarrow> sender_key_state \<Rightarrow> bool" where
  "signed_by chain_id signature_key st \<longleftrightarrow> sks_chain_id st = chain_id \<and> signing_key_public st = Inr signature_key"

definition remove_state :: "u32 \<Rightarrow> public_key \<Rightarrow> sender_key_state list \<Rightarrow> sender_key_state option \<times> sender_key_state list" where
  "remove_state chain_id signature_key states =
     (let other = (\<lambda>st. \<not> signed_by chain_id signature_key st) in
      case dropWhile other states of
        [] \<Rightarrow> (None, states)
      | st # rest \<Rightarrow> (Some st, takeWhile other states @ rest))"

definition remove_states_with_chain_id :: "u32 \<Rightarrow> sender_key_state list \<Rightarrow> sender_key_state list" where
  "remove_states_with_chain_id chain_id states = filter (\<lambda>st. sks_chain_id st \<noteq> chain_id) states"

definition add_sender_key_state ::
    "u32 \<Rightarrow> u32 \<Rightarrow> u8 list \<Rightarrow> public_key \<Rightarrow> private_key option \<Rightarrow> sender_key_record \<Rightarrow> sender_key_record sres" where
  "add_sender_key_state chain_id iteration chain_key signature_key signature_private_key r =
     (let (existing_state, states) = remove_state chain_id signature_key (skr_states r);
          states = remove_states_with_chain_id chain_id states in
      bindR (case existing_state of
               None \<Rightarrow> sender_key_state_new chain_id iteration chain_key signature_key signature_private_key
             | Some st \<Rightarrow> Inr st) (\<lambda>st.
      Inr \<lparr>skr_states = st # take (MAX_SENDER_KEY_STATES - 1) states\<rparr>))"

end
