(* ===== verification/GroupCipher.thy ===== *)
theory GroupCipher
  imports SenderKeys
begin

text \<open>Group messages (wacore/libsignal/src/protocol/group_cipher.rs): encryption and decryption with the sender key
  of the group, and the messages that distribute a sender key.  The store of records is the record of the two
  operations of the trait \<open>SenderKeyStore\<close> that are used.\<close>

record 's sender_key_ops =
  op_load_sender_key :: "sender_key_name \<Rightarrow> ('s, signal_error, sender_key_record option) meth"
  op_store_sender_key :: "sender_key_name \<Rightarrow> sender_key_record \<Rightarrow> ('s, signal_error, unit) meth"

definition no_record :: "sender_key_name \<Rightarrow> signal_error" where
  "no_record n = NoSenderKeyState (lit ''no sender key record for group '' @ skn_group_id n @ lit '' sender '' @ skn_sender_id n)"

definition group_encrypt ::
    "sig_env \<Rightarrow> 's sender_key_ops \<Rightarrow> sender_key_name \<Rightarrow> u8 list \<Rightarrow> u8 list \<Rightarrow> ('s, signal_error, sender_key_message) meth" where
  "group_encrypt E S name plaintext nonce =
     bindS (op_load_sender_key S name) (\<lambda>loaded.
     bindS (liftS (ok_or loaded (no_record name))) (\<lambda>record.
     case skr_states record of
       [] \<Rightarrow> liftS (Inl (Err InvalidSenderKeySession))
     | st # rest \<Rightarrow>
         bindS (liftS (ok_or (sks_sender_chain_key st) InvalidSenderKeySession)) (\<lambda>sender_chain_key.
         bindS (liftS (step_with_message_key (sg_macs E) sender_chain_key)) (\<lambda>(message_keys, next_sender_chain_key).
         bindS (liftS (mapE (\<lambda>_. InvalidSenderKeySession)
           (aes_256_cbc_encrypt_into (sg_macs E) plaintext (smk_cipher_key message_keys) (smk_iv message_keys) []))) (\<lambda>ciphertext.
         bindS (liftS (mapE (\<lambda>_. InvalidSenderKeySession) (signing_key_private E st))) (\<lambda>signing_key.
         let skm = sender_key_message_new E (ucast sks_message_version) (sks_chain_id st) (smk_iteration message_keys) ciphertext
                     nonce signing_key in
         bindS (op_store_sender_key S name \<lparr>skr_states = set_sender_chain_key next_sender_chain_key st # rest\<rparr>) (\<lambda>_.
         returnS skm)))))))"

text \<open>The loop over the iterations that are skipped, \<open>n\<close> of them.\<close>

fun skip_message_keys :: "mac_prims \<Rightarrow> nat \<Rightarrow> sender_chain_key \<Rightarrow> (sender_key_state, signal_error, sender_chain_key) meth" where
  "skip_message_keys M 0 c = returnS c"
| "skip_message_keys M (Suc n) c =
     bindS (liftS (step_with_message_key M c)) (\<lambda>(message_key, next_chain).
     bindS (modifyS (add_sender_message_key message_key)) (\<lambda>_.
     skip_message_keys M n next_chain))"

definition group_get_sender_key :: "mac_prims \<Rightarrow> u32 \<Rightarrow> (sender_key_state, signal_error, sender_message_key) meth" where
  "group_get_sender_key M iteration =
     bindS getS (\<lambda>st.
     bindS (liftS (ok_or (sks_sender_chain_key st) InvalidSenderKeySession)) (\<lambda>sender_chain_key.
     let current_iteration = sck_iteration sender_chain_key in
     if current_iteration > iteration then
       bindS (remove_sender_message_key M iteration) (\<lambda>smk.
       liftS (ok_or smk (DuplicatedMessage current_iteration iteration)))
     else
       let jump = unat (iteration - current_iteration) in
       if jump > MAX_FORWARD_JUMPS
       then liftS (Inl (Err (InvalidMessage SenderKey (lit ''message from too far into the future''))))
       else
         bindS (skip_message_keys M jump sender_chain_key) (\<lambda>sender_chain_key.
         bindS (liftS (step_with_message_key M sender_chain_key)) (\<lambda>(result_message_key, next_chain).
         bindS (modifyS (set_sender_chain_key next_chain)) (\<lambda>_.
         returnS result_message_key)))))"

fun debug_list :: "u32 list \<Rightarrow> str" where
  "debug_list [] = []"
| "debug_list [x] = decimal (unat x)"
| "debug_list (x # xs) = decimal (unat x) @ lit '', '' @ debug_list xs"

definition no_chain :: "u32 \<Rightarrow> sender_key_record \<Rightarrow> signal_error" where
  "no_chain chain_id record =
     NoSenderKeyState (lit ''no sender key state for chain id '' @ decimal (unat chain_id) @ lit '' (known chain IDs: ['' @
       debug_list (map sks_chain_id (skr_states record)) @ lit ''])'')"

definition group_decrypt_error :: "decryption_error \<Rightarrow> signal_error" where
  "group_decrypt_error e =
     (case e of DecBadKeyOrIv \<Rightarrow> InvalidSenderKeySession | BadCiphertext _ \<Rightarrow> InvalidMessage SenderKey (lit ''decryption failed''))"

text \<open>Decryption with the state of the message's chain.\<close>

definition decrypt_with_sender_key_state ::
    "sig_env \<Rightarrow> sender_key_message \<Rightarrow> (sender_key_state, signal_error, u8 list) meth" where
  "decrypt_with_sender_key_state E skm =
     bindS getS (\<lambda>st.
     let message_version = ucast (skm_message_version skm) in
     if message_version \<noteq> sks_message_version then liftS (Inl (Err (UnrecognizedMessageVersion message_version)))
     else
       bindS (liftS (mapE (\<lambda>_. InvalidSenderKeySession) (signing_key_public st))) (\<lambda>signing_key.
       bindS (liftS (verify_signature_prepared E skm signing_key)) (\<lambda>valid.
       if \<not> valid then liftS (Inl (Err SignatureValidationFailed))
       else
         bindS (group_get_sender_key (sg_macs E) (skm_iteration skm)) (\<lambda>sender_key.
         bindS (liftS (sender_key_message_ciphertext E skm)) (\<lambda>ciphertext.
         liftS (mapE group_decrypt_error
           (aes_256_cbc_decrypt_into (sg_macs E) ciphertext (smk_cipher_key sender_key) (smk_iv sender_key))))))))"

definition group_decrypt ::
    "sig_env \<Rightarrow> 's sender_key_ops \<Rightarrow> sender_key_name \<Rightarrow> u8 list \<Rightarrow> ('s, signal_error, u8 list) meth" where
  "group_decrypt E S name skm_bytes =
     bindS (liftS (sender_key_message_try_from E skm_bytes)) (\<lambda>skm.
     bindS (op_load_sender_key S name) (\<lambda>loaded.
     bindS (liftS (ok_or loaded (no_record name))) (\<lambda>record.
     let other = (\<lambda>st. sks_chain_id st \<noteq> skm_chain_id skm) in
     case dropWhile other (skr_states record) of
       [] \<Rightarrow> liftS (Inl (Err (no_chain (skm_chain_id skm) record)))
     | st # rest \<Rightarrow>
         let (result, st') = decrypt_with_sender_key_state E skm st in
         bindS (liftS result) (\<lambda>plaintext.
         bindS (op_store_sender_key S name \<lparr>skr_states = takeWhile other (skr_states record) @ st' # rest\<rparr>) (\<lambda>_.
         returnS plaintext)))))"

definition process_sender_key_distribution_message ::
    "'s sender_key_ops \<Rightarrow> sender_key_name \<Rightarrow> sender_key_distribution_message \<Rightarrow> ('s, signal_error, unit) meth" where
  "process_sender_key_distribution_message S name skdm =
     bindS (op_load_sender_key S name) (\<lambda>loaded.
     let record = or_default sender_key_record_empty loaded in
     bindS (liftS (add_sender_key_state (skd_chain_id skdm) (skd_iteration skdm) (skd_chain_key skdm) (skd_signing_key skdm) None record)) (\<lambda>record.
     op_store_sender_key S name record))"

definition build_skdm_from_record :: "sig_env \<Rightarrow> sender_key_record \<Rightarrow> sender_key_distribution_message sres" where
  "build_skdm_from_record E record =
     bindR (mapE (\<lambda>_. InvalidSenderKeySession) (record_sender_key_state record)) (\<lambda>st.
     bindR (ok_or (sks_sender_chain_key st) InvalidSenderKeySession) (\<lambda>sender_chain_key.
     bindR (mapE (\<lambda>_. InvalidSenderKeySession) (signing_key_public st)) (\<lambda>signing_key.
     Inr (sender_key_distribution_message_new E (ucast sks_message_version) (sks_chain_id st) (sck_iteration sender_chain_key)
       (sck_chain_key sender_chain_key) signing_key))))"

text \<open>The random generator supplies a number, a chain key and a signing key.\<close>

definition create_sender_key_distribution_message ::
    "sig_env \<Rightarrow> 's sender_key_ops \<Rightarrow> sender_key_name \<Rightarrow> u32 \<Rightarrow> u8 list \<Rightarrow> u8 list \<Rightarrow>
     ('s, signal_error, sender_key_distribution_message) meth" where
  "create_sender_key_distribution_message E S name random_id sender_key signing_random =
     bindS (op_load_sender_key S name) (\<lambda>sender_key_record.
     case sender_key_record of
       Some record \<Rightarrow> liftS (build_skdm_from_record E record)
     | None \<Rightarrow>
         let chain_id = drop_bit 1 random_id;
             signing_key = key_pair_generate (sg_curve E) signing_random in
         bindS (liftS (add_sender_key_state chain_id 0 sender_key (kp_public signing_key) (Some (kp_private signing_key))
           sender_key_record_empty)) (\<lambda>record.
         bindS (liftS (build_skdm_from_record E record)) (\<lambda>skdm.
         bindS (op_store_sender_key S name record) (\<lambda>_.
         returnS skdm))))"

section \<open>The contract of the store\<close>

text \<open>The generated coding of a record.\<close>

record record_codec =
  rc_encode :: "sender_key_state_structure list \<Rightarrow> u8 list"
  rc_decode :: "u8 list \<Rightarrow> sender_key_state_structure list option"

definition record_codec_ok :: "record_codec \<Rightarrow> bool" where
  "record_codec_ok C \<longleftrightarrow> (\<forall>xs. rc_decode C (rc_encode C xs) = Some xs) \<and> (\<forall>xs. rc_encode C xs = [] \<longleftrightarrow> xs = [])"

text \<open>A record that survives its coding: there is a state, and the skipped keys are only outside the structure.\<close>

definition storable :: "sender_key_record \<Rightarrow> bool" where
  "storable r \<longleftrightarrow> skr_states r \<noteq> [] \<and> (\<forall>st \<in> set (skr_states r). ssp_sender_message_keys (sks_state st) = [])"

lemma storable_roundtrip:
  assumes "record_codec_ok C" "storable r"
  shows "sender_key_record_deserialize (rc_decode C) (rc_encode C (sender_key_record_as_protobuf r)) = Inr r"
    "rc_encode C (sender_key_record_as_protobuf r) \<noteq> []"
proof -
  have "sender_key_state_from_protobuf (sender_key_state_as_protobuf st) = st" if "st \<in> set (skr_states r)" for st
    using that assms(2)
    by (cases st, cases "sks_state st") (auto simp: storable_def sender_key_state_from_protobuf_def sender_key_state_as_protobuf_def)
  then have "map (\<lambda>st. sender_key_state_from_protobuf (sender_key_state_as_protobuf st)) (skr_states r) = skr_states r"
    by (simp add: map_idI)
  then show "sender_key_record_deserialize (rc_decode C) (rc_encode C (sender_key_record_as_protobuf r)) = Inr r"
    using assms(1) by (simp add: sender_key_record_deserialize_def record_codec_ok_def sender_key_record_as_protobuf_def comp_def)
  show "rc_encode C (sender_key_record_as_protobuf r) \<noteq> []"
    using assms by (simp add: record_codec_ok_def sender_key_record_as_protobuf_def storable_def)
qed

text \<open>\<open>recs\<close> gives the readable records by the buffer of their names, \<open>fresh\<close> tells that there is nothing under it.\<close>

locale sender_key_store =
  fixes C :: record_codec and S :: "'s sender_key_ops"
    and recs :: "'s \<Rightarrow> str \<Rightarrow> sender_key_record option" and fresh :: "'s \<Rightarrow> str \<Rightarrow> bool"
  assumes load: "record_codec_ok C \<Longrightarrow> recs s (skn_buf n) = Some r \<Longrightarrow> storable r \<Longrightarrow>
      op_load_sender_key S n s = (Inr (Some r), s)"
    and load_fresh: "fresh s (skn_buf n) \<Longrightarrow> op_load_sender_key S n s = (Inr None, s)"
    and store: "record_codec_ok C \<Longrightarrow> storable r \<Longrightarrow>
      \<exists>s'. op_store_sender_key S n r s = (Inr (), s') \<and> recs s' = (recs s)(skn_buf n := Some r) \<and>
        (\<forall>b. b \<noteq> skn_buf n \<longrightarrow> fresh s' b = fresh s b)"

text \<open>A sample coding of records.\<close>

definition sample_state_put :: "sender_key_state_structure put" where
  "sample_state_put = put_as (\<lambda>p. (ssp_sender_key_id p, map_option (\<lambda>c. (ckp_iteration c, ckp_seed c)) (ssp_sender_chain_key p),
       map_option (\<lambda>k. (skp_public k, skp_private k)) (ssp_sender_signing_key p),
       map (\<lambda>m. (mkp_iteration m, mkp_seed m)) (ssp_sender_message_keys p)))
     (put_pair put_word (put_pair (put_maybe (put_pair put_word put_opt)) (put_pair (put_maybe (put_pair put_opt put_opt))
       (put_list (put_pair put_word put_opt)))))"

definition sample_state_get :: "sender_key_state_structure getter" where
  "sample_state_get = get_as (\<lambda>(i, c, k, ms).
       \<lparr>ssp_sender_key_id = i, ssp_sender_chain_key = map_option (\<lambda>(n, s). \<lparr>ckp_iteration = n, ckp_seed = s\<rparr>) c,
        ssp_sender_signing_key = map_option (\<lambda>(p, q). \<lparr>skp_public = p, skp_private = q\<rparr>) k,
        ssp_sender_message_keys = map (\<lambda>(n, s). \<lparr>mkp_iteration = n, mkp_seed = s\<rparr>) ms\<rparr>)
     (get_pair get_word (get_pair (get_maybe (get_pair get_word get_opt)) (get_pair (get_maybe (get_pair get_opt get_opt))
       (get_list (get_pair get_word get_opt)))))"

lemma record_surjective:
  "\<lparr>ckp_iteration = ckp_iteration c, ckp_seed = ckp_seed c\<rparr> = c" "\<lparr>skp_public = skp_public k, skp_private = skp_private k\<rparr> = k"
  "\<lparr>mkp_iteration = mkp_iteration m, mkp_seed = mkp_seed m\<rparr> = m"
  by simp_all

lemma sample_state_coding: "codes sample_state_put sample_state_get"
  unfolding sample_state_put_def sample_state_get_def
  by (rule codes_as) (simp_all add: codings option.map_comp comp_def record_surjective option.map_ident)

definition sample_records :: record_codec where
  "sample_records =
     \<lparr>rc_encode = (\<lambda>xs. if xs = [] then [] else put_list sample_state_put xs),
      rc_decode = (\<lambda>b. if b = [] then Some [] else get_all (get_list sample_state_get) b)\<rparr>"

lemma sample_records_ok: "record_codec_ok sample_records"
proof -
  have "put_list sample_state_put xs \<noteq> []" for xs by (cases xs) simp_all
  then show ?thesis
    by (simp add: record_codec_ok_def sample_records_def codes_all [OF codes_list [OF sample_state_coding]])
qed

end
