(* ===== verification/GroupReceive.thy ===== *)
theory GroupReceive
  imports GroupCipher
begin

text \<open>Receiving group messages (src/message/special.rs and src/message/receive.rs): a distributed sender key is stored, and
  group messages are decrypted, under the name of the group and the sender without device.\<close>

definition sender_key_name_of :: "itoa \<Rightarrow> str jid \<Rightarrow> str jid \<Rightarrow> sender_key_name" where
  "sender_key_name_of it chat sender = make_sender_key_name it chat (to_protocol_address it (to_non_ad sender))"

text \<open>A message without the version byte, as other clients write it.\<close>

definition go_sender_key_distribution_message :: "sig_env \<Rightarrow> u8 list \<Rightarrow> sender_key_distribution_message option" where
  "go_sender_key_distribution_message E axolotl_bytes =
     (case sg_skdm_dec E axolotl_bytes of
        None \<Rightarrow> None
      | Some go_msg \<Rightarrow>
          (case (dpb_signing_key go_msg, dpb_id go_msg, dpb_iteration go_msg, dpb_chain_key go_msg) of
             (Some signing_key, Some chain_id, Some iteration, Some chain_key) \<Rightarrow>
               if length chain_key \<noteq> 32 then None
               else (case from_djb_public_key_bytes signing_key of
                       Inr pub_key \<Rightarrow> Some (sender_key_distribution_message_new E SENDERKEY_MESSAGE_CURRENT_VERSION chain_id iteration
                         chain_key pub_key)
                     | Inl _ \<Rightarrow> None)
           | _ \<Rightarrow> None))"

text \<open>The message that the bytes carry, in either form.\<close>

definition distributed :: "sig_env \<Rightarrow> u8 list \<Rightarrow> sender_key_distribution_message option sres" where
  "distributed E axolotl_bytes =
     (case sender_key_distribution_message_try_from E axolotl_bytes of
        Inr skdm \<Rightarrow> Inr (Some skdm)
      | Inl (Err _) \<Rightarrow> Inr (go_sender_key_distribution_message E axolotl_bytes)
      | Inl f \<Rightarrow> Inl f)"

text \<open>Errors are logged.\<close>

definition handle_sender_key_distribution_message ::
    "itoa \<Rightarrow> sig_env \<Rightarrow> 's sender_key_ops \<Rightarrow> str jid \<Rightarrow> str jid \<Rightarrow> u8 list \<Rightarrow> ('s, signal_error, unit) meth" where
  "handle_sender_key_distribution_message it E S group_jid sender_jid axolotl_bytes =
     bindS (liftS (distributed E axolotl_bytes)) (\<lambda>skdm.
     case skdm of
       None \<Rightarrow> returnS ()
     | Some skdm \<Rightarrow> (\<lambda>s.
         case process_sender_key_distribution_message S (sender_key_name_of it group_jid sender_jid) skdm s of
           (Inl (Err _), s') \<Rightarrow> (Inr (), s')
         | (r, s') \<Rightarrow> (r, s')))"

text \<open>What arrives for a group: a distributed key or a message, each with the group and the sender.\<close>

datatype group_event =
    Distribution "str jid" "str jid" "u8 list"
  | GroupMessage "str jid" "str jid" "u8 list"

fun handle_group_event :: "itoa \<Rightarrow> sig_env \<Rightarrow> 's sender_key_ops \<Rightarrow> group_event \<Rightarrow> 's \<Rightarrow> 's" where
  "handle_group_event it E S (Distribution chat sender bytes) t = snd (handle_sender_key_distribution_message it E S chat sender bytes t)"
| "handle_group_event it E S (GroupMessage chat sender bytes) t = snd (group_decrypt E S (sender_key_name_of it chat sender) bytes t)"

definition group_history :: "itoa \<Rightarrow> sig_env \<Rightarrow> 's sender_key_ops \<Rightarrow> group_event list \<Rightarrow> 's \<Rightarrow> 's" where
  "group_history it E S evs t = fold (handle_group_event it E S) evs t"

end
