(* ===== verification/GroupDelivery.thy ===== *)
theory GroupDelivery
  imports GroupCipher "HOL-Library.Sublist"
begin

text \<open>Delivery of group messages: what a state that follows a sender's chain keeps and gives, and that messages
  of one sender are decrypted in any order, each once.\<close>

section \<open>Keys of a chain\<close>

definition chain_after :: "mac_prims \<Rightarrow> u8 list \<Rightarrow> nat \<Rightarrow> u8 list" where
  "chain_after M k n = ((\<lambda>k. hmac_sha256 M k [CHAIN_KEY_SEED]) ^^ n) k"

definition chain_seed :: "mac_prims \<Rightarrow> u8 list \<Rightarrow> nat \<Rightarrow> u8 list" where
  "chain_seed M k n = hmac_sha256 M (chain_after M k n) [MESSAGE_KEY_SEED]"

lemma chain_after_simps [simp]:
  "chain_after M k 0 = k"
  "hmac_sha256 M (chain_after M k n) [CHAIN_KEY_SEED] = chain_after M k (Suc n)"
  "hmac_sha256 M (chain_after M k n) [MESSAGE_KEY_SEED] = chain_seed M k n"
  by (simp_all add: chain_after_def chain_seed_def)

lemma length_chain:
  assumes "mac_prims_ok M"
  shows "length k = 32 \<Longrightarrow> length (chain_after M k n) = 32" "length (chain_seed M k n) = 32"
proof -
  have h: "length (hmac_sha256 M key x) = 32" for key x using assms by (simp add: mac_prims_ok_def)
  show "length k = 32 \<Longrightarrow> length (chain_after M k n) = 32" by (cases n) (simp_all add: chain_after_def h del: chain_after_simps)
  show "length (chain_seed M k n) = 32" by (simp add: chain_seed_def h del: chain_after_simps)
qed

lemma u32_of_nat:
  assumes "i < 2 ^ 32" "r < 2 ^ 32"
  shows "(of_nat i :: u32) < of_nat r \<longleftrightarrow> i < r" "(of_nat i :: u32) = of_nat r \<longleftrightarrow> i = r" "unat (of_nat i :: u32) = i"
    "r \<le> i \<Longrightarrow> unat (of_nat i - of_nat r :: u32) = i - r"
proof -
  have u: "unat (of_nat j :: u32) = j" if "j < 2 ^ 32" for j
    using that by (simp add: unat_of_nat take_bit_eq_mod)
  show "unat (of_nat i :: u32) = i" using u [OF assms(1)] .
  show "(of_nat i :: u32) < of_nat r \<longleftrightarrow> i < r"
    unfolding word_less_nat_alt u [OF assms(1)] u [OF assms(2)] ..
  show "(of_nat i :: u32) = of_nat r \<longleftrightarrow> i = r"
  proof
    assume "(of_nat i :: u32) = of_nat r"
    then have "unat (of_nat i :: u32) = unat (of_nat r :: u32)" by (rule arg_cong)
    then show "i = r" unfolding u [OF assms(1)] u [OF assms(2)] .
  qed simp
  assume "r \<le> i"
  then have "of_nat i - of_nat r = (of_nat (i - r) :: u32)" by (rule of_nat_diff [symmetric])
  then show "unat (of_nat i - of_nat r :: u32) = i - r" using u [of "i - r"] assms(1) by simp
qed

text \<open>\<open>message_key M k i\<close> is the key of the \<open>i\<close>-th message of a chain that starts with the key \<open>k\<close>.\<close>

definition message_key :: "mac_prims \<Rightarrow> u8 list \<Rightarrow> nat \<Rightarrow> nat \<Rightarrow> sender_message_key" where
  "message_key M k i0 i = projr (sender_message_key_new M (of_nat i) (chain_seed M k (i - i0)))"

lemma hkdf_expand_ok:
  assumes "mac_prims_ok M" "n \<le> 255 * 32"
  shows "\<exists>k. hkdf_expand M prk f n = Some k \<and> length k = n"
  using assms by (simp add: mac_prims_ok_def)

lemma sender_message_key_new_ok:
  assumes "mac_prims_ok M"
  shows "\<exists>k. sender_message_key_new M i seed = Inr k \<and> smk_iteration k = i \<and> smk_seed k = seed \<and>
    length (smk_iv k) = 16 \<and> length (smk_cipher_key k) = 32"
proof -
  obtain d where "hkdf_expand M (hkdf_extract M None seed) (lit ''WhisperGroup'') 48 = Some d" "length d = 48"
    using hkdf_expand_ok [OF assms, of 48] by auto
  then show ?thesis by (simp add: sender_message_key_new_def)
qed

lemma message_key_ok:
  assumes "mac_prims_ok M"
  shows "sender_message_key_new M (of_nat i) (chain_seed M k (i - i0)) = Inr (message_key M k i0 i)"
    "smk_iteration (message_key M k i0 i) = of_nat i" "smk_seed (message_key M k i0 i) = chain_seed M k (i - i0)"
    "length (smk_iv (message_key M k i0 i)) = 16" "length (smk_cipher_key (message_key M k i0 i)) = 32"
  using sender_message_key_new_ok [OF assms, of "of_nat i" "chain_seed M k (i - i0)"] by (auto simp: message_key_def)

definition chain_at :: "mac_prims \<Rightarrow> u8 list \<Rightarrow> nat \<Rightarrow> nat \<Rightarrow> sender_chain_key" where
  "chain_at M k i0 i = \<lparr>sck_iteration = of_nat i, sck_chain_key = chain_after M k (i - i0)\<rparr>"

lemma step_chain:
  assumes "mac_prims_ok M" "i0 \<le> i" "i < 2 ^ 32 - 1"
  shows "step_with_message_key M (chain_at M k i0 i) = Inr (message_key M k i0 i, chain_at M k i0 (Suc i))"
proof -
  have "unat (of_nat i :: u32) = i" using assms(3) by (intro u32_of_nat(3) [of i 0]) simp_all
  then have ne: "unat (sck_iteration (chain_at M k i0 i)) \<noteq> 2 ^ 32 - 1" using assms(3) by (simp add: chain_at_def)
  have "Suc i - i0 = Suc (i - i0)" using assms(2) by simp
  then have c: "\<lparr>sck_iteration = sck_iteration (chain_at M k i0 i) + 1, sck_chain_key = chain_after M k (Suc (i - i0))\<rparr> =
      chain_at M k i0 (Suc i)"
    by (simp add: chain_at_def)
  show ?thesis
    unfolding step_with_message_key_def if_not_P [OF ne] Let_def
    using message_key_ok(1) [OF assms(1), of i k i0] c by (simp add: chain_at_def)
qed

section \<open>Skipped keys\<close>

definition backlog :: "mac_prims \<Rightarrow> u8 list \<Rightarrow> nat \<Rightarrow> nat list \<Rightarrow> sender_message_key_pb list" where
  "backlog M k i0 B = map (\<lambda>i. sender_message_key_as_protobuf (message_key M k i0 i)) B"

definition push_all :: "'a list \<Rightarrow> 'a list \<Rightarrow> 'a list" where
  "push_all B new = fold (\<lambda>x xs. prune_message_keys (xs @ [x])) new B"

lemma prune_map: "prune_message_keys (map f xs) = map f (prune_message_keys xs)"
  by (simp add: prune_message_keys_def drop_map)

lemma prune_suffix: "suffix (prune_message_keys xs) xs"
  by (simp add: prune_message_keys_def suffix_drop)

lemma length_prune: "length (prune_message_keys xs) \<le> 2050"
  by (simp add: prune_message_keys_def MAX_MESSAGE_KEYS_def MESSAGE_KEY_PRUNE_THRESHOLD_def)

lemma push_all_simps [simp]: "push_all B [] = B" "push_all B (x # xs) = push_all (prune_message_keys (B @ [x])) xs"
  by (simp_all add: push_all_def)

lemma push_all_small: "length B + length new \<le> 2050 \<Longrightarrow> push_all B new = B @ new"
proof (induction new arbitrary: B)
  case (Cons x new)
  then have "prune_message_keys (B @ [x]) = B @ [x]"
    by (simp add: prune_message_keys_def MAX_MESSAGE_KEYS_def MESSAGE_KEY_PRUNE_THRESHOLD_def)
  with Cons show ?case by simp
qed simp

lemma push_all_suffix: "suffix (push_all B new) (B @ new)"
proof (induction new arbitrary: B)
  case (Cons x new)
  obtain p where "B @ [x] = p @ prune_message_keys (B @ [x])" using prune_suffix unfolding suffix_def by blast
  then have "suffix (prune_message_keys (B @ [x]) @ new) (B @ x # new)"
    unfolding suffix_def by (intro exI [of _ p]) (metis append.assoc append_Cons append_Nil)
  from suffix_order.trans [OF Cons.IH this] show ?case by simp
qed simp

lemma length_push_all: "length B \<le> 2050 \<Longrightarrow> length (push_all B new) \<le> 2050"
  by (induction new arbitrary: B) (simp_all add: length_prune)

lemma skip_message_keys_chain:
  assumes "mac_prims_ok M" "i0 \<le> r" "r + n < 2 ^ 32" "sks_message_keys st = backlog M k i0 B"
  shows "skip_message_keys M n (chain_at M k i0 r) st =
    (Inr (chain_at M k i0 (r + n)), st\<lparr>sks_message_keys := backlog M k i0 (push_all B [r..<r + n])\<rparr>)"
  using assms(2,3,4)
proof (induction n arbitrary: r B st)
  case (Suc n)
  let ?st = "add_sender_message_key (message_key M k i0 r) st" and ?B = "prune_message_keys (B @ [r])"
  have st: "sks_message_keys ?st = backlog M k i0 ?B"
    using Suc.prems(3) prune_map [of "\<lambda>i. sender_message_key_as_protobuf (message_key M k i0 i)" "B @ [r]"]
    by (simp add: add_sender_message_key_def backlog_def)
  have "skip_message_keys M (Suc n) (chain_at M k i0 r) st = skip_message_keys M n (chain_at M k i0 (Suc r)) ?st"
    using step_chain [OF assms(1) Suc.prems(1), of k] Suc.prems(2) by simp
  also have "\<dots> = (Inr (chain_at M k i0 (Suc r + n)), ?st\<lparr>sks_message_keys := backlog M k i0 (push_all ?B [Suc r..<Suc r + n])\<rparr>)"
    using Suc.prems(1,2) by (intro Suc.IH st) simp_all
  also have "push_all ?B [Suc r..<Suc r + n] = push_all B (r # [Suc r..<Suc r + n])" by simp
  also have "r # [Suc r..<Suc r + n] = [r..<r + Suc n]" by (subst upt_conv_Cons [of r]) simp_all
  finally show ?case by (simp add: add_sender_message_key_def)
qed (simp add: returnS_def)

section \<open>A state that follows a chain\<close>

text \<open>The state of chain \<open>cid\<close>, signed with \<open>pk\<close>, that has seen the chain from \<open>k\<close> at iteration \<open>i0\<close> up to
  iteration \<open>r\<close> and keeps the keys of the iterations \<open>B\<close>.\<close>

definition follows ::
    "mac_prims \<Rightarrow> u32 \<Rightarrow> public_key \<Rightarrow> u8 list \<Rightarrow> nat \<Rightarrow> nat \<Rightarrow> nat list \<Rightarrow> sender_key_state \<Rightarrow> bool" where
  "follows M cid pk k i0 r B st \<longleftrightarrow>
     sks_chain_id st = cid \<and> signing_key_public st = Inr pk \<and> sks_sender_chain_key st = Some (chain_at M k i0 r) \<and>
     sks_message_keys st = backlog M k i0 B \<and> ssp_sender_message_keys (sks_state st) = [] \<and>
     i0 \<le> r \<and> r < 2 ^ 32 \<and> distinct B \<and> (\<forall>i \<in> set B. i0 \<le> i \<and> i < r)"

lemma state_updates [simp]:
  "sks_chain_id (st\<lparr>sks_message_keys := B\<rparr>) = sks_chain_id st" "signing_key_public (st\<lparr>sks_message_keys := B\<rparr>) = signing_key_public st"
  "sks_sender_chain_key (st\<lparr>sks_message_keys := B\<rparr>) = sks_sender_chain_key st"
  "sks_chain_id (set_sender_chain_key c st) = sks_chain_id st" "signing_key_public (set_sender_chain_key c st) = signing_key_public st"
  "signing_key_private E (set_sender_chain_key c st) = signing_key_private E st"
  "sks_message_keys (set_sender_chain_key c st) = sks_message_keys st"
  "ssp_sender_message_keys (sks_state (set_sender_chain_key c st)) = ssp_sender_message_keys (sks_state st)"
  by (simp_all add: sks_chain_id_def signing_key_public_def signing_key_private_def sks_sender_chain_key_def set_sender_chain_key_def)

lemma sks_sender_chain_key_set [simp]:
  "length (sck_chain_key c) = 32 \<Longrightarrow> sks_sender_chain_key (set_sender_chain_key c st) = Some c"
  by (simp add: sks_sender_chain_key_def set_sender_chain_key_def sender_chain_key_as_protobuf_def)

lemma chain_at_length: "mac_prims_ok M \<Longrightarrow> length k = 32 \<Longrightarrow> length (sck_chain_key (chain_at M k i0 r)) = 32"
  by (simp add: chain_at_def length_chain)

lemma suffix_facts: "suffix xs ys \<Longrightarrow> set xs \<subseteq> set ys" "suffix xs ys \<Longrightarrow> distinct ys \<Longrightarrow> distinct xs"
  by (auto simp: suffix_def)

lemma get_sender_key_ahead:
  assumes M: "mac_prims_ok M" "length k = 32" and st: "follows M cid pk k i0 r B st"
    and i: "r \<le> i" "i - r \<le> MAX_FORWARD_JUMPS" "i < 2 ^ 32 - 1"
  shows "\<exists>st'. group_get_sender_key M (of_nat i) st = (Inr (message_key M k i0 i), st') \<and>
    follows M cid pk k i0 (Suc i) (push_all B [r..<i]) st'"
proof -
  let ?st = "st\<lparr>sks_message_keys := backlog M k i0 (push_all B [r..<i])\<rparr>"
  let ?st' = "set_sender_chain_key (chain_at M k i0 (Suc i)) ?st"
  have r: "i0 \<le> r" "r < 2 ^ 32" "sks_sender_chain_key st = Some (chain_at M k i0 r)" "sks_message_keys st = backlog M k i0 B"
    using st by (simp_all add: follows_def)
  have u: "\<not> (of_nat r > (of_nat i :: u32))" "unat (of_nat i - of_nat r :: u32) = i - r"
    using u32_of_nat(1) [of i r] u32_of_nat(4) [of i r] i(1,3) r(2) by auto
  have skip: "skip_message_keys M (i - r) (chain_at M k i0 r) st = (Inr (chain_at M k i0 i), ?st)"
  proof -
    have e: "r + (i - r) = i" using i(1) by (rule le_add_diff_inverse)
    have "r + (i - r) < 2 ^ 32" unfolding e using i(3) by simp
    from skip_message_keys_chain [OF M(1) r(1) this r(4)] show ?thesis unfolding e .
  qed
  have "group_get_sender_key M (of_nat i) st = (Inr (message_key M k i0 i), ?st')"
    using u i(2) r(3) step_chain [OF M(1), of i0 i k] r(1) i(1,3) skip
    by (simp add: group_get_sender_key_def Let_def chain_at_def [of M k i0 r] bindS_Inr returnS_def)
  moreover have "follows M cid pk k i0 (Suc i) (push_all B [r..<i]) ?st'"
  proof -
    have B: "distinct B" "\<And>j. j \<in> set B \<Longrightarrow> i0 \<le> j \<and> j < r" using st by (simp_all add: follows_def)
    have s: "set (push_all B [r..<i]) \<subseteq> set B \<union> {r..<i}"
      using suffix_facts(1) [OF push_all_suffix [of B "[r..<i]"]] by simp
    have "set B \<inter> {r..<i} = {}" using B(2) by force
    then have "distinct (B @ [r..<i])" using B(1) by simp
    then have d: "distinct (push_all B [r..<i])" by (rule suffix_facts(2) [OF push_all_suffix])
    have "i0 \<le> j \<and> j < Suc i" if j: "j \<in> set (push_all B [r..<i])" for j
    proof -
      from j s have "j \<in> set B \<or> r \<le> j \<and> j < i" by auto
      then show ?thesis using B(2) [of j] r(1) i(1) by auto
    qed
    with d show ?thesis
      using st i M by (simp add: follows_def chain_at_length)
  qed
  ultimately show ?thesis by blast
qed

definition other_iteration :: "nat \<Rightarrow> sender_message_key_pb \<Rightarrow> bool" where
  "other_iteration i x \<longleftrightarrow> or_default 0 (mkp_iteration x) \<noteq> of_nat i"

lemma other_iteration_backlog:
  assumes "mac_prims_ok M" "\<forall>j \<in> set B. j < 2 ^ 32" "i < 2 ^ 32" "i \<notin> set B"
  shows "\<forall>x \<in> set (backlog M k i0 B). other_iteration i x"
proof
  fix x assume "x \<in> set (backlog M k i0 B)"
  then obtain j where j: "j \<in> set B" "x = sender_message_key_as_protobuf (message_key M k i0 j)" by (auto simp: backlog_def)
  then have "j \<noteq> i" "j < 2 ^ 32" using assms(2,4) by auto
  then have "(of_nat j :: u32) \<noteq> of_nat i" using u32_of_nat(2) [of j i] assms(3) by simp
  then show "other_iteration i x"
    by (simp add: j(2) other_iteration_def sender_message_key_as_protobuf_def message_key_ok [OF assms(1)])
qed

lemma while_split:
  "\<forall>x \<in> set xs. P x \<Longrightarrow> \<not> P y \<Longrightarrow> dropWhile P (xs @ y # ys) = y # ys"
  "\<forall>x \<in> set xs. P x \<Longrightarrow> \<not> P y \<Longrightarrow> takeWhile P (xs @ y # ys) = xs"
  by (induction xs) simp_all

lemma backlog_search:
  assumes "mac_prims_ok M" "\<forall>j \<in> set B. j < 2 ^ 32" "i < 2 ^ 32"
  shows "i \<notin> set B \<Longrightarrow> dropWhile (other_iteration i) (backlog M k i0 B) = []"
    "i \<in> set B \<Longrightarrow> \<exists>rest. dropWhile (other_iteration i) (backlog M k i0 B) =
        sender_message_key_as_protobuf (message_key M k i0 i) # rest \<and>
      takeWhile (other_iteration i) (backlog M k i0 B) @ rest = backlog M k i0 (remove1 i B)"
proof -
  show "dropWhile (other_iteration i) (backlog M k i0 B) = []" if "i \<notin> set B"
    using other_iteration_backlog [OF assms that] by (simp add: dropWhile_eq_Nil_conv)
  assume "i \<in> set B"
  then obtain xs ys where B: "B = xs @ i # ys" "i \<notin> set xs" by (meson split_list_first)
  then have "remove1 i B = xs @ ys" by (simp add: remove1_append)
  moreover have "\<not> other_iteration i (sender_message_key_as_protobuf (message_key M k i0 i))"
    by (simp add: other_iteration_def sender_message_key_as_protobuf_def message_key_ok [OF assms(1)])
  moreover have "\<forall>x \<in> set (backlog M k i0 xs). other_iteration i x"
    using assms(2,3) B by (intro other_iteration_backlog [OF assms(1)]) auto
  moreover have "backlog M k i0 B = backlog M k i0 xs @ sender_message_key_as_protobuf (message_key M k i0 i) # backlog M k i0 ys"
    by (simp add: B backlog_def)
  ultimately show "\<exists>rest. dropWhile (other_iteration i) (backlog M k i0 B) =
        sender_message_key_as_protobuf (message_key M k i0 i) # rest \<and>
      takeWhile (other_iteration i) (backlog M k i0 B) @ rest = backlog M k i0 (remove1 i B)"
    by (intro exI [of _ "backlog M k i0 ys"]) (simp add: while_split, simp add: backlog_def)
qed

lemma remove_sender_message_key_alt:
  "remove_sender_message_key M (of_nat i) st =
     (case dropWhile (other_iteration i) (sks_message_keys st) of
        [] \<Rightarrow> (Inr None, st)
      | smk # rest \<Rightarrow>
          (mapR Some (sender_message_key_from_protobuf M smk),
           st\<lparr>sks_message_keys := takeWhile (other_iteration i) (sks_message_keys st) @ rest\<rparr>))"
  unfolding remove_sender_message_key_def Let_def other_iteration_def [abs_def] ..

lemma get_sender_key_behind:
  assumes M: "mac_prims_ok M" and st: "follows M cid pk k i0 r B st" and i: "i < r"
  shows "i \<in> set B \<Longrightarrow> \<exists>st'. group_get_sender_key M (of_nat i) st = (Inr (message_key M k i0 i), st') \<and>
      follows M cid pk k i0 r (remove1 i B) st'"
    "i \<notin> set B \<Longrightarrow> group_get_sender_key M (of_nat i) st = (Inl (Err (DuplicatedMessage (of_nat r) (of_nat i))), st)"
proof -
  have r: "r < 2 ^ 32" "sks_sender_chain_key st = Some (chain_at M k i0 r)" "sks_message_keys st = backlog M k i0 B"
      "distinct B" "\<forall>j \<in> set B. j < r"
    using st by (simp_all add: follows_def)
  have B: "\<forall>j \<in> set B. j < 2 ^ 32" using r(1,5) by auto
  have u: "of_nat r > (of_nat i :: u32)" "i < 2 ^ 32" using i r(1) u32_of_nat(1) [of i r] by simp_all
  have get: "group_get_sender_key M (of_nat i) st =
      bindS (remove_sender_message_key M (of_nat i)) (\<lambda>smk. liftS (ok_or smk (DuplicatedMessage (of_nat r) (of_nat i)))) st"
    using u(1) r(2) by (simp add: group_get_sender_key_def Let_def chain_at_def)
  show "group_get_sender_key M (of_nat i) st = (Inl (Err (DuplicatedMessage (of_nat r) (of_nat i))), st)" if "i \<notin> set B"
    by (simp add: get bindS_def liftS_def remove_sender_message_key_alt r(3) backlog_search(1) [OF M B u(2) that])
  assume iB: "i \<in> set B"
  then obtain rest where rest: "dropWhile (other_iteration i) (backlog M k i0 B) = sender_message_key_as_protobuf (message_key M k i0 i) # rest"
      "takeWhile (other_iteration i) (backlog M k i0 B) @ rest = backlog M k i0 (remove1 i B)"
    using backlog_search(2) [OF M B u(2)] by blast
  have "sender_message_key_from_protobuf M (sender_message_key_as_protobuf (message_key M k i0 i)) = Inr (message_key M k i0 i)"
    using message_key_ok(1) [OF M, of i k i0] length_chain(2) [OF M]
    by (simp add: sender_message_key_from_protobuf_def sender_message_key_as_protobuf_def message_key_ok(2-) [OF M] Let_def)
  then have "group_get_sender_key M (of_nat i) st = (Inr (message_key M k i0 i), st\<lparr>sks_message_keys := backlog M k i0 (remove1 i B)\<rparr>)"
    by (simp add: get bindS_def liftS_def remove_sender_message_key_alt r(3) rest)
  moreover have "follows M cid pk k i0 r (remove1 i B) (st\<lparr>sks_message_keys := backlog M k i0 (remove1 i B)\<rparr>)"
    using st by (auto simp: follows_def dest: notin_set_remove1)
  ultimately show "\<exists>st'. group_get_sender_key M (of_nat i) st = (Inr (message_key M k i0 i), st') \<and>
      follows M cid pk k i0 r (remove1 i B) st'"
    by blast
qed

section \<open>Messages of a chain\<close>

text \<open>The bytes \<open>m\<close> are message \<open>i\<close> of the chain, with plaintext \<open>p\<close>, signed by the owner of the chain.\<close>

definition message_of :: "sig_env \<Rightarrow> key_pair \<Rightarrow> u32 \<Rightarrow> u8 list \<Rightarrow> nat \<Rightarrow> nat \<Rightarrow> u8 list \<Rightarrow> u8 list \<Rightarrow> bool" where
  "message_of E kp cid k i0 i p m \<longleftrightarrow>
     (\<exists>ct nonce. aes_256_cbc_encrypt_into (sg_macs E) p (smk_cipher_key (message_key (sg_macs E) k i0 i))
          (smk_iv (message_key (sg_macs E) k i0 i)) [] = Inr ct \<and>
        m = skm_serialized (sender_key_message_new E 3 cid (of_nat i) ct nonce (kp_private kp)))"

lemma decrypt_message_of:
  assumes E: "sig_env_ok E" "key_pair_ok (sg_curve E) kp" and m: "message_of E kp cid k i0 i p m"
    and st: "signing_key_public st = Inr (kp_public kp)"
  shows "\<exists>skm. sender_key_message_try_from E m = Inr skm \<and> skm_chain_id skm = cid \<and> skm_iteration skm = of_nat i \<and>
    (\<forall>st'. group_get_sender_key (sg_macs E) (of_nat i) st = (Inr (message_key (sg_macs E) k i0 i), st') \<longrightarrow>
       decrypt_with_sender_key_state E skm st = (Inr p, st')) \<and>
    (\<forall>e st'. group_get_sender_key (sg_macs E) (of_nat i) st = (Inl e, st') \<longrightarrow>
       decrypt_with_sender_key_state E skm st = (Inl e, st'))"
proof -
  let ?key = "message_key (sg_macs E) k i0 i"
  obtain ct nonce where ct: "aes_256_cbc_encrypt_into (sg_macs E) p (smk_cipher_key ?key) (smk_iv ?key) [] = Inr ct"
    "m = skm_serialized (sender_key_message_new E 3 cid (of_nat i) ct nonce (kp_private kp))"
    using m unfolding message_of_def by blast
  let ?new = "sender_key_message_new E 3 cid (of_nat i) ct nonce (kp_private kp)"
  let ?skm = "?new\<lparr>skm_ciphertext_cache := Some ct\<rparr>"
  note M = sig_env_okD(2) [OF E(1)]
  have dec: "aes_256_cbc_decrypt_into (sg_macs E) ct (smk_cipher_key ?key) (smk_iv ?key) = Inr p"
    using cbc_into [OF M message_key_ok(5) [OF M, of k i0 i] message_key_ok(4) [OF M, of k i0 i], of p "[]"] ct(1) by auto
  have f: "skm_message_version ?skm = 3" "skm_chain_id ?skm = cid" "skm_iteration ?skm = of_nat i"
    by (simp_all add: sender_key_message_new_def Let_def)
  have v: "verify_signature_prepared E ?skm (kp_public kp) = Inr True" "sender_key_message_try_from E m = Inr ?skm"
    using sender_key_message_roundtrip [OF E refl] ct(2) by blast+
  have "decrypt_with_sender_key_state E ?skm st =
      bindS (group_get_sender_key (sg_macs E) (of_nat i)) (\<lambda>sender_key.
        bindS (liftS (Inr ct)) (\<lambda>ciphertext.
        liftS (mapE group_decrypt_error (aes_256_cbc_decrypt_into (sg_macs E) ciphertext (smk_cipher_key sender_key) (smk_iv sender_key))))) st"
    using v(1) st f by (simp add: decrypt_with_sender_key_state_def sks_message_version_def sender_key_message_ciphertext_def Let_def)
  then show ?thesis
    using v(2) f dec by (intro exI [of _ ?skm]) (simp add: bindS_def liftS_def)
qed

section \<open>Sending and receiving through a store\<close>

text \<open>Sending a list of plaintexts, each with its nonce, and receiving a list of messages, whatever becomes of each.\<close>

fun group_send ::
    "sig_env \<Rightarrow> 's sender_key_ops \<Rightarrow> sender_key_name \<Rightarrow> (u8 list \<times> u8 list) list \<Rightarrow> ('s, signal_error, u8 list list) meth" where
  "group_send E S n [] = returnS []"
| "group_send E S n ((p, nonce) # ps) =
     bindS (group_encrypt E S n p nonce) (\<lambda>m. bindS (group_send E S n ps) (\<lambda>ms. returnS (skm_serialized m # ms)))"

fun group_receive :: "sig_env \<Rightarrow> 's sender_key_ops \<Rightarrow> sender_key_name \<Rightarrow> u8 list list \<Rightarrow> 's \<Rightarrow> u8 list sres list \<times> 's" where
  "group_receive E S n [] t = ([], t)"
| "group_receive E S n (m # ms) t =
     (let (r, t) = group_decrypt E S n m t; (rs, t) = group_receive E S n ms t in (r # rs, t))"

definition sends :: "sig_env \<Rightarrow> key_pair \<Rightarrow> u32 \<Rightarrow> u8 list \<Rightarrow> nat \<Rightarrow> sender_key_record \<Rightarrow> bool" where
  "sends E kp cid k r rec \<longleftrightarrow>
     (\<exists>st rest. skr_states rec = st # rest \<and> storable rec \<and> follows (sg_macs E) cid (kp_public kp) k 0 r [] st \<and>
        signing_key_private E st = Inr (kp_private kp))"

text \<open>The record of a receiver: the messages below \<open>r\<close> that are not in \<open>D\<close> can still be decrypted.\<close>

definition receives :: "sig_env \<Rightarrow> key_pair \<Rightarrow> u32 \<Rightarrow> u8 list \<Rightarrow> nat \<Rightarrow> nat set \<Rightarrow> sender_key_record \<Rightarrow> bool" where
  "receives E kp cid k r D rec \<longleftrightarrow>
     (\<exists>st rest B. skr_states rec = st # rest \<and> storable rec \<and> follows (sg_macs E) cid (kp_public kp) k 0 r B st \<and>
        set B = {..<r} - D \<and> D \<subseteq> {..<r})"

lemma storable_update:
  "storable \<lparr>skr_states = st # rest\<rparr> \<Longrightarrow> ssp_sender_message_keys (sks_state st') = [] \<Longrightarrow> storable \<lparr>skr_states = st' # rest\<rparr>"
  by (simp add: storable_def)

context sender_key_store
begin

lemma encrypt_step:
  assumes E: "record_codec_ok C" "sig_env_ok E" "key_pair_ok (sg_curve E) kp" "length k = 32"
    and s: "recs s (skn_buf n) = Some rec" "sends E kp cid k r rec" "r < 2 ^ 32 - 1"
  shows "\<exists>m s' rec'. group_encrypt E S n p nonce s = (Inr m, s') \<and> message_of E kp cid k 0 r p (skm_serialized m) \<and>
    recs s' = (recs s)(skn_buf n := Some rec') \<and> sends E kp cid k (Suc r) rec'"
proof -
  let ?M = "sg_macs E" and ?key = "message_key (sg_macs E) k 0 r"
  note M = sig_env_okD(2) [OF E(2)]
  obtain st rest where st: "skr_states rec = st # rest" "storable rec" "follows ?M cid (kp_public kp) k 0 r [] st"
    "signing_key_private E st = Inr (kp_private kp)"
    using s(2) unfolding sends_def by blast
  let ?st = "set_sender_chain_key (chain_at ?M k 0 (Suc r)) st"
  obtain ct where ct: "aes_256_cbc_encrypt_into ?M p (smk_cipher_key ?key) (smk_iv ?key) [] = Inr ct"
    using cbc_into [OF M message_key_ok(5) [OF M, of k 0 r] message_key_ok(4) [OF M, of k 0 r], of p "[]"] by auto
  let ?m = "sender_key_message_new E 3 cid (of_nat r) ct nonce (kp_private kp)"
  have st': "follows ?M cid (kp_public kp) k 0 (Suc r) [] ?st"
    using st(3) s(3) by (simp add: follows_def chain_at_length [OF M E(4)])
  have sto: "storable \<lparr>skr_states = ?st # rest\<rparr>" using st(1,2) st' by (simp add: storable_def follows_def)
  obtain s' where s': "op_store_sender_key S n \<lparr>skr_states = ?st # rest\<rparr> s = (Inr (), s')"
    "recs s' = (recs s)(skn_buf n := Some \<lparr>skr_states = ?st # rest\<rparr>)"
    using store [OF E(1) sto] by blast
  have f: "sks_sender_chain_key st = Some (chain_at ?M k 0 r)" "sks_chain_id st = cid" using st(3) by (simp_all add: follows_def)
  have "group_encrypt E S n p nonce s = (Inr ?m, s')"
    using st(1,4) f step_chain [OF M le0 s(3), of k] ct s'(1) message_key_ok(2) [OF M, of k 0 r]
    by (simp add: group_encrypt_def bindS_Inr load [OF E(1) s(1) st(2)] Let_def sks_message_version_def returnS_def)
  moreover have "message_of E kp cid k 0 r p (skm_serialized ?m)" using ct unfolding message_of_def by blast
  moreover have "sends E kp cid k (Suc r) \<lparr>skr_states = ?st # rest\<rparr>" using st' sto st(4) by (simp add: sends_def)
  ultimately show ?thesis using s'(2) by blast
qed

lemma send_all:
  assumes E: "record_codec_ok C" "sig_env_ok E" "key_pair_ok (sg_curve E) kp" "length k = 32"
  shows "recs s (skn_buf n) = Some rec \<Longrightarrow> sends E kp cid k r rec \<Longrightarrow> r + length ps < 2 ^ 32 \<Longrightarrow>
    \<exists>ms s' rec'. group_send E S n ps s = (Inr ms, s') \<and> length ms = length ps \<and>
      (\<forall>j < length ps. message_of E kp cid k 0 (r + j) (fst (ps ! j)) (ms ! j)) \<and>
      recs s' (skn_buf n) = Some rec' \<and> sends E kp cid k (r + length ps) rec'"
proof (induction ps arbitrary: s rec r)
  case Nil
  then show ?case by (simp add: returnS_def)
next
  case (Cons q ps)
  obtain p nonce where q: "q = (p, nonce)" by fastforce
  obtain m s1 rec1 where 1: "group_encrypt E S n p nonce s = (Inr m, s1)" "message_of E kp cid k 0 r p (skm_serialized m)"
    "recs s1 = (recs s)(skn_buf n := Some rec1)" "sends E kp cid k (Suc r) rec1"
    using encrypt_step [OF E Cons.prems(1,2)] Cons.prems(3) by fastforce
  have "recs s1 (skn_buf n) = Some rec1" "Suc r + length ps < 2 ^ 32" using 1(3) Cons.prems(3) by simp_all
  from Cons.IH [OF this(1) 1(4) this(2)] obtain ms s' rec' where 2: "group_send E S n ps s1 = (Inr ms, s')" "length ms = length ps"
    "\<forall>j < length ps. message_of E kp cid k 0 (Suc r + j) (fst (ps ! j)) (ms ! j)"
    "recs s' (skn_buf n) = Some rec'" "sends E kp cid k (Suc r + length ps) rec'"
    by blast
  have "message_of E kp cid k 0 (r + j) (fst ((q # ps) ! j)) ((skm_serialized m # ms) ! j)" if "j < Suc (length ps)" for j
    using that 1(2) 2(3) q by (cases j) simp_all
  moreover have "group_send E S n (q # ps) s = (Inr (skm_serialized m # ms), s')"
    using 1(1) 2(1) by (simp add: q bindS_Inr returnS_def)
  ultimately show ?case using 2 by (intro exI [of _ "skm_serialized m # ms"]) simp
qed

lemma decrypt_step:
  assumes E: "record_codec_ok C" "sig_env_ok E" "key_pair_ok (sg_curve E) kp" "length k = 32"
    and t: "recs t (skn_buf n) = Some rec" "receives E kp cid k r D rec" and m: "message_of E kp cid k 0 j p m"
    and j: "j < 2000" "r \<le> 2000"
  shows "j \<notin> D \<Longrightarrow> \<exists>t' rec'. group_decrypt E S n m t = (Inr p, t') \<and> recs t' = (recs t)(skn_buf n := Some rec') \<and>
      receives E kp cid k (max r (Suc j)) (insert j D) rec'"
    "j \<in> D \<Longrightarrow> group_decrypt E S n m t = (Inl (Err (DuplicatedMessage (of_nat r) (of_nat j))), t)"
proof -
  let ?M = "sg_macs E"
  note M = sig_env_okD(2) [OF E(2)]
  obtain st rest B where st: "skr_states rec = st # rest" "storable rec" "follows ?M cid (kp_public kp) k 0 r B st"
    "set B = {..<r} - D" "D \<subseteq> {..<r}"
    using t(2) unfolding receives_def by blast
  have f: "sks_chain_id st = cid" "signing_key_public st = Inr (kp_public kp)" "distinct B" using st(3) by (simp_all add: follows_def)
  obtain skm where skm: "sender_key_message_try_from E m = Inr skm" "skm_chain_id skm = cid"
    "\<And>st'. group_get_sender_key ?M (of_nat j) st = (Inr (message_key ?M k 0 j), st') \<Longrightarrow> decrypt_with_sender_key_state E skm st = (Inr p, st')"
    "\<And>e st'. group_get_sender_key ?M (of_nat j) st = (Inl e, st') \<Longrightarrow> decrypt_with_sender_key_state E skm st = (Inl e, st')"
    using decrypt_message_of [OF E(2,3) m f(2)] by blast
  have run: "group_decrypt E S n m t = (let (result, st') = decrypt_with_sender_key_state E skm st in
      bindS (liftS result) (\<lambda>plaintext. bindS (op_store_sender_key S n \<lparr>skr_states = st' # rest\<rparr>) (\<lambda>_. returnS plaintext)) t)"
    using skm(1,2) f(1) st(1) by (simp add: group_decrypt_def bindS_Inr load [OF E(1) t(1) st(2)] split_def Let_def)
  show "group_decrypt E S n m t = (Inl (Err (DuplicatedMessage (of_nat r) (of_nat j))), t)" if "j \<in> D"
  proof -
    have "j < r" "j \<notin> set B" using that st(4,5) by auto
    then show ?thesis using get_sender_key_behind(2) [OF M st(3)] skm(4) by (simp add: run liftS_def)
  qed
  assume jD: "j \<notin> D"
  have "\<exists>st' B'. group_get_sender_key ?M (of_nat j) st = (Inr (message_key ?M k 0 j), st') \<and>
      follows ?M cid (kp_public kp) k 0 (max r (Suc j)) B' st' \<and> set B' = {..<max r (Suc j)} - insert j D"
  proof (cases "j < r")
    case True
    then have "j \<in> set B" using jD st(4) by simp
    with get_sender_key_behind(1) [OF M st(3) True] obtain st' where
      "group_get_sender_key ?M (of_nat j) st = (Inr (message_key ?M k 0 j), st')" "follows ?M cid (kp_public kp) k 0 r (remove1 j B) st'"
      by blast
    moreover have "set (remove1 j B) = {..<r} - insert j D" using f(3) st(4) by auto
    ultimately show ?thesis using True by (metis Suc_leI max.absorb1)
  next
    case False
    have "length B = card (set B)" using f(3) by (simp add: distinct_card)
    also have "\<dots> \<le> card {..<r}" using st(4) by (intro card_mono) auto
    finally have "length B + length [r..<j] \<le> 2050" using False j by simp
    then have new: "push_all B [r..<j] = B @ [r..<j]" by (rule push_all_small)
    have "r \<le> j" "j - r \<le> MAX_FORWARD_JUMPS" "j < 2 ^ 32 - 1" using False j by (simp_all add: MAX_FORWARD_JUMPS_def)
    from get_sender_key_ahead [OF M E(4) st(3) this] obtain st' where
      "group_get_sender_key ?M (of_nat j) st = (Inr (message_key ?M k 0 j), st')"
      "follows ?M cid (kp_public kp) k 0 (Suc j) (B @ [r..<j]) st'"
      unfolding new by blast
    moreover have "set (B @ [r..<j]) = {..<Suc j} - insert j D" using st(4,5) False by auto
    moreover have "max r (Suc j) = Suc j" using False by simp
    ultimately show ?thesis by metis
  qed
  then obtain st' B' where st': "group_get_sender_key ?M (of_nat j) st = (Inr (message_key ?M k 0 j), st')"
      "follows ?M cid (kp_public kp) k 0 (max r (Suc j)) B' st'" "set B' = {..<max r (Suc j)} - insert j D"
    by blast
  have sto: "storable \<lparr>skr_states = st' # rest\<rparr>" using st(1,2) st'(2) by (simp add: storable_def follows_def)
  obtain t' where t': "op_store_sender_key S n \<lparr>skr_states = st' # rest\<rparr> t = (Inr (), t')"
    "recs t' = (recs t)(skn_buf n := Some \<lparr>skr_states = st' # rest\<rparr>)"
    using store [OF E(1) sto] by blast
  have "receives E kp cid k (max r (Suc j)) (insert j D) \<lparr>skr_states = st' # rest\<rparr>"
    using st'(2,3) sto st(5) unfolding receives_def by (intro exI [of _ st'] exI [of _ rest] exI [of _ B']) auto
  with t' skm(3) [OF st'(1)] show "\<exists>t' rec'. group_decrypt E S n m t = (Inr p, t') \<and> recs t' = (recs t)(skn_buf n := Some rec') \<and>
      receives E kp cid k (max r (Suc j)) (insert j D) rec'"
    by (intro exI [of _ t'] exI [of _ "\<lparr>skr_states = st' # rest\<rparr>"]) (simp add: run bindS_Inr returnS_def)
qed

lemma receive_all:
  assumes E: "record_codec_ok C" "sig_env_ok E" "key_pair_ok (sg_curve E) kp" "length k = 32"
    and ms: "N \<le> 2000" "\<And>j. j < N \<Longrightarrow> message_of E kp cid k 0 j (p j) (ms j)"
  shows "recs t (skn_buf n) = Some rec \<Longrightarrow> receives E kp cid k r D rec \<Longrightarrow> r \<le> N \<Longrightarrow>
    distinct order \<Longrightarrow> set order \<subseteq> {..<N} - D \<Longrightarrow>
    \<exists>t' rec' r'. group_receive E S n (map ms order) t = (map (\<lambda>j. Inr (p j)) order, t') \<and>
      recs t' (skn_buf n) = Some rec' \<and> receives E kp cid k r' (D \<union> set order) rec' \<and> r' \<le> N"
proof (induction order arbitrary: t rec r D)
  case (Cons j order)
  then have j: "j < N" "j \<notin> D" "j < 2000" "r \<le> 2000" using ms(1) by auto
  obtain t1 rec1 where 1: "group_decrypt E S n (ms j) t = (Inr (p j), t1)" "recs t1 = (recs t)(skn_buf n := Some rec1)"
    "receives E kp cid k (max r (Suc j)) (insert j D) rec1"
    using decrypt_step(1) [OF E Cons.prems(1,2) ms(2) [OF j(1)] j(3,4,2)] by blast
  have "recs t1 (skn_buf n) = Some rec1" "max r (Suc j) \<le> N" "distinct order" "set order \<subseteq> {..<N} - insert j D"
    using 1(2) j(1) Cons.prems by auto
  from Cons.IH [OF this(1) 1(3) this(2-4)] obtain t' rec' r' where 2: "group_receive E S n (map ms order) t1 = (map (\<lambda>j. Inr (p j)) order, t')"
    "recs t' (skn_buf n) = Some rec'" "receives E kp cid k r' (insert j D \<union> set order) rec'" "r' \<le> N"
    by blast
  then show ?case using 1(1) by (intro exI [of _ t'] exI [of _ rec'] exI [of _ r']) simp
qed auto

lemma create_step:
  assumes E: "record_codec_ok C" "sig_env_ok E" "length k = 32" "length rnd = 32" and s: "fresh s (skn_buf n)"
  shows "\<exists>skdm s' rec. create_sender_key_distribution_message E S n random_id k rnd s = (Inr skdm, s') \<and>
    skdm = sender_key_distribution_message_new E 3 (drop_bit 1 random_id) 0 k (kp_public (key_pair_generate (sg_curve E) rnd)) \<and>
    recs s' (skn_buf n) = Some rec \<and> sends E (key_pair_generate (sg_curve E) rnd) (drop_bit 1 random_id) k 0 rec"
proof -
  let ?kp = "key_pair_generate (sg_curve E) rnd" and ?cid = "drop_bit 1 random_id :: u32"
  note curve = sig_env_okD(1) [OF E(2)]
  have kp: "key_pair_ok (sg_curve E) ?kp" by (rule key_pair_generate_ok [OF curve E(4)])
  obtain st where st: "sender_key_state_new ?cid 0 k (kp_public ?kp) (Some (kp_private ?kp)) = Inr st"
    "follows (sg_macs E) ?cid (kp_public ?kp) k 0 0 [] st" "signing_key_private E st = Inr (kp_private ?kp)"
    using E(3) public_key_of_serialize [OF key_pair_public_ok [OF curve kp]] private_key_reserialize [OF kp]
    by (simp add: sender_key_state_new_def follows_def sks_chain_id_def signing_key_public_def public_key_of_def signing_key_private_def
        sks_sender_chain_key_def sender_chain_key_as_protobuf_def chain_at_def backlog_def)
  have add: "add_sender_key_state ?cid 0 k (kp_public ?kp) (Some (kp_private ?kp)) sender_key_record_empty = Inr \<lparr>skr_states = [st]\<rparr>"
    using st(1) by (simp add: add_sender_key_state_def remove_state_def remove_states_with_chain_id_def sender_key_record_empty_def Let_def)
  have sto: "storable \<lparr>skr_states = [st]\<rparr>" using st(2) by (simp add: storable_def follows_def)
  obtain s' where s': "op_store_sender_key S n \<lparr>skr_states = [st]\<rparr> s = (Inr (), s')"
    "recs s' = (recs s)(skn_buf n := Some \<lparr>skr_states = [st]\<rparr>)"
    using store [OF E(1) sto] by blast
  have "build_skdm_from_record E \<lparr>skr_states = [st]\<rparr> = Inr (sender_key_distribution_message_new E 3 ?cid 0 k (kp_public ?kp))"
    using st(2) by (simp add: build_skdm_from_record_def record_sender_key_state_def follows_def chain_at_def sks_message_version_def)
  then have "create_sender_key_distribution_message E S n random_id k rnd s =
      (Inr (sender_key_distribution_message_new E 3 ?cid 0 k (kp_public ?kp)), s')"
    using add s'(1) by (simp add: create_sender_key_distribution_message_def bindS_Inr load_fresh [OF s] Let_def returnS_def)
  moreover have "sends E ?kp ?cid k 0 \<lparr>skr_states = [st]\<rparr>" using st sto by (simp add: sends_def)
  ultimately show ?thesis using s'(2) by simp
qed

lemma process_step:
  assumes E: "record_codec_ok C" "sig_env_ok E" "length k = 32" "key_pair_ok (sg_curve E) kp" and t: "fresh t (skn_buf n)"
    and d: "skdm = sender_key_distribution_message_new E 3 cid 0 k (kp_public kp)"
  shows "\<exists>t' rec. process_sender_key_distribution_message S n skdm t = (Inr (), t') \<and>
    recs t' (skn_buf n) = Some rec \<and> receives E kp cid k 0 {} rec"
proof -
  note curve = sig_env_okD(1) [OF E(2)]
  obtain st where st: "sender_key_state_new cid 0 k (kp_public kp) None = Inr st" "follows (sg_macs E) cid (kp_public kp) k 0 0 [] st"
    using E(3) public_key_of_serialize [OF key_pair_public_ok [OF curve E(4)]]
    by (simp add: sender_key_state_new_def follows_def sks_chain_id_def signing_key_public_def public_key_of_def
        sks_sender_chain_key_def sender_chain_key_as_protobuf_def chain_at_def backlog_def)
  have add: "add_sender_key_state cid 0 k (kp_public kp) None sender_key_record_empty = Inr \<lparr>skr_states = [st]\<rparr>"
    using st(1) by (simp add: add_sender_key_state_def remove_state_def remove_states_with_chain_id_def sender_key_record_empty_def Let_def)
  have sto: "storable \<lparr>skr_states = [st]\<rparr>" using st(2) by (simp add: storable_def follows_def)
  obtain t' where t': "op_store_sender_key S n \<lparr>skr_states = [st]\<rparr> t = (Inr (), t')"
    "recs t' = (recs t)(skn_buf n := Some \<lparr>skr_states = [st]\<rparr>)"
    using store [OF E(1) sto] by blast
  have "process_sender_key_distribution_message S n skdm t = (Inr (), t')"
    using add t'(1) by (simp add: d sender_key_distribution_message_new_def process_sender_key_distribution_message_def bindS_Inr
        load_fresh [OF t] Let_def)
  moreover have "receives E kp cid k 0 {} \<lparr>skr_states = [st]\<rparr>"
    unfolding receives_def using st(2) sto by (intro exI [of _ st] exI [of _ "[]"]) simp
  ultimately show ?thesis using t'(2) by simp
qed

end

end
