(* ===== verification/DeviceStore.thy ===== *)
theory DeviceStore
  imports GroupDelivery MemStore
begin

text \<open>The sender key store of a device (src/store/signal.rs): records are kept as bytes by the backend, here the
  in-memory one, under the buffer of their name.\<close>

definition store_sender_key :: "record_codec \<Rightarrow> sender_key_name \<Rightarrow> sender_key_record \<Rightarrow> (in_memory_state, signal_error, unit) meth" where
  "store_sender_key C sender_key_name record =
     (let serialized_record = rc_encode C (sender_key_record_as_protobuf record)
      in (\<lambda>s. let (r, s) = put_sender_key (skn_buf sender_key_name) serialized_record s
              in (mapE (\<lambda>_. BackendError (lit ''store_sender_key'')) r, s)))"

definition load_sender_key :: "record_codec \<Rightarrow> sender_key_name \<Rightarrow> (in_memory_state, signal_error, sender_key_record option) meth" where
  "load_sender_key C sender_key_name =
     bindS (\<lambda>s. let (r, s) = get_sender_key (skn_buf sender_key_name) s in (mapE (\<lambda>_. BackendError (lit ''load_sender_key'')) r, s)) (\<lambda>found.
     case found of
       Some data \<Rightarrow>
         bindS (liftS (sender_key_record_deserialize (rc_decode C) data)) (\<lambda>record.
         returnS (if rc_encode C (sender_key_record_as_protobuf record) = [] then None else Some record))
     | None \<Rightarrow> returnS None)"

definition device_sender_keys :: "record_codec \<Rightarrow> in_memory_state sender_key_ops" where
  "device_sender_keys C = \<lparr>op_load_sender_key = load_sender_key C, op_store_sender_key = store_sender_key C\<rparr>"

definition device_records :: "record_codec \<Rightarrow> in_memory_state \<Rightarrow> str \<Rightarrow> sender_key_record option" where
  "device_records C s buf =
     (case map_of (im_sender_keys s) buf of
        None \<Rightarrow> None
      | Some data \<Rightarrow> (case sender_key_record_deserialize (rc_decode C) data of Inr r \<Rightarrow> Some r | Inl _ \<Rightarrow> None))"

definition no_sender_key :: "in_memory_state \<Rightarrow> str \<Rightarrow> bool" where
  "no_sender_key s buf \<longleftrightarrow> map_of (im_sender_keys s) buf = None"

interpretation dev: sender_key_store C "device_sender_keys C" "device_records C" no_sender_key for C
proof
  show "op_load_sender_key (device_sender_keys C) n s = (Inr (Some r), s)"
    if "record_codec_ok C" "device_records C s (skn_buf n) = Some r" "storable r" for s n r
    using that
    by (auto simp: device_sender_keys_def device_records_def load_sender_key_def get_sender_key_def readM_def bindS_def liftS_def
        returnS_def sender_key_record_as_protobuf_def record_codec_ok_def storable_def split: option.splits sum.splits)
  show "op_load_sender_key (device_sender_keys C) n s = (Inr None, s)" if "no_sender_key s (skn_buf n)" for s n
    using that by (simp add: no_sender_key_def device_sender_keys_def load_sender_key_def get_sender_key_def readM_def bindS_def returnS_def)
  show "\<exists>s'. op_store_sender_key (device_sender_keys C) n r s = (Inr (), s') \<and>
      device_records C s' = (device_records C s)(skn_buf n := Some r) \<and> (\<forall>b. b \<noteq> skn_buf n \<longrightarrow> no_sender_key s' b = no_sender_key s b)"
    if "record_codec_ok C" "storable r" for n r s
    using storable_roundtrip(1) [OF that]
    by (auto simp: device_sender_keys_def store_sender_key_def put_sender_key_def modifyS_def device_records_def fun_eq_iff
        Let_def update_conv' no_sender_key_def)
qed

end
