(* ===== verification/GroupSafety.thy ===== *)
theory GroupSafety
  imports GroupReceive DeviceStore
begin

text \<open>What holds of group decryption whatever bytes arrive: no iteration of a chain is accepted twice, and the number of
  kept keys is bounded.  The properties of group messages.\<close>

definition kept :: "sender_key_state \<Rightarrow> u32 list" where
  "kept st = map (\<lambda>x. or_default 0 (mkp_iteration x)) (sks_message_keys st)"

definition state_inv :: "sender_key_state \<Rightarrow> bool" where
  "state_inv st \<longleftrightarrow> distinct (kept st) \<and> length (kept st) \<le> 2050 \<and> ssp_sender_message_keys (sks_state st) = [] \<and>
     (\<forall>c. sks_sender_chain_key st = Some c \<longrightarrow> (\<forall>i \<in> set (kept st). i < sck_iteration c))"

text \<open>The key of the iteration was used or given up.\<close>

definition spent :: "sender_key_state \<Rightarrow> u32 \<Rightarrow> bool" where
  "spent st i \<longleftrightarrow> (\<exists>c. sks_sender_chain_key st = Some c \<and> i < sck_iteration c \<and> i \<notin> set (kept st))"

lemma step_with_message_key_facts:
  assumes "mac_prims_ok M" "step_with_message_key M c = Inr (key, c')"
  shows "smk_iteration key = sck_iteration c" "unat (sck_iteration c') = Suc (unat (sck_iteration c))" "length (sck_chain_key c') = 32"
proof -
  have ne: "unat (sck_iteration c) \<noteq> 2 ^ 32 - 1"
    using assms(2) by (auto simp: step_with_message_key_def split: if_splits)
  obtain k where k: "sender_message_key_new M (sck_iteration c) (hmac_sha256 M (sck_chain_key c) [MESSAGE_KEY_SEED]) = Inr k"
    "smk_iteration k = sck_iteration c"
    using sender_message_key_new_ok [OF assms(1)] by blast
  have e: "key = k" "c' = \<lparr>sck_iteration = sck_iteration c + 1, sck_chain_key = hmac_sha256 M (sck_chain_key c) [CHAIN_KEY_SEED]\<rparr>"
    using assms(2) k(1) unfolding step_with_message_key_def if_not_P [OF ne] by (simp_all add: Let_def)
  show "smk_iteration key = sck_iteration c" using e(1) k(2) by simp
  show "length (sck_chain_key c') = 32" using assms(1) e(2) by (simp add: mac_prims_ok_def)
  have "unat (sck_iteration c) < 2 ^ 32 - 1" using ne unsigned_less [of "sck_iteration c", where 'a = nat] by simp
  then show "unat (sck_iteration c') = Suc (unat (sck_iteration c))" unfolding e(2) by (simp add: unat_word_ariths)
qed

lemma add_sender_message_key_facts:
  "kept (add_sender_message_key k st) = prune_message_keys (kept st @ [smk_iteration k])"
  "sks_sender_chain_key (add_sender_message_key k st) = sks_sender_chain_key st"
  "sks_chain_id (add_sender_message_key k st) = sks_chain_id st"
  "signing_key_public (add_sender_message_key k st) = signing_key_public st"
  "ssp_sender_message_keys (sks_state (add_sender_message_key k st)) = ssp_sender_message_keys (sks_state st)"
  by (simp_all add: kept_def add_sender_message_key_def prune_map [symmetric] sender_message_key_as_protobuf_def)

lemma skip_message_keys_safe:
  assumes "mac_prims_ok M"
  shows "skip_message_keys M n c st = (Inr c', st') \<Longrightarrow> length (kept st) \<le> 2050 \<Longrightarrow> length (sck_chain_key c) = 32 \<Longrightarrow>
    \<exists>new. unat (sck_iteration c') = unat (sck_iteration c) + n \<and> length (sck_chain_key c') = 32 \<and>
      suffix (kept st') (kept st @ new) \<and> distinct new \<and> set new = {i. sck_iteration c \<le> i \<and> i < sck_iteration c'} \<and>
      length (kept st') \<le> 2050 \<and> sks_sender_chain_key st' = sks_sender_chain_key st \<and> sks_chain_id st' = sks_chain_id st \<and>
      signing_key_public st' = signing_key_public st \<and> ssp_sender_message_keys (sks_state st') = ssp_sender_message_keys (sks_state st)"
proof (induction n arbitrary: c st)
  case 0
  then show ?case by (intro exI [of _ "[]"]) (auto simp: returnS_def)
next
  case (Suc n)
  then obtain key c1 where 1: "step_with_message_key M c = Inr (key, c1)"
    by (auto simp: bindS_def liftS_def split: prod.splits sum.splits)
  note f = step_with_message_key_facts [OF assms 1]
  let ?st = "add_sender_message_key key st"
  have r: "skip_message_keys M n c1 ?st = (Inr c', st')" using Suc.prems(1) 1 by simp
  have len: "length (kept ?st) \<le> 2050" by (simp add: add_sender_message_key_facts length_prune)
  obtain new where new: "unat (sck_iteration c') = unat (sck_iteration c1) + n" "length (sck_chain_key c') = 32"
    "suffix (kept st') (kept ?st @ new)" "distinct new" "set new = {i. sck_iteration c1 \<le> i \<and> i < sck_iteration c'}"
    "length (kept st') \<le> 2050" "sks_sender_chain_key st' = sks_sender_chain_key ?st" "sks_chain_id st' = sks_chain_id ?st"
    "signing_key_public st' = signing_key_public ?st" "ssp_sender_message_keys (sks_state st') = ssp_sender_message_keys (sks_state ?st)"
    using Suc.IH [OF r len f(3)] by blast
  let ?new = "sck_iteration c # new"
  obtain p where p: "kept st @ [sck_iteration c] = p @ kept ?st"
    using prune_suffix [of "kept st @ [sck_iteration c]"] unfolding suffix_def by (auto simp: add_sender_message_key_facts f(1))
  have "kept st @ ?new = p @ kept ?st @ new" using p by (metis append.assoc append_Cons append_Nil)
  then have "suffix (kept ?st @ new) (kept st @ ?new)" by (auto simp: suffix_def)
  then have s: "suffix (kept st') (kept st @ ?new)" using new(3) suffix_order.trans by blast
  have "set ?new = {i. sck_iteration c \<le> i \<and> i < sck_iteration c'}"
  proof -
    have "x \<in> set ?new \<longleftrightarrow> sck_iteration c \<le> x \<and> x < sck_iteration c'" for x
      unfolding new(5) list.set insert_iff mem_Collect_eq word_le_nat_alt word_less_nat_alt word_unat_eq_iff f(2) new(1) by auto
    then show ?thesis by blast
  qed
  moreover have "sck_iteration c \<notin> set new" unfolding new(5) by (simp add: word_le_nat_alt f(2))
  ultimately show ?case
    using new f(2) s by (intro exI [of _ ?new]) (simp add: add_sender_message_key_facts)
qed


lemma sks_sender_chain_key_length: "sks_sender_chain_key st = Some c \<Longrightarrow> length (sck_chain_key c) = 32"
  by (auto simp: sks_sender_chain_key_def Let_def split: option.splits if_splits)

lemma kept_set [simp]: "kept (set_sender_chain_key c st) = kept st"
  by (simp add: kept_def)

text \<open>A key is given out only for an iteration that is not spent, and it is spent afterwards.\<close>

definition key_given :: "sender_key_state \<Rightarrow> u32 \<Rightarrow> sender_key_state \<Rightarrow> bool" where
  "key_given st i st' \<longleftrightarrow> \<not> spent st i \<and> spent st' i \<and> (\<forall>j. spent st j \<longrightarrow> spent st' j) \<and> state_inv st' \<and> sks_chain_id st' = sks_chain_id st"

lemma remove_sender_message_key_kept:
  assumes "remove_sender_message_key M i st = (Inr (Some key), st')" "distinct (kept st)"
  shows "i \<in> set (kept st)" "distinct (kept st')" "set (kept st') = set (kept st) - {i}" "length (kept st') \<le> length (kept st)"
    "sks_state st' = sks_state st"
proof -
  let ?other = "\<lambda>x. or_default 0 (mkp_iteration x) \<noteq> i"
  obtain x rest where x: "dropWhile ?other (sks_message_keys st) = x # rest"
    "st' = st\<lparr>sks_message_keys := takeWhile ?other (sks_message_keys st) @ rest\<rparr>"
    using assms(1) by (auto simp: remove_sender_message_key_def Let_def split: list.splits)
  have i: "or_default 0 (mkp_iteration x) = i" using x(1) by (simp add: dropWhile_eq_Cons_conv)
  define before where "before = takeWhile ?other (sks_message_keys st)"
  have "sks_message_keys st = before @ x # rest"
    using takeWhile_dropWhile_id [of ?other "sks_message_keys st"] unfolding x(1) before_def by simp
  then have e: "kept st = map (\<lambda>x. or_default 0 (mkp_iteration x)) before @ i # map (\<lambda>x. or_default 0 (mkp_iteration x)) rest"
    using i by (simp add: kept_def)
  have e': "kept st' = map (\<lambda>x. or_default 0 (mkp_iteration x)) before @ map (\<lambda>x. or_default 0 (mkp_iteration x)) rest"
    by (simp add: kept_def x(2) before_def)
  show "i \<in> set (kept st)" "sks_state st' = sks_state st" by (simp add: e, simp add: x(2))
  show "distinct (kept st')" "length (kept st') \<le> length (kept st)" using assms(2) unfolding e e' by simp_all
  show "set (kept st') = set (kept st) - {i}" using assms(2) unfolding e e' by auto
qed

lemma group_get_sender_key_safe:
  assumes M: "mac_prims_ok M" and st: "state_inv st" and run: "group_get_sender_key M i st = (Inr key, st')"
  shows "key_given st i st'"
proof -
  obtain c where c: "sks_sender_chain_key st = Some c"
    using run by (cases "sks_sender_chain_key st") (simp_all add: group_get_sender_key_def)
  note len = sks_sender_chain_key_length [OF c]
  have inv: "distinct (kept st)" "length (kept st) \<le> 2050" "ssp_sender_message_keys (sks_state st) = []"
      "\<And>j. j \<in> set (kept st) \<Longrightarrow> j < sck_iteration c"
    using st c by (auto simp: state_inv_def)
  show ?thesis
  proof (cases "sck_iteration c > i")
    case True
    then have "bindS (remove_sender_message_key M i) (\<lambda>smk. liftS (ok_or smk (DuplicatedMessage (sck_iteration c) i))) st = (Inr key, st')"
      using run c by (simp add: group_get_sender_key_def Let_def)
    then have "remove_sender_message_key M i st = (Inr (Some key), st')"
      by (auto simp: bindS_def liftS_def split: prod.splits sum.splits option.splits) (auto simp: ok_or_def split: option.splits)
    note r = remove_sender_message_key_kept [OF this inv(1)]
    have "sks_sender_chain_key st' = Some c" "sks_chain_id st' = sks_chain_id st"
      using r(5) c by (simp_all add: sks_sender_chain_key_def sks_chain_id_def)
    then show ?thesis using r inv c True by (auto simp: key_given_def spent_def state_inv_def)
  next
    case False
    define n where "n = unat (i - sck_iteration c)"
    have i: "unat i = unat (sck_iteration c) + n"
      using False unfolding n_def by (simp add: unat_sub_if' word_less_nat_alt)
    obtain c1 st1 c2 where s: "skip_message_keys M n c st = (Inr c1, st1)" "step_with_message_key M c1 = Inr (key, c2)"
      "st' = set_sender_chain_key c2 st1"
      using run c False
      by (auto simp: group_get_sender_key_def Let_def n_def [symmetric] bindS_def liftS_def modifyS_def returnS_def getS_def
          split: if_splits prod.splits sum.splits)
    obtain new where new: "unat (sck_iteration c1) = unat (sck_iteration c) + n" "suffix (kept st1) (kept st @ new)" "distinct new"
      "set new = {j. sck_iteration c \<le> j \<and> j < sck_iteration c1}" "length (kept st1) \<le> 2050" "sks_chain_id st1 = sks_chain_id st"
      "ssp_sender_message_keys (sks_state st1) = []"
      using skip_message_keys_safe [OF M s(1) inv(2) len] inv(3) by auto
    note f = step_with_message_key_facts [OF M s(2)]
    have c1: "sck_iteration c1 = i" using new(1) i by (simp add: word_unat_eq_iff)
    have c': "sks_sender_chain_key st' = Some c2" "kept st' = kept st1" using s(3) f(3) by simp_all
    have k: "set (kept st1) \<subseteq> set (kept st) \<union> {j. sck_iteration c \<le> j \<and> j < i}" using suffix_facts(1) [OF new(2)] new(4) c1 by auto
    have d: "distinct (kept st1)"
      using inv(1,4) new(3,4) by (intro suffix_facts(2) [OF new(2)]) fastforce
    have lt: "j < sck_iteration c2" if "j \<le> i" for j using that f(2) c1 by (simp add: word_less_nat_alt word_le_nat_alt)
    have below: "j \<le> i" if "j < sck_iteration c" for j using that False by simp
    have "i \<notin> set (kept st)" "\<not> i < sck_iteration c" using inv(4) [of i] False by auto
    then have 1: "\<not> spent st i" using c by (simp add: spent_def)
    have "i \<notin> set (kept st1)" using k inv(4) [of i] False by auto
    then have 2: "spent st' i" using c' lt [of i] by (simp add: spent_def)
    have 3: "spent st' j" if "spent st j" for j
    proof -
      have j: "j < sck_iteration c" "j \<notin> set (kept st)" using that c by (auto simp: spent_def)
      then have "j \<notin> set (kept st1)" using k by auto
      then show ?thesis using c' lt [OF below [OF j(1)]] by (simp add: spent_def)
    qed
    have "j < sck_iteration c2" if "j \<in> set (kept st1)" for j
      using that k inv(4) [of j] below [of j] by (intro lt) auto
    then have "state_inv st'" using c' d new(5,7) s(3) by (simp add: state_inv_def)
    then show ?thesis using 1 2 3 new(6) s(3) by (simp add: key_given_def)
  qed
qed

lemma decrypt_with_sender_key_state_safe:
  assumes "sig_env_ok E" "state_inv st" "decrypt_with_sender_key_state E skm st = (Inr p, st')"
  shows "key_given st (skm_iteration skm) st'"
proof -
  obtain key where "group_get_sender_key (sg_macs E) (skm_iteration skm) st = (Inr key, st')"
    using assms(3) by (auto simp: decrypt_with_sender_key_state_def Let_def bindS_def liftS_def getS_def split: if_splits prod.splits sum.splits)
  with group_get_sender_key_safe [OF sig_env_okD(2) [OF assms(1)] assms(2)] show ?thesis .
qed

section \<open>Records\<close>

definition record_inv :: "sender_key_record \<Rightarrow> bool" where
  "record_inv r \<longleftrightarrow> storable r \<and> length (skr_states r) \<le> 5 \<and> distinct (map sks_chain_id (skr_states r)) \<and>
     (\<forall>st \<in> set (skr_states r). state_inv st)"

definition spent_in :: "sender_key_record \<Rightarrow> u32 \<Rightarrow> u32 \<Rightarrow> bool" where
  "spent_in r cid i \<longleftrightarrow> (\<exists>st \<in> set (skr_states r). sks_chain_id st = cid \<and> spent st i)"

definition accepted_in :: "sender_key_record \<Rightarrow> sender_key_message \<Rightarrow> sender_key_record \<Rightarrow> bool" where
  "accepted_in r skm r' \<longleftrightarrow> record_inv r' \<and> \<not> spent_in r (skm_chain_id skm) (skm_iteration skm) \<and>
     spent_in r' (skm_chain_id skm) (skm_iteration skm) \<and> (\<forall>cid i. spent_in r cid i \<longrightarrow> spent_in r' cid i)"

lemma record_update_accepted:
  assumes inv: "record_inv r" and r: "skr_states r = pre @ st # post" and st: "key_given st i st'" and skm: "skm_chain_id skm = sks_chain_id st" "skm_iteration skm = i"
  shows "accepted_in r skm \<lparr>skr_states = pre @ st' # post\<rparr>"
proof -
  have f: "\<not> spent st i" "spent st' i" "\<And>j. spent st j \<Longrightarrow> spent st' j" "state_inv st'" "sks_chain_id st' = sks_chain_id st"
    using st by (simp_all add: key_given_def)
  have "ssp_sender_message_keys (sks_state st') = []" using f(4) by (simp add: state_inv_def)
  then have "record_inv \<lparr>skr_states = pre @ st' # post\<rparr>"
    using inv f(4,5) unfolding record_inv_def storable_def r by auto
  moreover have "\<not> spent_in r (sks_chain_id st) i"
    using inv f(1) unfolding record_inv_def spent_in_def r by (auto simp: rev_image_eqI)
  moreover have "spent_in \<lparr>skr_states = pre @ st' # post\<rparr> cid j" if "spent_in r cid j" for cid j
    using that f(3,5) unfolding spent_in_def r by auto
  moreover have "spent_in \<lparr>skr_states = pre @ st' # post\<rparr> (sks_chain_id st) i"
    using f(2,5) unfolding spent_in_def by auto
  ultimately show ?thesis using skm by (simp add: accepted_in_def)
qed

lemma remove_state_split:
  "remove_state cid pk states = (None, states) \<or>
   (\<exists>pre st post. states = pre @ st # post \<and> signed_by cid pk st \<and> remove_state cid pk states = (Some st, pre @ post))"
proof (cases "dropWhile (\<lambda>st. \<not> signed_by cid pk st) states")
  case Nil
  show ?thesis unfolding remove_state_def Let_def Nil by simp
next
  case (Cons st rest)
  let ?pre = "takeWhile (\<lambda>st. \<not> signed_by cid pk st) states"
  have "states = ?pre @ st # rest" by (metis Cons takeWhile_dropWhile_id)
  moreover have "signed_by cid pk st" using Cons by (simp add: dropWhile_eq_Cons_conv)
  moreover have "remove_state cid pk states = (Some st, ?pre @ rest)" using Cons unfolding remove_state_def Let_def by simp
  ultimately show ?thesis by blast
qed

lemma add_sender_key_state_inv:
  assumes r: "\<forall>st \<in> set (skr_states r). state_inv st" "distinct (map sks_chain_id (skr_states r))"
    and run: "add_sender_key_state cid it k pk sk r = Inr r'"
  shows "record_inv r'"
proof -
  obtain old states where o: "remove_state cid pk (skr_states r) = (old, states)" by fastforce
  have old: "sks_chain_id st = cid \<and> state_inv st" if "old = Some st" for st
    using remove_state_split [of cid pk "skr_states r"] o that r(1) by (auto simp: signed_by_def)
  have states: "set states \<subseteq> set (skr_states r)" "distinct (map sks_chain_id states)"
    using remove_state_split [of cid pk "skr_states r"] o r(2) by auto
  let ?kept = "take (MAX_SENDER_KEY_STATES - 1) (remove_states_with_chain_id cid states)"
  obtain st where st: "r' = \<lparr>skr_states = st # ?kept\<rparr>" "sks_chain_id st = cid" "state_inv st"
    using run o old
    by (auto simp: add_sender_key_state_def Let_def sender_key_state_new_def sks_chain_id_def state_inv_def kept_def split: option.splits if_splits)
  have "distinct (map sks_chain_id (filter (\<lambda>st. sks_chain_id st \<noteq> cid) states))" using states(2) distinct_map_filter by blast
  then have "distinct (map sks_chain_id ?kept)"
    by (simp add: remove_states_with_chain_id_def take_map [symmetric] distinct_take)
  moreover have "set ?kept \<subseteq> set (skr_states r)" "\<forall>x \<in> set ?kept. sks_chain_id x \<noteq> cid"
    using states by (auto simp: remove_states_with_chain_id_def dest!: in_set_takeD)
  ultimately show ?thesis
    using st r(1) by (auto simp: record_inv_def storable_def state_inv_def MAX_SENDER_KEY_STATES_def)
qed

text \<open>A distributed key that makes a record forget a chain: the chain comes with another signing key, or it is the sixth chain.\<close>

definition drops_chain :: "sender_key_record \<Rightarrow> u32 \<Rightarrow> sender_key_distribution_message \<Rightarrow> bool" where
  "drops_chain r cid skdm \<longleftrightarrow>
     skd_chain_id skdm = cid \<and> (\<forall>st \<in> set (skr_states r). sks_chain_id st = cid \<longrightarrow> signing_key_public st \<noteq> Inr (skd_signing_key skdm)) \<or>
     skd_chain_id skdm \<notin> sks_chain_id ` set (skr_states r) \<and> length (skr_states r) = 5"

lemma add_sender_key_state_keeps:
  assumes inv: "record_inv r" and st: "st \<in> set (skr_states r)"
    and run: "add_sender_key_state (skd_chain_id skdm) it k (skd_signing_key skdm) sk r = Inr r'"
    and kept: "\<not> drops_chain r (sks_chain_id st) skdm"
  shows "st \<in> set (skr_states r')"
proof -
  let ?cid = "skd_chain_id skdm" and ?pk = "skd_signing_key skdm"
  have dist: "distinct (map sks_chain_id (skr_states r))" and len: "length (skr_states r) \<le> 5" using inv by (simp_all add: record_inv_def)
  have one: "x = y" if "x \<in> set (skr_states r)" "y \<in> set (skr_states r)" "sks_chain_id x = sks_chain_id y" for x y
    using dist that by (simp add: distinct_map inj_on_def)
  show ?thesis
  proof (cases "\<exists>x \<in> set (skr_states r). signed_by ?cid ?pk x")
    case True
    then obtain pre x post where x: "skr_states r = pre @ x # post" "signed_by ?cid ?pk x"
        "remove_state ?cid ?pk (skr_states r) = (Some x, pre @ post)"
      using remove_state_split [of ?cid ?pk "skr_states r"] by (auto simp: remove_state_def Let_def split: list.splits)
    have "length (pre @ post) \<le> 4" using len x(1) by simp
    moreover have "filter (\<lambda>st. sks_chain_id st \<noteq> ?cid) (pre @ post) = pre @ post"
      unfolding filter_id_conv using dist x(1,2) by (auto simp: signed_by_def rev_image_eqI)
    ultimately have "skr_states r' = x # pre @ post"
      using run x(3) by (auto simp: add_sender_key_state_def Let_def remove_states_with_chain_id_def MAX_SENDER_KEY_STATES_def)
    then show ?thesis using st x(1) by auto
  next
    case False
    then have none: "remove_state ?cid ?pk (skr_states r) = (None, skr_states r)"
      using remove_state_split [of ?cid ?pk "skr_states r"] by auto
    have other: "sks_chain_id st \<noteq> ?cid" using kept False st one by (auto simp: drops_chain_def signed_by_def)
    let ?rest = "filter (\<lambda>st. sks_chain_id st \<noteq> ?cid) (skr_states r)"
    have "length ?rest \<le> 4"
    proof (cases "?cid \<in> sks_chain_id ` set (skr_states r)")
      case True
      then have "length ?rest < length (skr_states r)" by (auto intro!: length_filter_less)
      then show ?thesis using len by simp
    next
      case False
      then have "length (skr_states r) \<noteq> 5" using kept by (simp add: drops_chain_def)
      then have "length (skr_states r) \<le> 4" using len by simp
      then show ?thesis using length_filter_le [of "\<lambda>st. sks_chain_id st \<noteq> ?cid" "skr_states r"] by linarith
    qed
    then have "set ?rest \<subseteq> set (skr_states r')"
      using run none by (auto simp: add_sender_key_state_def Let_def remove_states_with_chain_id_def MAX_SENDER_KEY_STATES_def)
    then show ?thesis using st other by auto
  qed
qed

section \<open>Histories\<close>

text \<open>The chain and the iteration in the header of a message.\<close>

definition message_header :: "sig_env \<Rightarrow> u8 list \<Rightarrow> (u32 \<times> u32) option" where
  "message_header E m = (case sender_key_message_try_from E m of Inr skm \<Rightarrow> Some (skm_chain_id skm, skm_iteration skm) | Inl _ \<Rightarrow> None)"

text \<open>No distributed key among the events drops the chain from the record under the buffer.\<close>

fun chain_kept ::
    "itoa \<Rightarrow> sig_env \<Rightarrow> 's sender_key_ops \<Rightarrow> ('s \<Rightarrow> str \<Rightarrow> sender_key_record option) \<Rightarrow> str \<Rightarrow> u32 \<Rightarrow> group_event list \<Rightarrow> 's \<Rightarrow> bool" where
  "chain_kept it E S recs b cid [] t = True"
| "chain_kept it E S recs b cid (ev # evs) t =
     ((case ev of
         Distribution chat sender bytes \<Rightarrow>
           skn_buf (sender_key_name_of it chat sender) = b \<longrightarrow>
           (case (distributed E bytes, recs t b) of (Inr (Some skdm), Some r) \<Rightarrow> \<not> drops_chain r cid skdm | _ \<Rightarrow> True)
       | GroupMessage _ _ _ \<Rightarrow> True) \<and>
      chain_kept it E S recs b cid evs (handle_group_event it E S ev t))"

context sender_key_store
begin

text \<open>Nothing is stored under the name, or a record that is in order.\<close>

definition orderly :: "'s \<Rightarrow> str \<Rightarrow> bool" where
  "orderly t b \<longleftrightarrow> fresh t b \<or> (\<exists>r. recs t b = Some r \<and> record_inv r)"

lemma decrypt_safe:
  assumes E: "record_codec_ok C" "sig_env_ok E" and t: "recs t (skn_buf n) = Some r" "record_inv r"
    and run: "group_decrypt E S n m t = (res, t')"
  shows "(\<exists>e. res = Inl e \<and> t' = t) \<or>
    (\<exists>p skm r'. res = Inr p \<and> sender_key_message_try_from E m = Inr skm \<and> recs t' = (recs t)(skn_buf n := Some r') \<and>
       accepted_in r skm r' \<and> (\<forall>b. b \<noteq> skn_buf n \<longrightarrow> fresh t' b = fresh t b))"
proof (cases "sender_key_message_try_from E m")
  case (Inl e)
  then show ?thesis using run by (auto simp: group_decrypt_def bindS_def liftS_def)
next
  case (Inr skm)
  let ?other = "\<lambda>st. sks_chain_id st \<noteq> skm_chain_id skm"
  have sto: "storable r" using t(2) by (simp add: record_inv_def)
  note ld = load [OF E(1) t(1) sto]
  show ?thesis
  proof (cases "dropWhile ?other (skr_states r)")
    case Nil
    have "group_decrypt E S n m t = (Inl (Err (no_chain (skm_chain_id skm) r)), t)"
      unfolding group_decrypt_def Let_def Inr
      by (simp add: bindS_Inr [of "op_load_sender_key S n", OF ld] liftS_def bindS_def ld Nil del: dropWhile_eq_Nil_conv)
    then show ?thesis using run by simp
  next
    case (Cons st rest)
    let ?pre = "takeWhile ?other (skr_states r)"
    have r: "skr_states r = ?pre @ st # rest" by (metis Cons takeWhile_dropWhile_id)
    have cid: "skm_chain_id skm = sks_chain_id st" using Cons by (simp add: dropWhile_eq_Cons_conv)
    obtain result st' where d: "decrypt_with_sender_key_state E skm st = (result, st')" by fastforce
    have g: "group_decrypt E S n m t =
        bindS (liftS result) (\<lambda>plaintext. bindS (op_store_sender_key S n \<lparr>skr_states = ?pre @ st' # rest\<rparr>) (\<lambda>_. returnS plaintext)) t"
      using Inr Cons d by (simp add: group_decrypt_def bindS_def liftS_def ld Let_def)
    show ?thesis
    proof (cases result)
      case (Inl e)
      then show ?thesis using g run by (simp add: liftS_def bindS_def)
    next
      case (Inr p)
      have "st \<in> set (skr_states r)" by (subst r) simp
      then have "state_inv st" using t(2) by (simp add: record_inv_def)
      from decrypt_with_sender_key_state_safe [OF E(2) this d [unfolded Inr]]
      have a: "accepted_in r skm \<lparr>skr_states = ?pre @ st' # rest\<rparr>" by (rule record_update_accepted [OF t(2) r _ cid refl])
      then have "storable \<lparr>skr_states = ?pre @ st' # rest\<rparr>" by (simp add: accepted_in_def record_inv_def)
      then obtain t1 where "op_store_sender_key S n \<lparr>skr_states = ?pre @ st' # rest\<rparr> t = (Inr (), t1)"
        "recs t1 = (recs t)(skn_buf n := Some \<lparr>skr_states = ?pre @ st' # rest\<rparr>)" "\<forall>b. b \<noteq> skn_buf n \<longrightarrow> fresh t1 b = fresh t b"
        using store [OF E(1)] by blast
      moreover then have "res = Inr p" "t' = t1" using g run Inr by (simp_all add: bindS_def liftS_def returnS_def)
      ultimately show ?thesis using a \<open>sender_key_message_try_from E m = Inr skm\<close> by blast
    qed
  qed
qed

lemma decrypt_cases:
  assumes C: "record_codec_ok C" "sig_env_ok E" and t: "\<And>b. orderly t b" and run: "group_decrypt E S n m t = (res, t')"
  shows "(\<exists>e. res = Inl e \<and> t' = t) \<or>
    (\<exists>p skm r r'. res = Inr p \<and> sender_key_message_try_from E m = Inr skm \<and> recs t (skn_buf n) = Some r \<and> record_inv r \<and>
       recs t' = (recs t)(skn_buf n := Some r') \<and> accepted_in r skm r' \<and> (\<forall>b. b \<noteq> skn_buf n \<longrightarrow> fresh t' b = fresh t b))"
proof (cases "\<exists>r. recs t (skn_buf n) = Some r \<and> record_inv r")
  case True
  then obtain r where r: "recs t (skn_buf n) = Some r" "record_inv r" by blast
  from decrypt_safe [OF C r run] r show ?thesis by blast
next
  case False
  then have "fresh t (skn_buf n)" using t [of "skn_buf n"] unfolding orderly_def by blast
  then have "\<exists>e. group_decrypt E S n m t = (Inl e, t)"
    by (cases "sender_key_message_try_from E m") (auto simp: group_decrypt_def bindS_def liftS_def load_fresh ok_or_def)
  then show ?thesis using run by auto
qed

lemma decrypt_orderly:
  assumes "record_codec_ok C" "sig_env_ok E" "\<And>b. orderly t b"
  shows "orderly (snd (group_decrypt E S n m t)) b"
proof -
  obtain res t' where "group_decrypt E S n m t = (res, t')" by fastforce
  with decrypt_cases [OF assms this] assms(3) [of b] show ?thesis
    by (cases "b = skn_buf n") (auto simp: orderly_def accepted_in_def)
qed

text \<open>A distributed key is refused, or the new record is stored; it is made from the one that was there.\<close>

lemma process_cases:
  assumes C: "record_codec_ok C" and t: "\<And>b. orderly t b" and run: "process_sender_key_distribution_message S n skdm t = (res, t')"
  shows "t' = t \<or> (\<exists>r r'. add_sender_key_state (skd_chain_id skdm) (skd_iteration skdm) (skd_chain_key skdm) (skd_signing_key skdm) None r = Inr r' \<and>
      (\<forall>r0. recs t (skn_buf n) = Some r0 \<longrightarrow> record_inv r0 \<longrightarrow> r = r0) \<and> record_inv r' \<and>
      recs t' = (recs t)(skn_buf n := Some r') \<and> (\<forall>b. b \<noteq> skn_buf n \<longrightarrow> fresh t' b = fresh t b))"
proof -
  obtain r loaded where l: "op_load_sender_key S n t = (Inr loaded, t)" "or_default sender_key_record_empty loaded = r"
      "\<forall>st \<in> set (skr_states r). state_inv st" "distinct (map sks_chain_id (skr_states r))"
      "\<forall>r0. recs t (skn_buf n) = Some r0 \<longrightarrow> record_inv r0 \<longrightarrow> r = r0"
  proof (cases "\<exists>r0. recs t (skn_buf n) = Some r0 \<and> record_inv r0")
    case True
    then obtain r0 where r0: "recs t (skn_buf n) = Some r0" "record_inv r0" by blast
    then have "op_load_sender_key S n t = (Inr (Some r0), t)" using load [OF C r0(1)] by (simp add: record_inv_def)
    then show ?thesis using r0 by (intro that [of "Some r0" r0]) (simp_all add: record_inv_def)
  next
    case False
    then have "op_load_sender_key S n t = (Inr None, t)" using t [of "skn_buf n"] load_fresh unfolding orderly_def by blast
    then show ?thesis using False by (intro that [of None sender_key_record_empty]) (simp_all add: sender_key_record_empty_def)
  qed
  let ?add = "add_sender_key_state (skd_chain_id skdm) (skd_iteration skdm) (skd_chain_key skdm) (skd_signing_key skdm) None r"
  have p: "process_sender_key_distribution_message S n skdm t = bindS (liftS ?add) (op_store_sender_key S n) t"
    by (simp add: process_sender_key_distribution_message_def bindS_Inr [of "op_load_sender_key S n", OF l(1)] l(2) Let_def)
  show ?thesis
  proof (cases ?add)
    case (Inl e)
    then show ?thesis using p run by (simp add: liftS_def)
  next
    case (Inr r')
    then have inv: "record_inv r'" by (rule add_sender_key_state_inv [OF l(3,4)])
    then have "storable r'" by (simp add: record_inv_def)
    then obtain t1 where "op_store_sender_key S n r' t = (Inr (), t1)" "recs t1 = (recs t)(skn_buf n := Some r')"
      "\<forall>b. b \<noteq> skn_buf n \<longrightarrow> fresh t1 b = fresh t b"
      using store [OF C] by blast
    moreover from this(1) have "t' = t1" using p run Inr by simp
    ultimately show ?thesis using l(5) inv Inr by blast
  qed
qed

lemma process_orderly:
  assumes "record_codec_ok C" "\<And>b. orderly t b"
  shows "orderly (snd (process_sender_key_distribution_message S n skdm t)) b"
proof -
  obtain res t' where "process_sender_key_distribution_message S n skdm t = (res, t')" by fastforce
  with process_cases [OF assms this] assms(2) [of b] show ?thesis by (cases "b = skn_buf n") (auto simp: orderly_def)
qed

lemma handle_distribution:
  "snd (handle_sender_key_distribution_message it E S chat sender bytes t) =
     (case distributed E bytes of
        Inr (Some skdm) \<Rightarrow> snd (process_sender_key_distribution_message S (sender_key_name_of it chat sender) skdm t)
      | _ \<Rightarrow> t)"
  by (auto simp: handle_sender_key_distribution_message_def bindS_def liftS_def returnS_def
      split: sum.split option.split prod.split fault.split)

lemma event_orderly:
  assumes "record_codec_ok C" "sig_env_ok E" "\<And>b. orderly t b"
  shows "orderly (handle_group_event it E S ev t) b"
  using process_orderly [OF assms(1,3)] decrypt_orderly [OF assms] assms(3)
  by (cases ev) (auto simp: handle_distribution split: sum.split option.split)

lemma history_orderly:
  assumes "record_codec_ok C" "sig_env_ok E" "\<And>b. orderly t b"
  shows "orderly (group_history it E S evs t) b"
  using assms(3) unfolding group_history_def
proof (induction evs arbitrary: t)
  case (Cons ev evs)
  then show ?case using event_orderly [OF assms(1,2)] by simp
qed simp

text \<open>A spent iteration stays spent with every event that does not drop its chain.\<close>

lemma spent_kept:
  assumes C: "record_codec_ok C" and E: "sig_env_ok E"
  shows "(\<And>b. orderly t b) \<Longrightarrow> recs t b = Some r \<Longrightarrow> record_inv r \<Longrightarrow> spent_in r cid i \<Longrightarrow> chain_kept it E S recs b cid evs t \<Longrightarrow>
    \<exists>r'. recs (group_history it E S evs t) b = Some r' \<and> record_inv r' \<and> spent_in r' cid i"
proof (induction evs arbitrary: t r)
  case (Cons ev evs)
  let ?t = "handle_group_event it E S ev t"
  have "\<exists>r'. recs ?t b = Some r' \<and> record_inv r' \<and> spent_in r' cid i"
  proof (cases ev)
    case (Distribution chat sender bytes)
    let ?n = "sender_key_name_of it chat sender"
    show ?thesis
    proof (cases "distributed E bytes")
      case (Inr skdm)
      show ?thesis
      proof (cases skdm)
        case (Some d)
        obtain res t' where run: "process_sender_key_distribution_message S ?n d t = (res, t')" by fastforce
        have t': "?t = t'" using Inr Some run by (simp add: Distribution handle_distribution)
        from process_cases [OF C Cons.prems(1) run] consider "t' = t" | r0 r' where
          "add_sender_key_state (skd_chain_id d) (skd_iteration d) (skd_chain_key d) (skd_signing_key d) None r0 = Inr r'"
          "\<forall>r1. recs t (skn_buf ?n) = Some r1 \<longrightarrow> record_inv r1 \<longrightarrow> r0 = r1" "record_inv r'" "recs t' = (recs t)(skn_buf ?n := Some r')"
          by blast
        then show ?thesis
        proof cases
          case 1
          then show ?thesis using t' Cons.prems by auto
        next
          case 2
          show ?thesis
          proof (cases "skn_buf ?n = b")
            case True
            have r0: "r0 = r" using 2(2) Cons.prems(2,3) True by blast
            obtain st where st: "st \<in> set (skr_states r)" "sks_chain_id st = cid" "spent st i" using Cons.prems(4) by (auto simp: spent_in_def)
            have "\<not> drops_chain r (sks_chain_id st) d" using Cons.prems(2,5) Inr Some True st(2) by (simp add: Distribution)
            then have "st \<in> set (skr_states r')" by (rule add_sender_key_state_keeps [OF Cons.prems(3) st(1) 2(1) [unfolded r0]])
            then have "spent_in r' cid i" using st by (auto simp: spent_in_def)
            then show ?thesis using 2(3,4) True t' by auto
          next
            case False
            then show ?thesis using 2(4) Cons.prems t' by auto
          qed
        qed
      qed (use Cons.prems Inr in \<open>simp add: Distribution handle_distribution\<close>)
    qed (use Cons.prems in \<open>simp add: Distribution handle_distribution\<close>)
  next
    case (GroupMessage chat sender m)
    let ?n = "sender_key_name_of it chat sender"
    obtain res t' where run: "group_decrypt E S ?n m t = (res, t')" by fastforce
    then have t': "?t = t'" by (simp add: GroupMessage)
    from decrypt_cases [OF C E Cons.prems(1) run] show ?thesis
    proof (elim disjE exE conjE)
      assume "t' = t"
      then show ?thesis using t' Cons.prems by auto
    next
      fix p skm r0 r' assume a: "recs t (skn_buf ?n) = Some r0" "recs t' = (recs t)(skn_buf ?n := Some r')" "accepted_in r0 skm r'"
      show ?thesis
        using a t' Cons.prems(2-4) by (cases "skn_buf ?n = b") (auto simp: accepted_in_def)
    qed
  qed
  then obtain r' where "recs ?t b = Some r'" "record_inv r'" "spent_in r' cid i" by blast
  from Cons.IH [OF _ this] event_orderly [OF C E Cons.prems(1)] Cons.prems(5) show ?case by (simp add: group_history_def)
qed (simp add: group_history_def)

lemma no_replay:
  assumes C: "record_codec_ok C" and E: "sig_env_ok E" and t: "\<And>b. orderly t b"
    and run: "group_decrypt E S n m t = (Inr p, t')" and header: "message_header E m = Some (cid, i)" "message_header E m' = Some (cid, i)"
    and n': "skn_buf n' = skn_buf n" and kept: "chain_kept it E S recs (skn_buf n) cid evs t'"
  shows "\<exists>e. group_decrypt E S n' m' (group_history it E S evs t') = (Inl e, group_history it E S evs t')"
proof -
  obtain skm r r' where a: "sender_key_message_try_from E m = Inr skm" "recs t' = (recs t)(skn_buf n := Some r')" "accepted_in r skm r'"
    using decrypt_cases [OF C E t run] by blast
  have o: "orderly t' b" for b using decrypt_orderly [OF C E t, of n m b] run by simp
  have "recs t' (skn_buf n) = Some r'" "record_inv r'" "spent_in r' cid i" using a header(1) by (simp_all add: accepted_in_def message_header_def)
  from spent_kept [OF C E o this kept] obtain r1 where r1: "recs (group_history it E S evs t') (skn_buf n) = Some r1" "spent_in r1 cid i"
    by blast
  obtain res t1 where d: "group_decrypt E S n' m' (group_history it E S evs t') = (res, t1)" by fastforce
  from decrypt_cases [OF C E history_orderly [OF C E o] d] r1 header(2) n' d show ?thesis
    by (auto simp: accepted_in_def message_header_def)
qed

end

section \<open>Properties\<close>

text \<open>C3: Group messages are delivered, in any order and each once.  A sender without a sender key creates
  one and sends up to two thousand messages; a receiver without a key for the sender takes the distribution message from a
  device of the sender.  Then creating, sending and storing succeed, and whichever of the messages arrive under the sender's
  JID, with or without its device, in whatever order, each is decrypted to the plaintext that was sent; every message that
  arrives again is refused as a duplicate and changes nothing.  Both sides keep their records as bytes in the store
  of the device.\<close>

theorem group_messages_delivered:
  assumes E: "sig_env_ok E" "record_codec_ok C" "length k = 32" "length rnd = 32"
    and s: "no_sender_key s (skn_buf n)" and t: "no_sender_key t (skn_buf (sender_key_name_of it chat sender))"
    and j: "to_non_ad device = to_non_ad sender"
    and ps: "length ps \<le> 2000" and order: "distinct order" "set order \<subseteq> {..<length ps}"
  defines "S \<equiv> device_sender_keys C" and "m \<equiv> sender_key_name_of it chat sender"
  shows "\<exists>skdm s1 ms s2 t1 t2. create_sender_key_distribution_message E S n random_id k rnd s = (Inr skdm, s1) \<and>
    group_send E S n ps s1 = (Inr ms, s2) \<and> length ms = length ps \<and>
    handle_sender_key_distribution_message it E S chat device (skd_serialized skdm) t = (Inr (), t1) \<and>
    group_receive E S m (map ((!) ms) order) t1 = (map (\<lambda>j. Inr (fst (ps ! j))) order, t2) \<and>
    (\<forall>j \<in> set order. \<exists>i. group_decrypt E S m (ms ! j) t2 = (Inl (Err (DuplicatedMessage i (of_nat j))), t2))"
proof -
  let ?kp = "key_pair_generate (sg_curve E) rnd" and ?cid = "drop_bit 1 random_id :: u32"
  have kp: "key_pair_ok (sg_curve E) ?kp" by (rule key_pair_generate_ok [OF sig_env_okD(1) [OF E(1)] E(4)])
  obtain skdm s1 rec where c: "create_sender_key_distribution_message E S n random_id k rnd s = (Inr skdm, s1)"
    "skdm = sender_key_distribution_message_new E 3 ?cid 0 k (kp_public ?kp)"
    "device_records C s1 (skn_buf n) = Some rec" "sends E ?kp ?cid k 0 rec"
    using dev.create_step [OF E(2,1,3,4) s, of random_id] unfolding S_def by blast
  obtain ms s2 where ms: "group_send E S n ps s1 = (Inr ms, s2)" "length ms = length ps"
    "\<And>j. j < length ps \<Longrightarrow> message_of E ?kp ?cid k 0 j (fst (ps ! j)) (ms ! j)"
    using dev.send_all [OF E(2,1) kp E(3) c(3,4), of ps] ps unfolding S_def add_0 by auto
  obtain t1 rec1 where p: "process_sender_key_distribution_message S m skdm t = (Inr (), t1)"
    "device_records C t1 (skn_buf m) = Some rec1" "receives E ?kp ?cid k 0 {} rec1"
    using dev.process_step [OF E(2,1,3) kp t c(2)] unfolding S_def m_def by blast
  have m: "sender_key_name_of it chat device = m" using j by (simp add: sender_key_name_of_def m_def)
  have "sender_key_distribution_message_try_from E (skd_serialized skdm) = Inr skdm"
    by (rule skdm_roundtrip [OF E(1,3) key_pair_public_ok [OF sig_env_okD(1) [OF E(1)] kp] c(2)])
  then have h: "handle_sender_key_distribution_message it E S chat device (skd_serialized skdm) t = (Inr (), t1)"
    using p(1) by (simp add: handle_sender_key_distribution_message_def distributed_def m)
  have o: "set order \<subseteq> {..<length ps} - {}" using order(2) by simp
  obtain t2 rec2 r2 where r: "group_receive E S m (map ((!) ms) order) t1 = (map (\<lambda>j. Inr (fst (ps ! j))) order, t2)"
    "device_records C t2 (skn_buf m) = Some rec2" "receives E ?kp ?cid k r2 ({} \<union> set order) rec2" "r2 \<le> length ps"
    using dev.receive_all [OF E(2,1) kp E(3) ps ms(3) p(2,3) le0 order(1) o] unfolding S_def by blast
  have "\<exists>i. group_decrypt E S m (ms ! j) t2 = (Inl (Err (DuplicatedMessage i (of_nat j))), t2)" if "j \<in> set order" for j
  proof -
    have "j < length ps" using that order(2) by auto
    with dev.decrypt_step(2) [OF E(2,1) kp E(3) r(2,3) ms(3) [OF this]] that ps r(4) show ?thesis unfolding S_def by auto
  qed
  with c(1) ms h r(1) show ?thesis by blast
qed

definition sample_device_jid :: "str jid" where
  "sample_device_jid = jid_pn_device (lit ''15'') 3"

theorem group_messages_delivered_witness:
  "\<exists>skdm s1 ms s2 t1 t2.
    create_sender_key_distribution_message sample_sig (device_sender_keys sample_records) (sender_key_name_new [103] [115]) 7 (replicate 32 1)
      (replicate 32 2) in_memory_new = (Inr skdm, s1) \<and>
    group_send sample_sig (device_sender_keys sample_records) (sender_key_name_new [103] [115]) [([1], [2]), ([3], [4])] s1 = (Inr ms, s2) \<and>
    length ms = length [([1 :: u8], [2 :: u8]), ([3], [4])] \<and>
    handle_sender_key_distribution_message decimal sample_sig (device_sender_keys sample_records) (jid_group (lit ''12'')) sample_device_jid
      (skd_serialized skdm) in_memory_new = (Inr (), t1) \<and>
    group_receive sample_sig (device_sender_keys sample_records) (sender_key_name_of decimal (jid_group (lit ''12'')) (jid_pn (lit ''15'')))
      (map ((!) ms) [1, 0]) t1 = (map (\<lambda>j. Inr (fst ([([1], [2 :: u8]), ([3], [4])] ! j))) [1, 0], t2) \<and>
    (\<forall>j \<in> set [1, 0]. \<exists>i. group_decrypt sample_sig (device_sender_keys sample_records)
      (sender_key_name_of decimal (jid_group (lit ''12'')) (jid_pn (lit ''15''))) (ms ! j) t2 = (Inl (Err (DuplicatedMessage i (of_nat j))), t2))"
  by (rule group_messages_delivered [OF sample_sig_ok sample_records_ok])
    (simp_all add: no_sender_key_def in_memory_new_def sample_device_jid_def to_non_ad_def jid_pn_device_def jid_pn_def)

text \<open>A sender's first message, with its key distributed before and after.\<close>

lemma sample_redistribution:
  "\<exists>(skdm :: sender_key_distribution_message) m t'. group_decrypt sample_sig (device_sender_keys sample_records) (sender_key_name_of decimal (jid_group (lit ''12'')) (jid_pn (lit ''15''))) m
      (group_history decimal sample_sig (device_sender_keys sample_records)
        [Distribution (jid_group (lit ''12'')) sample_device_jid (skd_serialized skdm)] in_memory_new) = (Inr [1], t') \<and>
    message_header sample_sig m = Some (3, 0) \<and>
    chain_kept decimal sample_sig (device_sender_keys sample_records) (device_records sample_records)
      (skn_buf (sender_key_name_of decimal (jid_group (lit ''12'')) (jid_pn (lit ''15'')))) 3
      [Distribution (jid_group (lit ''12'')) sample_device_jid (skd_serialized skdm)] t'"
proof -
  let ?E = sample_sig and ?C = sample_records and ?S = "device_sender_keys sample_records"
  let ?n = "sender_key_name_of decimal (jid_group (lit ''12'')) (jid_pn (lit ''15''))" and ?k = "replicate 32 1 :: u8 list"
  let ?kp = "key_pair_generate (sg_curve ?E) (replicate 32 2)" and ?cid = "3 :: u32"
  let ?skdm = "sender_key_distribution_message_new ?E 3 ?cid 0 ?k (kp_public ?kp)"
  have cid: "drop_bit 1 7 = ?cid" by simp
  have len: "length ?k = 32" "length (replicate 32 (2 :: u8)) = 32" by simp_all
  have kp: "key_pair_ok (sg_curve ?E) ?kp" by (rule key_pair_generate_ok [OF sig_env_okD(1) [OF sample_sig_ok] len(2)])
  have new: "no_sender_key in_memory_new b" for b by (simp add: no_sender_key_def in_memory_new_def)
  obtain s1 rec where c: "device_records ?C s1 (skn_buf ?n) = Some rec" "sends ?E ?kp ?cid ?k 0 rec"
    using dev.create_step [OF sample_records_ok sample_sig_ok len new, where random_id = 7 and n = ?n] cid by metis
  obtain m where m: "message_of ?E ?kp ?cid ?k 0 0 [1] m"
    using dev.encrypt_step [OF sample_records_ok sample_sig_ok kp len(1) c, where p = "[1]"] by fastforce
  obtain t1 rec1 where p: "process_sender_key_distribution_message ?S ?n ?skdm in_memory_new = (Inr (), t1)"
    "device_records ?C t1 (skn_buf ?n) = Some rec1" "receives ?E ?kp ?cid ?k 0 {} rec1"
    using dev.process_step [OF sample_records_ok sample_sig_ok len(1) kp new refl] by blast
  have "sender_key_distribution_message_try_from ?E (skd_serialized ?skdm) = Inr ?skdm"
    by (rule skdm_roundtrip [OF sample_sig_ok len(1) key_pair_public_ok [OF sig_env_okD(1) [OF sample_sig_ok] kp] refl])
  then have d: "distributed ?E (skd_serialized ?skdm) = Inr (Some ?skdm)" by (simp add: distributed_def)
  have n: "sender_key_name_of decimal (jid_group (lit ''12'')) sample_device_jid = ?n"
    by (simp add: sender_key_name_of_def sample_device_jid_def to_non_ad_def jid_pn_device_def jid_pn_def)
  have h: "group_history decimal ?E ?S [Distribution (jid_group (lit ''12'')) sample_device_jid (skd_serialized ?skdm)] in_memory_new = t1"
    using p(1) d by (simp add: group_history_def dev.handle_distribution n)
  obtain t2 rec2 where r: "group_decrypt ?E ?S ?n m t1 = (Inr [1], t2)" "device_records ?C t2 = (device_records ?C t1)(skn_buf ?n := Some rec2)"
    "receives ?E ?kp ?cid ?k 1 {0} rec2"
    using dev.decrypt_step(1) [OF sample_records_ok sample_sig_ok kp len(1) p(2,3) m] by auto
  obtain st where st: "st \<in> set (skr_states rec2)" "sks_chain_id st = ?cid" "signing_key_public st = Inr (kp_public ?kp)"
    using r(3) unfolding receives_def follows_def by (metis list.set_intros(1))
  have "skd_chain_id ?skdm = ?cid" "skd_signing_key ?skdm = kp_public ?kp" by (simp_all add: sender_key_distribution_message_new_def Let_def)
  then have "\<not> drops_chain rec2 ?cid ?skdm" using st by (auto simp: drops_chain_def)
  then have "chain_kept decimal ?E ?S (device_records ?C) (skn_buf ?n) ?cid [Distribution (jid_group (lit ''12'')) sample_device_jid (skd_serialized ?skdm)] t2"
    using r(2) d by (simp add: n)
  moreover have "message_header ?E m = Some (?cid, 0)"
    using decrypt_message_of [OF sample_sig_ok kp m] st(3) by (fastforce simp: message_header_def)
  moreover have "group_decrypt ?E ?S ?n m (group_history decimal ?E ?S
      [Distribution (jid_group (lit ''12'')) sample_device_jid (skd_serialized ?skdm)] in_memory_new) = (Inr [1], t2)" using r(1) unfolding h .
  ultimately show ?thesis by blast
qed

text \<open>C6: No iteration of a chain is accepted twice while the chain is remembered, whatever arrives.  From a device
  without sender keys, after any sequence of distribution messages and group messages of any bytes, a message for a group and a
  sender is accepted.  Then any sequence of such events follows, in which no distribution message makes the record of the sender
  forget the chain of the message: none brings the chain with another signing key, and none brings a sixth chain.  In
  particular the key of the chain itself may be distributed again.  Then every message for the same group and sender with
  the same chain and iteration, the same bytes or others, is refused and changes nothing.\<close>

theorem group_no_replay:
  assumes "sig_env_ok E" "record_codec_ok C" "im_sender_keys t = []"
    and "group_decrypt E (device_sender_keys C) (sender_key_name_of it chat sender) m
      (group_history it E (device_sender_keys C) before t) = (Inr p, t')"
    and "message_header E m = Some (cid, i)" "message_header E m' = Some (cid, i)"
    and "skn_buf (sender_key_name_of it chat' sender') = skn_buf (sender_key_name_of it chat sender)"
    and "chain_kept it E (device_sender_keys C) (device_records C) (skn_buf (sender_key_name_of it chat sender)) cid evs t'"
  shows "\<exists>e. group_decrypt E (device_sender_keys C) (sender_key_name_of it chat' sender') m'
      (group_history it E (device_sender_keys C) evs t') = (Inl e, group_history it E (device_sender_keys C) evs t')"
proof -
  have "dev.orderly C t b" for b using assms(3) by (simp add: dev.orderly_def no_sender_key_def)
  then have "dev.orderly C (group_history it E (device_sender_keys C) before t) b" for b by (rule dev.history_orderly [OF assms(2,1)])
  from dev.no_replay [OF assms(2,1) this assms(4-8)] show ?thesis .
qed

theorem group_no_replay_witness:
  "\<exists>(skdm :: sender_key_distribution_message) m t' e. let S = device_sender_keys sample_records; chat = jid_group (lit ''12''); sender = jid_pn (lit ''15'');
      again = [Distribution chat sample_device_jid (skd_serialized skdm)] in
    group_decrypt sample_sig S (sender_key_name_of decimal chat sender) m (group_history decimal sample_sig S again in_memory_new) = (Inr [1], t') \<and>
    group_decrypt sample_sig S (sender_key_name_of decimal chat sender) m (group_history decimal sample_sig S again t') =
      (Inl e, group_history decimal sample_sig S again t')"
proof -
  let ?S = "device_sender_keys sample_records" and ?chat = "jid_group (lit ''12'')" and ?sender = "jid_pn (lit ''15'')"
  let ?n = "sender_key_name_of decimal ?chat ?sender"
  obtain skdm :: sender_key_distribution_message and m t' where w: "group_decrypt sample_sig ?S ?n m (group_history decimal sample_sig ?S
        [Distribution ?chat sample_device_jid (skd_serialized skdm)] in_memory_new) = (Inr [1], t')"
      "message_header sample_sig m = Some (3, 0)"
      "chain_kept decimal sample_sig ?S (device_records sample_records) (skn_buf ?n) 3
        [Distribution ?chat sample_device_jid (skd_serialized skdm)] t'"
    using sample_redistribution by blast
  have "im_sender_keys in_memory_new = []" by (simp add: in_memory_new_def)
  from group_no_replay [OF sample_sig_ok sample_records_ok this w(1,2,2) refl w(3)] w(1) show ?thesis
    unfolding Let_def by blast
qed

text \<open>C13: What a device keeps of sender keys is bounded and in order, whatever arrives.  From a device
  without sender keys, after any sequence of distribution messages and group messages, there is nothing under a name or a
  readable record of one to five states with different chains; each keeps at most 2050 keys of skipped messages, at most one
  per iteration, all for iterations before the next one of its chain.\<close>

theorem group_records_bounded:
  assumes "sig_env_ok E" "record_codec_ok C" "im_sender_keys t = []"
  shows "let t' = group_history it E (device_sender_keys C) evs t in
    no_sender_key t' b \<or>
    (\<exists>r. device_records C t' b = Some r \<and> skr_states r \<noteq> [] \<and> length (skr_states r) \<le> 5 \<and> distinct (map sks_chain_id (skr_states r)) \<and>
      (\<forall>st \<in> set (skr_states r). length (sks_message_keys st) \<le> 2050 \<and> distinct (kept st) \<and>
        (\<forall>c i. sks_sender_chain_key st = Some c \<longrightarrow> i \<in> set (kept st) \<longrightarrow> i < sck_iteration c)))"
proof -
  have "dev.orderly C t b" for b using assms(3) by (simp add: dev.orderly_def no_sender_key_def)
  then have "dev.orderly C (group_history it E (device_sender_keys C) evs t) b" by (rule dev.history_orderly [OF assms(2,1)])
  then show ?thesis
    by (auto simp: dev.orderly_def record_inv_def storable_def state_inv_def kept_def Let_def)
qed

theorem group_records_bounded_witness:
  "let t' = group_history decimal sample_sig (device_sender_keys sample_records)
       [Distribution (jid_group [49]) (jid_pn [50]) [51], GroupMessage (jid_group [49]) (jid_pn [50]) [51]] in_memory_new in
    no_sender_key t' [49] \<or>
    (\<exists>r. device_records sample_records t' [49] = Some r \<and> skr_states r \<noteq> [] \<and> length (skr_states r) \<le> 5 \<and>
      distinct (map sks_chain_id (skr_states r)) \<and>
      (\<forall>st \<in> set (skr_states r). length (sks_message_keys st) \<le> 2050 \<and> distinct (kept st) \<and>
        (\<forall>c i. sks_sender_chain_key st = Some c \<longrightarrow> i \<in> set (kept st) \<longrightarrow> i < sck_iteration c)))"
  by (rule group_records_bounded [OF sample_sig_ok sample_records_ok]) (simp add: in_memory_new_def)

end
